(* ===== verification/LL_Prelude.thy ===== *)
theory LL_Prelude
  imports Complex_Main "HOL-Library.Word" "HOL-Library.Char_ord" "HOL-Library.List_Lexorder"
    "HOL-Library.Multiset"
begin

text \<open>
  The prelude of the development: the machine types of the C++ sources, decimal
  rendering and parsing as the standard library does it (\<^verbatim>\<open>std::to_string\<close>,
  \<^verbatim>\<open>std::from_chars\<close>), the searches on strings and vectors the sources use
  (\<^verbatim>\<open>find\<close>, \<^verbatim>\<open>rfind\<close>, \<^verbatim>\<open>std::ranges::find\<close>), and the D-Bus variant that every
  option dictionary carries. A \<^verbatim>\<open>std::string\<close> is a list of bytes, so it is a
  \<^typ>\<open>string\<close>; \<^verbatim>\<open>uint32_t\<close> and \<^verbatim>\<open>uint64_t\<close> keep their width.
\<close>

named_theorems ll_simps \<open>unfolding rules of the model's operations\<close>
named_theorems ll_inv \<open>invariant preservation, one fact per operation\<close>

type_synonym u8 = "8 word"
type_synonym u32 = "32 word"
type_synonym u64 = "64 word"
type_synonym bytes = "u8 list"

subsection \<open>Searching a sequence\<close>

text \<open>\<^verbatim>\<open>std::string::rfind(c)\<close>: the index of the last occurrence, \<^const>\<open>None\<close> for npos.\<close>

fun rfind :: "'a \<Rightarrow> 'a list \<Rightarrow> nat option" where
  "rfind c [] = None"
| "rfind c (x # xs) =
     (case rfind c xs of
        Some i \<Rightarrow> Some (Suc i)
      | None \<Rightarrow> if x = c then Some 0 else None)"

text \<open>\<^verbatim>\<open>std::string::find(c)\<close> and \<^verbatim>\<open>std::ranges::find\<close>: the index of the first occurrence.\<close>

fun index_of :: "('a \<Rightarrow> bool) \<Rightarrow> 'a list \<Rightarrow> nat option" where
  "index_of P [] = None"
| "index_of P (x # xs) = (if P x then Some 0 else map_option Suc (index_of P xs))"

text \<open>\<^verbatim>\<open>vector::erase(begin() + i)\<close>.\<close>

definition erase_at :: "nat \<Rightarrow> 'a list \<Rightarrow> 'a list" where
  "erase_at i xs = take i xs @ drop (Suc i) xs"

lemma rfind_None_iff: "rfind c xs = None \<longleftrightarrow> c \<notin> set xs"
  by (induction xs) (auto split: option.splits)

lemma rfind_append_notin:
  "c \<notin> set ys \<Longrightarrow> rfind c (xs @ c # ys) = Some (length xs)"
  by (induction xs) (auto split: option.splits simp: rfind_None_iff)

lemma rfind_Some_nth: "rfind c xs = Some i \<Longrightarrow> i < length xs \<and> xs ! i = c \<and> c \<notin> set (drop (Suc i) xs)"
  by (induction xs arbitrary: i) (auto split: option.splits if_splits simp: rfind_None_iff)

lemma index_of_None_iff: "index_of P xs = None \<longleftrightarrow> (\<forall>x \<in> set xs. \<not> P x)"
  by (induction xs) auto

lemma index_of_SomeD:
  "index_of P xs = Some i \<Longrightarrow> i < length xs \<and> P (xs ! i) \<and> (\<forall>j < i. \<not> P (xs ! j))"
proof (induction xs arbitrary: i)
  case (Cons x xs)
  then show ?case by (cases i) (auto split: if_splits simp: less_Suc_eq_0_disj)
qed simp

lemma index_of_lt: "index_of P xs = Some i \<Longrightarrow> i < length xs"
  by (simp add: index_of_SomeD)

lemma index_of_holds: "index_of P xs = Some i \<Longrightarrow> P (xs ! i)"
  by (simp add: index_of_SomeD)

lemma index_of_distinct:
  "distinct xs \<Longrightarrow> i < length xs \<Longrightarrow> index_of (\<lambda>y. y = xs ! i) xs = Some i"
proof (induction xs arbitrary: i)
  case (Cons x xs)
  then show ?case by (cases i) (auto simp: nth_eq_iff_index_eq)
qed simp

lemma index_of_append:
  "index_of P (xs @ ys) =
     (case index_of P xs of Some i \<Rightarrow> Some i
      | None \<Rightarrow> map_option ((+) (length xs)) (index_of P ys))"
proof (induction xs)
  case Nil
  then show ?case by (cases "index_of P ys") simp_all
next
  case (Cons x xs)
  then show ?case by (cases "index_of P ys") (auto split: option.splits)
qed

lemma length_erase_at: "i < length xs \<Longrightarrow> length (erase_at i xs) = length xs - 1"
  by (simp add: erase_at_def)

lemma set_erase_at_subset: "set (erase_at i xs) \<subseteq> set xs"
  by (auto simp: erase_at_def dest: in_set_takeD in_set_dropD)

lemma erase_at_map: "map f (erase_at i xs) = erase_at i (map f xs)"
  by (simp add: erase_at_def take_map drop_map)

lemma erase_at_zip: "zip (erase_at i xs) (erase_at i ys) = erase_at i (zip xs ys)" if "length xs = length ys"
  using that by (simp add: erase_at_def take_zip drop_zip zip_append)

lemma mset_map_erase_at:
  "i < length xs \<Longrightarrow> mset (map f xs) = add_mset (f (xs ! i)) (mset (map f (erase_at i xs)))"
  by (subst id_take_nth_drop [of i xs]) (simp_all add: erase_at_def)

lemma distinct_erase_at: "distinct xs \<Longrightarrow> distinct (erase_at i xs)"
  by (simp add: erase_at_def set_take_disj_set_drop_if_distinct)

lemma erase_at_filter:
  assumes "distinct (map f xs)" and "i < length xs"
  shows "erase_at i xs = filter (\<lambda>x. f x \<noteq> f (xs ! i)) xs"
  using assms
proof (induction xs arbitrary: i)
  case (Cons x xs)
  show ?case
  proof (cases i)
    case 0
    with Cons.prems have "\<forall>y \<in> set xs. f y \<noteq> f x" by (auto simp: image_iff)
    then have "filter (\<lambda>y. f y \<noteq> f x) xs = xs" by simp
    with 0 show ?thesis by (simp add: erase_at_def)
  next
    case (Suc j)
    with Cons.prems have "f x \<noteq> f (xs ! j)" by (auto simp: image_iff)
    with Suc Cons.prems Cons.IH [of j] show ?thesis by (simp add: erase_at_def)
  qed
qed simp

subsection \<open>Decimal digits\<close>

definition digit_char :: "nat \<Rightarrow> char" where
  "digit_char d = char_of (48 + d)"

definition is_digit :: "char \<Rightarrow> bool" where
  "is_digit c \<longleftrightarrow> 48 \<le> (of_char c :: nat) \<and> (of_char c :: nat) \<le> 57"

definition digit_val :: "char \<Rightarrow> nat" where
  "digit_val c = of_char c - 48"

text \<open>\<^verbatim>\<open>std::to_string\<close> of an unsigned value.\<close>

fun show_nat :: "nat \<Rightarrow> string" where
  "show_nat n = (if n < 10 then [digit_char n] else show_nat (n div 10) @ [digit_char (n mod 10)])"

declare show_nat.simps [simp del]

definition digits_value :: "string \<Rightarrow> nat" where
  "digits_value ds = foldl (\<lambda>n c. 10 * n + digit_val c) 0 ds"

lemma is_digit_digit_char [simp]: "d < 10 \<Longrightarrow> is_digit (digit_char d)"
  by (simp add: is_digit_def digit_char_def of_char_of)

lemma digit_val_digit_char [simp]: "d < 10 \<Longrightarrow> digit_val (digit_char d) = d"
  by (simp add: digit_val_def digit_char_def of_char_of)

lemma show_nat_digits: "list_all is_digit (show_nat n)"
proof (induction n rule: show_nat.induct)
  case (1 n)
  then show ?case by (subst show_nat.simps) auto
qed

lemma show_nat_nonempty [simp]: "show_nat n \<noteq> []"
  by (subst show_nat.simps) simp

lemma digits_value_snoc [simp]: "digits_value (ds @ [c]) = 10 * digits_value ds + digit_val c"
  by (simp add: digits_value_def)

lemma digits_value_Nil [simp]: "digits_value [] = 0"
  by (simp add: digits_value_def)

lemma digits_value_show_nat [simp]: "digits_value (show_nat n) = n"
proof (induction n rule: show_nat.induct)
  case (1 n)
  show ?case
  proof (cases "n < 10")
    case True
    then have "digits_value ([] @ [digit_char n]) = n" by (subst digits_value_snoc) simp
    with True show ?thesis by (subst show_nat.simps) simp
  next
    case False
    with 1 show ?thesis by (subst show_nat.simps) simp
  qed
qed

lemma show_nat_inj [simp]: "show_nat m = show_nat n \<longleftrightarrow> m = n"
  by (metis digits_value_show_nat)

lemma takeWhile_show_nat [simp]: "takeWhile is_digit (show_nat n) = show_nat n"
  using show_nat_digits by (simp add: list_all_iff)

lemma slash_not_digit [simp]: "\<not> is_digit (CHR ''/'')"
  by (simp add: is_digit_def)

lemma slash_notin_show_nat [simp]: "CHR ''/'' \<notin> set (show_nat n)"
  using show_nat_digits [of n] slash_not_digit by (auto simp: list_all_iff)

text \<open>\<^verbatim>\<open>std::to_string(int)\<close> and \<^verbatim>\<open>QString::arg(int)\<close>.\<close>

definition show_int :: "int \<Rightarrow> string" where
  "show_int i = (if i < 0 then CHR ''-'' # show_nat (nat (- i)) else show_nat (nat i))"

subsection \<open>std::from_chars for an unsigned 64-bit target\<close>

datatype errc = Invalid_argument | Result_out_of_range

text \<open>
  \<^verbatim>\<open>std::from_chars(first, last, value)\<close>: the offset of \<^verbatim>\<open>ptr\<close> from \<^verbatim>\<open>first\<close>, the
  error code, and \<^verbatim>\<open>value\<close>, which an error leaves as it was (0 at every call site).
  No sign and no white space is accepted for an unsigned target.
\<close>

definition from_chars_u64 :: "string \<Rightarrow> nat \<times> errc option \<times> u64" where
  "from_chars_u64 s =
     (let ds = takeWhile is_digit s in
      if ds = [] then (0, Some Invalid_argument, 0)
      else if digits_value ds \<ge> 2 ^ 64 then (length ds, Some Result_out_of_range, 0)
      else (length ds, None, of_nat (digits_value ds)))"

lemma from_chars_u64_show_nat:
  "n < 2 ^ 64 \<Longrightarrow> from_chars_u64 (show_nat n) = (length (show_nat n), None, of_nat n)"
  by (simp add: from_chars_u64_def Let_def)

text \<open>
  Every caller accepts a result only when there is no error and the whole input was
  consumed; this is what such a caller accepts.
\<close>

lemma length_takeWhile_full: "length (takeWhile P s) = length s \<longleftrightarrow> list_all P s"
  by (induction s) auto

lemma from_chars_u64_whole:
  "(case from_chars_u64 s of (ptr, ec, v) \<Rightarrow> if ec \<noteq> None \<or> ptr \<noteq> length s then d else v) =
     (if s \<noteq> [] \<and> list_all is_digit s \<and> digits_value s < 2 ^ 64
      then of_nat (digits_value s) else d)"
proof (cases "list_all is_digit s")
  case True
  then have "takeWhile is_digit s = s" by (simp add: list_all_iff)
  with True show ?thesis
    by (auto simp: from_chars_u64_def Let_def simp del: takeWhile_eq_all_conv)
next
  case False
  then have "length (takeWhile is_digit s) \<noteq> length s" by (simp add: length_takeWhile_full)
  moreover from False have "s \<noteq> []" by auto
  ultimately show ?thesis using False by (auto simp: from_chars_u64_def Let_def)
qed

subsection \<open>D-Bus variants\<close>

text \<open>
  \<^verbatim>\<open>sdbus::Variant\<close>: a value tagged with its D-Bus type. \<^verbatim>\<open>get<T>()\<close> returns the
  value when the tag is \<^verbatim>\<open>T\<close>'s and throws \<^verbatim>\<open>sdbus::Error\<close> otherwise; every
  \<open>get_\<close> function below is \<^const>\<open>None\<close> for the throw. Nothing is converted.
\<close>

datatype double = Finite rat | Infinite bool | Not_a_number

datatype variant =
    VString string
  | VUInt32 u32
  | VInt32 "32 word"
  | VUInt64 u64
  | VInt64 "64 word"
  | VBool bool
  | VDouble double
  | VStrings "string list"
  | VBytes bytes
  | VPath string
  | VFd nat
  | VDict "(string \<times> variant) list"
  | VSources "(string \<times> bool \<times> bool) list"

fun get_string :: "variant \<Rightarrow> string option" where
  "get_string (VString s) = Some s"
| "get_string _ = None"

fun get_u32 :: "variant \<Rightarrow> u32 option" where
  "get_u32 (VUInt32 w) = Some w"
| "get_u32 _ = None"

fun get_bool :: "variant \<Rightarrow> bool option" where
  "get_bool (VBool b) = Some b"
| "get_bool _ = None"

fun get_strings :: "variant \<Rightarrow> string list option" where
  "get_strings (VStrings xs) = Some xs"
| "get_strings _ = None"

fun get_path :: "variant \<Rightarrow> string option" where
  "get_path (VPath p) = Some p"
| "get_path _ = None"

fun get_fd :: "variant \<Rightarrow> nat option" where
  "get_fd (VFd n) = Some n"
| "get_fd _ = None"

fun get_dict :: "variant \<Rightarrow> (string \<times> variant) list option" where
  "get_dict (VDict d) = Some d"
| "get_dict _ = None"

text \<open>An array of (url, flag, flag) structs, \<^verbatim>\<open>a(sbb)\<close>.\<close>

fun get_sources :: "variant \<Rightarrow> (string \<times> bool \<times> bool) list option" where
  "get_sources (VSources xs) = Some xs"
| "get_sources _ = None"

fun_cases get_string_SomeE: "get_string v = Some s"
fun_cases get_u32_SomeE: "get_u32 v = Some w"
fun_cases get_bool_SomeE: "get_bool v = Some b"
fun_cases get_strings_SomeE: "get_strings v = Some xs"
fun_cases get_fd_SomeE: "get_fd v = Some n"
fun_cases get_dict_SomeE: "get_dict v = Some d"

end
