(* ===== verification/Std_Map.thy ===== *)
theory Std_Map
  imports LL_Prelude
begin

text \<open>
  \<^verbatim>\<open>std::map\<close> as the sources use it: an association list in strictly ascending key
  order, so that iteration (a presence roster, the object tree) visits the keys in the
  order the C++ container does. \<open>std_map\<close> is the interface the clients rely on, with its
  laws stated against the partial function \<open>lookup\<close>; the list operations interpret it.
\<close>

type_synonym ('k, 'v) smap = "('k \<times> 'v) list"

text \<open>\<^verbatim>\<open>m[k] = v\<close> and \<^verbatim>\<open>insert_or_assign\<close>.\<close>

fun smap_assign :: "'k::linorder \<Rightarrow> 'v \<Rightarrow> ('k, 'v) smap \<Rightarrow> ('k, 'v) smap" where
  "smap_assign k v [] = [(k, v)]"
| "smap_assign k v ((k', v') # m) =
     (if k < k' then (k, v) # (k', v') # m
      else if k = k' then (k, v) # m
      else (k', v') # smap_assign k v m)"

text \<open>\<^verbatim>\<open>find\<close>, with \<^const>\<open>None\<close> for \<^verbatim>\<open>end()\<close>.\<close>

definition smap_find :: "('k, 'v) smap \<Rightarrow> 'k \<Rightarrow> 'v option" where
  "smap_find m k = map_of m k"

text \<open>\<^verbatim>\<open>emplace\<close>: inserts only when the key is absent.\<close>

definition smap_emplace :: "'k::linorder \<Rightarrow> 'v \<Rightarrow> ('k, 'v) smap \<Rightarrow> ('k, 'v) smap" where
  "smap_emplace k v m = (case smap_find m k of Some _ \<Rightarrow> m | None \<Rightarrow> smap_assign k v m)"

text \<open>\<^verbatim>\<open>erase(key)\<close>: a no-op when the key is absent.\<close>

definition smap_erase :: "'k \<Rightarrow> ('k, 'v) smap \<Rightarrow> ('k, 'v) smap" where
  "smap_erase k m = filter (\<lambda>e. fst e \<noteq> k) m"

definition smap_keys :: "('k, 'v) smap \<Rightarrow> 'k list" where
  "smap_keys m = map fst m"

definition smap_ok :: "('k::linorder, 'v) smap \<Rightarrow> bool" where
  "smap_ok m \<longleftrightarrow> sorted_wrt (<) (smap_keys m)"

subsection \<open>The interface\<close>

locale std_map =
  fixes empty :: 'm
    and assign :: "'k \<Rightarrow> 'v \<Rightarrow> 'm \<Rightarrow> 'm"
    and emplace :: "'k \<Rightarrow> 'v \<Rightarrow> 'm \<Rightarrow> 'm"
    and erase :: "'k \<Rightarrow> 'm \<Rightarrow> 'm"
    and lookup :: "'m \<Rightarrow> 'k \<Rightarrow> 'v option"
    and ok :: "'m \<Rightarrow> bool"
  assumes lookup_empty: "lookup empty k = None"
    and lookup_assign: "ok m \<Longrightarrow> lookup (assign k v m) k' = (if k' = k then Some v else lookup m k')"
    and lookup_emplace:
      "ok m \<Longrightarrow> lookup (emplace k v m) k' =
         (if k' = k \<and> lookup m k = None then Some v else lookup m k')"
    and lookup_erase: "ok m \<Longrightarrow> lookup (erase k m) k' = (if k' = k then None else lookup m k')"
    and ok_empty: "ok empty"
    and ok_assign: "ok m \<Longrightarrow> ok (assign k v m)"
    and ok_emplace: "ok m \<Longrightarrow> ok (emplace k v m)"
    and ok_erase: "ok m \<Longrightarrow> ok (erase k m)"
begin

lemma assign_then_find: "ok m \<Longrightarrow> lookup (assign k v m) k = Some v"
  by (simp add: lookup_assign)

lemma erase_then_find: "ok m \<Longrightarrow> lookup (erase k m) k = None"
  by (simp add: lookup_erase)

lemma dom_assign: "ok m \<Longrightarrow> dom (lookup (assign k v m)) = insert k (dom (lookup m))"
  by (auto simp: lookup_assign split: if_splits)

lemma dom_erase: "ok m \<Longrightarrow> dom (lookup (erase k m)) = dom (lookup m) - {k}"
  by (auto simp: lookup_erase split: if_splits)

lemma erase_absent: "ok m \<Longrightarrow> lookup m k = None \<Longrightarrow> lookup (erase k m) k' = lookup m k'"
  by (simp add: lookup_erase)

text \<open>A chain of \<^verbatim>\<open>emplace\<close> calls keeps the first binding of each key.\<close>

lemma lookup_fold_emplace:
  "ok m \<Longrightarrow> ok (fold (\<lambda>(k, v). emplace k v) kvs m) \<and>
     lookup (fold (\<lambda>(k, v). emplace k v) kvs m) k' =
       (case lookup m k' of Some v \<Rightarrow> Some v | None \<Rightarrow> map_of kvs k')"
proof (induction kvs arbitrary: m)
  case (Cons kv kvs)
  obtain k v where [simp]: "kv = (k, v)" by (cases kv)
  from Cons.prems have ok': "ok (emplace k v m)" by (rule ok_emplace)
  show ?case
    using Cons.IH [OF ok'] lookup_emplace [OF Cons.prems, of k v k']
    by (auto split: option.splits)
qed (simp split: option.splits)

end

subsection \<open>The list implementation\<close>

lemma set_smap_assign: "fst ` set (smap_assign k v m) = insert k (fst ` set m)"
  by (induction k v m rule: smap_assign.induct) (auto simp: image_iff)

lemma smap_ok_Nil [simp]: "smap_ok []"
  by (simp add: smap_ok_def smap_keys_def)

lemma smap_ok_Cons [simp]:
  "smap_ok ((k, v) # m) \<longleftrightarrow> (\<forall>k' \<in> fst ` set m. k < k') \<and> smap_ok m"
  by (auto simp: smap_ok_def smap_keys_def)

lemma smap_ok_assign: "smap_ok m \<Longrightarrow> smap_ok (smap_assign k v m)"
  by (induction k v m rule: smap_assign.induct) (auto simp: set_smap_assign)

lemma smap_find_assign:
  "smap_ok m \<Longrightarrow> smap_find (smap_assign k v m) k' = (if k' = k then Some v else smap_find m k')"
proof (induction k v m rule: smap_assign.induct)
  case (2 k v k0 v0 m)
  then show ?case by (auto simp: smap_find_def split: if_splits)
qed (simp add: smap_find_def)

lemma smap_ok_erase: "smap_ok m \<Longrightarrow> smap_ok (smap_erase k m)"
  by (induction m) (auto simp: smap_erase_def)

lemma smap_find_erase: "smap_find (smap_erase k m) k' = (if k' = k then None else smap_find m k')"
  by (induction m) (auto simp: smap_erase_def smap_find_def)

lemma smap_ok_emplace: "smap_ok m \<Longrightarrow> smap_ok (smap_emplace k v m)"
  by (simp add: smap_emplace_def smap_ok_assign split: option.split)

lemma smap_find_emplace:
  "smap_ok m \<Longrightarrow> smap_find (smap_emplace k v m) k' =
     (if k' = k \<and> smap_find m k = None then Some v else smap_find m k')"
  by (auto simp: smap_emplace_def smap_find_assign split: option.splits)

interpretation smap: std_map "[]" smap_assign smap_emplace smap_erase smap_find smap_ok
  by unfold_locales
     (auto simp: smap_find_def [of "[]"] smap_find_assign smap_find_emplace smap_find_erase
        intro: smap_ok_assign smap_ok_emplace smap_ok_erase)

lemma smap_ok_distinct: "smap_ok m \<Longrightarrow> distinct (map fst m)"
  by (induction m) (auto simp: smap_ok_def smap_keys_def)

lemma smap_find_iff: "smap_ok m \<Longrightarrow> smap_find m k = Some v \<longleftrightarrow> (k, v) \<in> set m"
  by (simp add: smap_find_def smap_ok_distinct)

lemma smap_erase_absent: "smap_find m k = None \<Longrightarrow> smap_erase k m = m"
  by (induction m) (auto simp: smap_erase_def smap_find_def split: if_splits)

lemmas smap_simps [ll_simps] =
  smap.lookup_empty smap.lookup_assign smap.lookup_emplace smap.lookup_erase
  smap.ok_empty smap.ok_assign smap.ok_emplace smap.ok_erase

end
