(* ===== verification/Object_Paths.thy ===== *)
theory Object_Paths
  imports Std_Map
begin

text \<open>
  The wire paths of the agent's exported objects: \<^verbatim>\<open>agent/src/AgentObjectPath.h\<close> and
  \<^verbatim>\<open>agent/src/dbus/OperationPath.h\<close>. \<^verbatim>\<open>ObjectId\<close> is the agent library's newtype over a
  64-bit counter; its default value \<^verbatim>\<open>ObjectId{}\<close> and its \<^verbatim>\<open>valid()\<close> are that library's,
  so they are the parameter \<open>oid_lib\<close>, of which the code relies on one thing only: the
  default value is not valid.
\<close>

record oid_lib =
  oid_none :: u64
  oid_valid :: "u64 \<Rightarrow> bool"

definition oid_lib_ok :: "oid_lib \<Rightarrow> bool" where
  "oid_lib_ok L \<longleftrightarrow> \<not> oid_valid L (oid_none L)"

definition kRootPath :: string where
  "kRootPath = ''/org/librescrs/Agent''"

definition agentObjectPath :: "string \<Rightarrow> u64 \<Rightarrow> string" where
  "agentObjectPath kind i = kRootPath @ ''/'' @ kind @ ''/'' @ show_nat (unat i)"

definition objectIdFromPath :: "oid_lib \<Rightarrow> string \<Rightarrow> u64" where
  "objectIdFromPath L path =
     (case rfind CHR ''/'' path of
        None \<Rightarrow> oid_none L
      | Some slash \<Rightarrow>
          if slash + 1 \<ge> length path then oid_none L
          else
            let tail = drop (slash + 1) path;
                (ptr, ec, v) = from_chars_u64 tail
            in if ec \<noteq> None \<or> ptr \<noteq> length tail then oid_none L else v)"

definition opObjectPath :: "u64 \<Rightarrow> string" where
  "opObjectPath i = ''/org/librescrs/Agent/op/'' @ show_nat (unat i)"

subsection \<open>Helper lemmas\<close>

lemma rfind_agentObjectPath:
  "rfind CHR ''/'' (agentObjectPath kind i) = Some (length kRootPath + length kind + 1)"
proof -
  have "agentObjectPath kind i = (kRootPath @ ''/'' @ kind) @ CHR ''/'' # show_nat (unat i)"
    by (simp add: agentObjectPath_def)
  then show ?thesis
    using rfind_append_notin [of "CHR ''/''" "show_nat (unat i)" "kRootPath @ ''/'' @ kind"] by simp
qed

lemma from_chars_show_id: "from_chars_u64 (show_nat (unat i)) = (length (show_nat (unat i)), None, i)"
  for i :: u64
proof -
  have "unat i < 2 ^ 64" using unsigned_less [of i] by simp
  then show ?thesis by (simp add: from_chars_u64_show_nat)
qed

lemma objectIdFromPath_agentObjectPath: "objectIdFromPath L (agentObjectPath kind i) = i"
proof -
  have "drop (length kRootPath + length kind + 2) (agentObjectPath kind i) = show_nat (unat i)"
    by (simp add: agentObjectPath_def)
  moreover have "length kRootPath + length kind + 2 < length (agentObjectPath kind i)"
    by (simp add: agentObjectPath_def)
  ultimately show ?thesis
    by (simp add: objectIdFromPath_def rfind_agentObjectPath from_chars_show_id Let_def)
qed

lemma agentObjectPath_inj_id: "agentObjectPath kind i = agentObjectPath kind j \<longleftrightarrow> i = j"
  by (auto simp: agentObjectPath_def word_unat_eq_iff)

text \<open>A path always names one kind and one id when the kinds hold no slash.\<close>

lemma agentObjectPath_inj:
  assumes "agentObjectPath k i = agentObjectPath k' j"
  shows "k = k' \<and> i = j"
proof -
  from assms have "objectIdFromPath \<lparr>oid_none = 0, oid_valid = \<lambda>_. False\<rparr> (agentObjectPath k i) =
      objectIdFromPath \<lparr>oid_none = 0, oid_valid = \<lambda>_. False\<rparr> (agentObjectPath k' j)"
    by simp
  then have "i = j" by (simp add: objectIdFromPath_agentObjectPath)
  with assms show ?thesis by (auto simp: agentObjectPath_def)
qed

lemma reader_card_path_distinct [simp]: "agentObjectPath ''reader'' i \<noteq> agentObjectPath ''card'' j"
  by (auto dest: agentObjectPath_inj)

lemma agentObjectPath_not_root [simp]: "agentObjectPath k i \<noteq> ''/''" "agentObjectPath k i \<noteq> []"
  by (simp_all add: agentObjectPath_def kRootPath_def)

subsection \<open>Properties\<close>

text \<open>
  Recovering an id from a path this backend composed gives back the id, for every
  kind and every 64-bit value: the two directions of the path mapping cannot drift.
\<close>

theorem object_path_roundtrip: "objectIdFromPath L (agentObjectPath kind i) = i"
  by (rule objectIdFromPath_agentObjectPath)

text \<open>
  A path that does not end in a fully numeric segment in range (no slash, an empty
  tail, junk before, inside or after the digits, a sign, a value of 2^64 or more) is
  answered with the default id, which is not valid; any other path is answered with the
  value of its tail.
\<close>

theorem objectIdFromPath_spec:
  "objectIdFromPath L path =
     (case rfind CHR ''/'' path of
        None \<Rightarrow> oid_none L
      | Some slash \<Rightarrow>
          let tail = drop (Suc slash) path in
          if tail \<noteq> [] \<and> list_all is_digit tail \<and> digits_value tail < 2 ^ 64
          then of_nat (digits_value tail) else oid_none L)"
proof (cases "rfind CHR ''/'' path")
  case None
  then show ?thesis by (simp add: objectIdFromPath_def)
next
  case (Some slash)
  then show ?thesis
    using from_chars_u64_whole [of "drop (Suc slash) path" "oid_none L"]
    by (auto simp: objectIdFromPath_def Let_def)
qed

end
