(* ===== verification/Sealed_Memfd.thy ===== *)
theory Sealed_Memfd
  imports LL_Prelude
begin

unbundle bit_operations_syntax

text \<open>
  The sealed-memfd hand-over of a secret: the creator both binaries share
  (\<^verbatim>\<open>common/SealedMemfdCreator.h\<close>, with its two callers \<^verbatim>\<open>prompter/src/SecretMemfd.cpp\<close>
  and \<^verbatim>\<open>agent/src/SealedMemfd.cpp\<close>) and the reader of the receiving side
  (\<^verbatim>\<open>agent/src/SecretMemfdReader.cpp\<close>). The kernel is a table of open descriptors; what
  each system call answers is a script, so that short transfers, \<^verbatim>\<open>EINTR\<close> and hard errors
  all occur. A transfer loop whose script ends before the loop does is \<^const>\<open>None\<close>: the
  call has not returned.
\<close>

type_synonym errno = nat

definition EINTR :: errno where "EINTR = 4"
definition EIO :: errno where "EIO = 5"

definition F_SEAL_SEAL :: u32 where "F_SEAL_SEAL = 1"
definition F_SEAL_SHRINK :: u32 where "F_SEAL_SHRINK = 2"
definition F_SEAL_GROW :: u32 where "F_SEAL_GROW = 4"
definition F_SEAL_WRITE :: u32 where "F_SEAL_WRITE = 8"

lemmas seal_flags = F_SEAL_SEAL_def F_SEAL_SHRINK_def F_SEAL_GROW_def F_SEAL_WRITE_def

record memfile =
  mf_name :: string
  mf_data :: bytes
  mf_seals :: u32

type_synonym fdtable = "nat \<rightharpoonup> memfile"

text \<open>One answer of \<^verbatim>\<open>write(2)\<close> or \<^verbatim>\<open>pread(2)\<close>; a kernel never transfers more than it was asked for.\<close>

datatype transfer = Moved nat | Failed errno

text \<open>What the calls of one creation answer.\<close>

record create_env =
  env_memfd_create :: "errno + nat"
  env_writes :: "transfer list"
  env_add_seals :: "errno option"

subsection \<open>The creator\<close>

primrec write_loop :: "transfer list \<Rightarrow> bytes \<Rightarrow> nat \<Rightarrow> bytes \<Rightarrow> (errno + bytes) option" where
  "write_loop [] bs off written = (if off < length bs then None else Some (Inr written))"
| "write_loop (w # ws) bs off written =
     (if off < length bs then
        (case w of
           Failed e \<Rightarrow> if e = EINTR then write_loop ws bs off written else Some (Inl e)
         | Moved n \<Rightarrow>
             let k = min n (length bs - off) in
             if k = 0 then Some (Inl EIO)
             else write_loop ws bs (off + k) (written @ take k (drop off bs)))
      else Some (Inr written))"

definition makeSealedMemfd ::
  "create_env \<Rightarrow> string \<Rightarrow> bytes \<Rightarrow> fdtable \<Rightarrow> ((int \<times> errno option) \<times> fdtable) option" where
  "makeSealedMemfd env label bs t =
     (case env_memfd_create env of
        Inl e \<Rightarrow> Some ((- 1, Some e), t)
      | Inr fd \<Rightarrow>
          (case write_loop (env_writes env) bs 0 [] of
             None \<Rightarrow> None
           | Some (Inl e) \<Rightarrow> Some ((- 1, Some e), t(fd := None))
           | Some (Inr written) \<Rightarrow>
               (case env_add_seals env of
                  Some e \<Rightarrow> Some ((- 1, Some e), t(fd := None))
                | None \<Rightarrow>
                    Some ((int fd, None),
                      t(fd \<mapsto> \<lparr>mf_name = label, mf_data = written,
                               mf_seals = F_SEAL_SHRINK OR F_SEAL_GROW OR F_SEAL_WRITE\<rparr>)))))"

definition makeSealedSecretFd ::
  "create_env \<Rightarrow> bytes \<Rightarrow> fdtable \<Rightarrow> ((int \<times> errno option) \<times> fdtable) option" where
  "makeSealedSecretFd env bs t = makeSealedMemfd env ''librescrs-secret'' bs t"

definition makeEmptySealedFd ::
  "create_env \<Rightarrow> fdtable \<Rightarrow> ((int \<times> errno option) \<times> fdtable) option" where
  "makeEmptySealedFd env t = makeSealedSecretFd env [] t"

text \<open>\<^verbatim>\<open>SealedMemfd::create\<close>, the agent's own use of the creator.\<close>

definition create_photo_fd ::
  "create_env \<Rightarrow> bytes \<Rightarrow> fdtable \<Rightarrow> ((int \<times> errno option) \<times> fdtable) option" where
  "create_photo_fd env bs t = makeSealedMemfd env ''librescrs-photo'' bs t"

subsection \<open>The reader\<close>

text \<open>
  A received descriptor as the reader's calls see it: whether it is valid, what
  \<^verbatim>\<open>F_GET_SEALS\<close> and \<^verbatim>\<open>fstat\<close> answer, and the bytes behind it.
\<close>

record fd_view =
  fv_valid :: bool
  fv_seals :: "errno + u32"
  fv_size :: "errno + int"
  fv_data :: bytes

definition view_of :: "memfile \<Rightarrow> fd_view" where
  "view_of f = \<lparr>fv_valid = True, fv_seals = Inr (mf_seals f), fv_size = Inr (int (length (mf_data f))),
                fv_data = mf_data f\<rparr>"

text \<open>
  What the reader takes from outside this tree: the size cap and the zeroization routine
  of the agent library, the cleansing string of the middleware (the secret it took and
  the bytes it leaves in the source buffer, \<^const>\<open>None\<close> when its constructor throws), and
  the C library's \<^verbatim>\<open>strerror\<close>.
\<close>

record reader_lib =
  kMaxSecretBytes :: nat
  secureZero :: "bytes \<Rightarrow> bytes"
  secureString :: "bytes \<Rightarrow> (bytes \<times> bytes) option"
  strerror :: "errno \<Rightarrow> string"

definition reader_lib_ok :: "reader_lib \<Rightarrow> bool" where
  "reader_lib_ok L \<longleftrightarrow>
     (\<forall>b. secureZero L b = replicate (length b) 0) \<and>
     (\<forall>b s r. secureString L b = Some (s, r) \<longrightarrow> s = b \<and> r = replicate (length b) 0)"

record read_env =
  env_resize_ok :: bool
  env_preads :: "transfer list"

text \<open>
  The outcome of a read: the secret, the message stored through \<^verbatim>\<open>errorMessage\<close>, and what
  the local buffer holds when it is freed.
\<close>

record read_result =
  rr_secret :: "bytes option"
  rr_error :: string
  rr_residue :: bytes

definition read_fail :: "string \<Rightarrow> bytes \<Rightarrow> read_result" where
  "read_fail msg residue = \<lparr>rr_secret = None, rr_error = msg, rr_residue = residue\<rparr>"

text \<open>The buffer starts as \<open>len\<close> zero bytes; \<open>got\<close> of them have been filled.\<close>

primrec pread_loop :: "transfer list \<Rightarrow> bytes \<Rightarrow> nat \<Rightarrow> nat \<Rightarrow> bytes \<Rightarrow> ((errno option \<times> bytes) + bytes) option" where
  "pread_loop [] data len got buffer = (if got < len then None else Some (Inr buffer))"
| "pread_loop (r # rs) data len got buffer =
     (if got < len then
        (case r of
           Moved n \<Rightarrow>
             let k = min n (min (len - got) (length data - got)) in
             if k > 0 then
               pread_loop rs data len (got + k)
                 (take got buffer @ take k (drop got data) @ drop (got + k) buffer)
             else Some (Inl (None, buffer))
         | Failed e \<Rightarrow>
             if e = EINTR then pread_loop rs data len got buffer
             else Some (Inl (Some e, buffer)))
      else Some (Inr buffer))"

definition kRequiredSeals :: u32 where
  "kRequiredSeals = F_SEAL_WRITE OR F_SEAL_SHRINK OR F_SEAL_GROW"

definition SecretMemfdReader_read :: "reader_lib \<Rightarrow> read_env \<Rightarrow> fd_view \<Rightarrow> read_result option" where
  "SecretMemfdReader_read L env fd =
     (if \<not> fv_valid fd then Some (read_fail ''invalid file descriptor'' [])
      else if (case fv_seals fd of Inl _ \<Rightarrow> True | Inr s \<Rightarrow> s AND kRequiredSeals \<noteq> kRequiredSeals)
      then Some (read_fail ''secret fd is not a sealed memfd'' [])
      else case fv_size fd of
        Inl e \<Rightarrow> Some (read_fail (strerror L e) [])
      | Inr sz \<Rightarrow>
          if sz < 0 then Some (read_fail ''memfd reports negative size'' [])
          else
            let len = nat sz in
            if len > kMaxSecretBytes L
            then Some (read_fail ''memfd payload exceeds maximum allowed size'' [])
            else if len = 0 then Some \<lparr>rr_secret = Some [], rr_error = [], rr_residue = []\<rparr>
            else if \<not> env_resize_ok env
            then Some (read_fail ''allocation failed for secret buffer'' [])
            else case pread_loop (env_preads env) (fv_data fd) len 0 (replicate len 0) of
              None \<Rightarrow> None
            | Some (Inl (None, buffer)) \<Rightarrow>
                Some (read_fail ''short read from secret memfd'' (secureZero L buffer))
            | Some (Inl (Some e, buffer)) \<Rightarrow>
                Some (read_fail (strerror L e) (secureZero L buffer))
            | Some (Inr buffer) \<Rightarrow>
                (case secureString L buffer of
                   Some (secret, left) \<Rightarrow>
                     Some \<lparr>rr_secret = Some secret, rr_error = [], rr_residue = left\<rparr>
                 | None \<Rightarrow>
                     Some (read_fail ''Secure::String construction failed'' (secureZero L buffer))))"

subsection \<open>The transfer loops\<close>

lemma write_loop_content:
  "write_loop ws bs off w = Some (Inr w') \<Longrightarrow> off \<le> length bs \<Longrightarrow> w = take off bs \<Longrightarrow> w' = bs"
proof (induction ws arbitrary: off w)
  case (Cons x ws)
  show ?case
  proof (cases x)
    case (Failed e)
    with Cons show ?thesis by (auto split: if_splits)
  next
    case (Moved n)
    let ?k = "min n (length bs - off)"
    have "w @ take ?k (drop off bs) = take (off + ?k) bs"
      using Cons.prems(3) by (simp add: take_add)
    then show ?thesis
      using Cons.prems Moved Cons.IH [of "off + ?k" "w @ take ?k (drop off bs)"]
      by (auto simp: Let_def split: if_splits)
  qed
qed (auto split: if_splits)

text \<open>
  A script that keeps making progress: an interrupted call moves nothing and is retried,
  every other call moves at least one byte. \<open>moves\<close> counts those other calls.
\<close>

definition progressing :: "transfer list \<Rightarrow> bool" where
  "progressing ws \<longleftrightarrow> list_all (\<lambda>w. case w of Moved n \<Rightarrow> n > 0 | Failed e \<Rightarrow> e = EINTR) ws"

definition moves :: "transfer list \<Rightarrow> nat" where
  "moves ws = length (filter (\<lambda>w. case w of Moved n \<Rightarrow> True | Failed _ \<Rightarrow> False) ws)"

lemma moves_simps [simp]:
  "moves [] = 0" "moves (Moved n # ws) = Suc (moves ws)" "moves (Failed e # ws) = moves ws"
  by (simp_all add: moves_def)

lemma progressing_simps [simp]:
  "progressing []" "progressing (Moved n # ws) \<longleftrightarrow> 0 < n \<and> progressing ws"
  "progressing (Failed e # ws) \<longleftrightarrow> e = EINTR \<and> progressing ws"
  by (simp_all add: progressing_def)

lemma write_loop_enough:
  "progressing ws \<Longrightarrow> length bs - off \<le> moves ws \<Longrightarrow> off \<le> length bs \<Longrightarrow>
     \<exists>w'. write_loop ws bs off w = Some (Inr w')"
proof (induction ws arbitrary: off w)
  case (Cons x ws)
  show ?case
  proof (cases x)
    case (Failed e)
    with Cons show ?thesis by auto
  next
    case (Moved n)
    let ?k = "min n (length bs - off)"
    from Moved Cons.prems have "off < length bs \<Longrightarrow> length bs - (off + ?k) \<le> moves ws" by auto
    with Moved Cons.prems Cons.IH [of "off + ?k" "w @ take ?k (drop off bs)"] show ?thesis
      by (auto simp: Let_def)
  qed
qed auto

lemma pread_loop_content:
  "pread_loop rs data len got buffer = Some (Inr b) \<Longrightarrow> len \<le> length data \<Longrightarrow> got \<le> len \<Longrightarrow>
     length buffer = len \<Longrightarrow> take got buffer = take got data \<Longrightarrow> b = take len data"
proof (induction rs arbitrary: got buffer)
  case (Cons x rs)
  show ?case
  proof (cases x)
    case (Failed e)
    with Cons show ?thesis by (auto split: if_splits)
  next
    case (Moved n)
    let ?k = "min n (min (len - got) (length data - got))"
    let ?buf = "take got buffer @ take ?k (drop got data) @ drop (got + ?k) buffer"
    have "got < len \<Longrightarrow> length ?buf = len" using Cons.prems by simp
    moreover have "got < len \<Longrightarrow> take (got + ?k) ?buf = take (got + ?k) data"
      using Cons.prems by (simp add: take_add)
    ultimately show ?thesis
      using Cons.prems Moved Cons.IH [of "got + ?k" ?buf] by (auto simp: Let_def split: if_splits)
  qed
qed (auto split: if_splits)

fun loop_buf :: "(errno option \<times> bytes) + bytes \<Rightarrow> bytes" where
  "loop_buf (Inr b) = b"
| "loop_buf (Inl (e, b)) = b"

lemma pread_loop_length:
  "pread_loop rs data len got buffer = Some r \<Longrightarrow> got \<le> len \<Longrightarrow> length buffer = len \<Longrightarrow>
     length (loop_buf r) = len"
proof (induction rs arbitrary: got buffer)
  case Nil
  then show ?case by (simp split: if_splits) (metis loop_buf.simps(1))
next
  case (Cons x rs)
  show ?case
  proof (cases x)
    case (Failed e)
    with Cons show ?thesis
      by (simp split: if_splits) (metis loop_buf.simps Cons.prems(3))+
  next
    case (Moved n)
    let ?k = "min n (min (len - got) (length data - got))"
    let ?buf = "take got buffer @ take ?k (drop got data) @ drop (got + ?k) buffer"
    show ?thesis
    proof (cases "got < len \<and> 0 < ?k")
      case True
      then have "length ?buf = len" using Cons.prems(2,3) by simp linarith
      moreover have "pread_loop rs data len (got + ?k) ?buf = Some r"
        using Cons.prems(1) Moved True by (simp add: Let_def)
      moreover have "got + ?k \<le> len" using True by linarith
      ultimately show ?thesis using Cons.IH by blast
    next
      case False
      then have "r = Inr buffer \<or> r = Inl (None, buffer)"
        using Cons.prems(1) Moved by (simp add: Let_def split: if_splits)
      then show ?thesis using Cons.prems(3) by auto
    qed
  qed
qed

lemma pread_loop_enough:
  "progressing rs \<Longrightarrow> len - got \<le> moves rs \<Longrightarrow> got \<le> len \<Longrightarrow> len \<le> length data \<Longrightarrow>
     \<exists>b. pread_loop rs data len got buffer = Some (Inr b)"
proof (induction rs arbitrary: got buffer)
  case (Cons x rs)
  show ?case
  proof (cases x)
    case (Failed e)
    with Cons show ?thesis by auto
  next
    case (Moved n)
    let ?k = "min n (min (len - got) (length data - got))"
    from Moved Cons.prems have "got < len \<Longrightarrow> len - (got + ?k) \<le> moves rs" by auto
    with Moved Cons.prems
      Cons.IH [of "got + ?k" "take got buffer @ take ?k (drop got data) @ drop (got + ?k) buffer"]
    show ?thesis by (auto simp: Let_def)
  qed
qed auto

subsection \<open>The creator and the reader\<close>

lemma required_seals_of_creator:
  "(F_SEAL_SHRINK OR F_SEAL_GROW OR F_SEAL_WRITE) AND kRequiredSeals = kRequiredSeals"
  by (simp add: seal_flags kRequiredSeals_def)

lemma makeSealedMemfd_cases:
  assumes "makeSealedMemfd env label bs t = Some ((fd, err), t')"
  obtains (failed) e where "fd = - 1" "err = Some e" "\<forall>n. env_memfd_create env = Inr n \<longrightarrow> t' = t(n := None)"
      "\<forall>e'. env_memfd_create env = Inl e' \<longrightarrow> t' = t"
  | (created) n where "env_memfd_create env = Inr n" "fd = int n" "err = None"
      "t' = t(n \<mapsto> \<lparr>mf_name = label, mf_data = bs,
                    mf_seals = F_SEAL_SHRINK OR F_SEAL_GROW OR F_SEAL_WRITE\<rparr>)"
proof (cases "env_memfd_create env")
  case (Inl e)
  with assms show thesis by (intro failed [of e]) (auto simp: makeSealedMemfd_def)
next
  case (Inr n)
  show thesis
  proof (cases "write_loop (env_writes env) bs 0 []")
    case None
    with assms Inr show thesis by (simp add: makeSealedMemfd_def)
  next
    case (Some r)
    show thesis
    proof (cases r)
      case (Inl e)
      with assms Inr Some show thesis
        by (intro failed [of e]) (auto simp: makeSealedMemfd_def)
    next
      case (Inr w)
      with Some have "w = bs" using write_loop_content [of "env_writes env" bs 0 "[]" w] by simp
      note facts = assms \<open>env_memfd_create env = Inr n\<close> Some Inr this
      show thesis
      proof (cases "env_add_seals env")
        case None
        with facts show thesis by (intro created [of n]) (auto simp: makeSealedMemfd_def)
      next
        case (Some e)
        with facts show thesis by (intro failed [of e]) (auto simp: makeSealedMemfd_def)
      qed
    qed
  qed
qed

lemma makeSealedMemfd_returns:
  assumes "progressing (env_writes env)" and "length bs \<le> moves (env_writes env)"
  shows "makeSealedMemfd env label bs t \<noteq> None"
  using write_loop_enough [of "env_writes env" bs 0 "[]"] assms
  by (auto simp: makeSealedMemfd_def split: sum.splits option.splits)

lemma read_view_of_sealed:
  assumes lib: "reader_lib_ok L"
    and seals: "mf_seals f AND kRequiredSeals = kRequiredSeals"
    and cap: "length (mf_data f) \<le> kMaxSecretBytes L"
    and env: "env_resize_ok env" "progressing (env_preads env)" "length (mf_data f) \<le> moves (env_preads env)"
    and ctor: "secureString L (mf_data f) \<noteq> None"
  shows "\<exists>r. SecretMemfdReader_read L env (view_of f) = Some r \<and> rr_secret r = Some (mf_data f) \<and> rr_error r = []"
proof (cases "mf_data f = []")
  case True
  with seals show ?thesis by (simp add: SecretMemfdReader_read_def view_of_def)
next
  case False
  let ?d = "mf_data f"
  from pread_loop_enough [of "env_preads env" "length ?d" 0 ?d "replicate (length ?d) 0"] env
  obtain b where b: "pread_loop (env_preads env) ?d (length ?d) 0 (replicate (length ?d) 0) = Some (Inr b)"
    by auto
  then have "b = ?d" using pread_loop_content [OF b] by simp
  moreover obtain s r where sr: "secureString L ?d = Some (s, r)" using ctor by auto
  ultimately show ?thesis
    using False seals cap env(1) b lib
    by (auto simp: SecretMemfdReader_read_def view_of_def Let_def reader_lib_ok_def)
qed

subsection \<open>Properties\<close>

text \<open>
  C15: a secret sealed by the prompter is read back by the agent byte for byte, whatever
  short writes, short reads and interruptions the kernel answers with on the way, as long
  as the transfers keep making progress and the payload fits the agent's cap.
\<close>

theorem sealed_secret_roundtrip:
  assumes lib: "reader_lib_ok L"
    and fits: "length secret \<le> kMaxSecretBytes L"
    and creation: "env_memfd_create cenv = Inr fd" "env_add_seals cenv = None"
    and writes: "progressing (env_writes cenv)" "length secret \<le> moves (env_writes cenv)"
    and reads: "env_resize_ok renv" "progressing (env_preads renv)" "length secret \<le> moves (env_preads renv)"
    and ctor: "secureString L secret \<noteq> None"
  shows "\<exists>t' f r. makeSealedSecretFd cenv secret t = Some ((int fd, None), t') \<and> t' fd = Some f \<and>
           SecretMemfdReader_read L renv (view_of f) = Some r \<and> rr_secret r = Some secret"
proof -
  obtain w where "write_loop (env_writes cenv) secret 0 [] = Some (Inr w)"
    using write_loop_enough [of "env_writes cenv" secret 0 "[]"] writes by auto
  moreover from this have "w = secret" using write_loop_content by fastforce
  ultimately show ?thesis
    using creation read_view_of_sealed [OF lib, of
        "\<lparr>mf_name = ''librescrs-secret'', mf_data = secret,
          mf_seals = F_SEAL_SHRINK OR F_SEAL_GROW OR F_SEAL_WRITE\<rparr>" renv]
      required_seals_of_creator fits reads ctor
    by (auto simp: makeSealedSecretFd_def makeSealedMemfd_def)
qed

text \<open>A library that satisfies the reader's hypotheses, for the witnesses.\<close>

definition sample_reader_lib :: reader_lib where
  "sample_reader_lib = \<lparr>kMaxSecretBytes = 16, secureZero = (\<lambda>b. replicate (length b) 0),
     secureString = (\<lambda>b. Some (b, replicate (length b) 0)), strerror = (\<lambda>e. ''error'')\<rparr>"

lemma sample_reader_lib_ok: "reader_lib_ok sample_reader_lib"
  by (simp add: reader_lib_ok_def sample_reader_lib_def)

theorem sealed_secret_roundtrip_witness:
  "\<exists>t' f r. makeSealedSecretFd
       \<lparr>env_memfd_create = Inr 7, env_writes = [Moved 1, Failed EINTR, Moved 9, Moved 1], env_add_seals = None\<rparr>
       [49, 50, 51] Map.empty = Some ((7, None), t') \<and> t' 7 = Some f \<and>
     SecretMemfdReader_read sample_reader_lib
       \<lparr>env_resize_ok = True, env_preads = [Failed EINTR, Moved 2, Moved 5, Moved 1]\<rparr> (view_of f) = Some r \<and>
     rr_secret r = Some [49, 50, 51]"
  using sealed_secret_roundtrip [OF sample_reader_lib_ok, of "[49, 50, 51]"
      "\<lparr>env_memfd_create = Inr 7, env_writes = [Moved 1, Failed EINTR, Moved 9, Moved 1], env_add_seals = None\<rparr>" 7
      "\<lparr>env_resize_ok = True, env_preads = [Failed EINTR, Moved 2, Moved 5, Moved 1]\<rparr>" Map.empty]
  by (simp add: sample_reader_lib_def)

text \<open>
  Creating a sealed memfd either hands out a descriptor holding exactly the given
  bytes under the three seals, or answers -1 with an error number and leaves no descriptor
  open that was not open before.
\<close>

theorem makeSealedMemfd_all_or_nothing:
  assumes "makeSealedMemfd env label bs t = Some ((fd, err), t')"
    and "\<forall>n. env_memfd_create env = Inr n \<longrightarrow> t n = None"
  shows "(fd = - 1 \<and> err \<noteq> None \<and> t' = t) \<or>
         (\<exists>n. fd = int n \<and> err = None \<and> t n = None \<and>
           t' = t(n \<mapsto> \<lparr>mf_name = label, mf_data = bs,
                        mf_seals = F_SEAL_SHRINK OR F_SEAL_GROW OR F_SEAL_WRITE\<rparr>))"
  using assms(1)
proof (cases rule: makeSealedMemfd_cases)
  case (failed e)
  with assms(2) have "t' = t"
    by (cases "env_memfd_create env") (auto simp: fun_upd_idem)
  with failed show ?thesis by simp
next
  case (created n)
  with assms(2) show ?thesis by auto
qed

theorem makeSealedMemfd_all_or_nothing_witness:
  "makeSealedMemfd \<lparr>env_memfd_create = Inr 3, env_writes = [Moved 1, Failed 28], env_add_seals = None\<rparr>
      ''x'' [1, 2] Map.empty = Some ((- 1, Some 28), Map.empty)"
proof -
  have run: "makeSealedMemfd \<lparr>env_memfd_create = Inr 3, env_writes = [Moved 1, Failed 28], env_add_seals = None\<rparr>
      ''x'' [1, 2] Map.empty = Some ((- 1, Some 28), Map.empty(3 := None))"
    by (simp add: makeSealedMemfd_def EINTR_def)
  from makeSealedMemfd_all_or_nothing [OF run] show ?thesis using run by simp
qed

text \<open>
  The reader never hands out bytes of a descriptor that is not a fully sealed memfd,
  that is larger than the cap, or whose payload it could not read in full.
\<close>

theorem read_only_sealed:
  assumes "SecretMemfdReader_read L env fd = Some r" and "rr_secret r = Some secret"
    and "reader_lib_ok L"
  shows "fv_valid fd \<and>
     (\<exists>s. fv_seals fd = Inr s \<and> s AND kRequiredSeals = kRequiredSeals) \<and>
     fv_size fd = Inr (int (length secret)) \<and> length secret \<le> kMaxSecretBytes L"
proof -
  from assms(1,2) obtain sz where sz: "fv_size fd = Inr sz" "0 \<le> sz" "nat sz \<le> kMaxSecretBytes L"
    and v: "fv_valid fd" and s: "\<exists>s. fv_seals fd = Inr s \<and> s AND kRequiredSeals = kRequiredSeals"
    by (auto simp: SecretMemfdReader_read_def read_fail_def Let_def split: if_splits sum.splits)
  show ?thesis
  proof (cases "nat sz = 0")
    case True
    with assms(1,2) sz v s show ?thesis
      by (auto simp: SecretMemfdReader_read_def read_fail_def Let_def)
  next
    case False
    with assms(1,2) sz v s obtain b rest where
      loop: "pread_loop (env_preads env) (fv_data fd) (nat sz) 0 (replicate (nat sz) 0) = Some (Inr b)"
      and "secureString L b = Some (secret, rest)"
      by (auto simp: SecretMemfdReader_read_def read_fail_def Let_def
            split: if_splits option.splits sum.splits)
    then have "secret = b" using assms(3) by (simp add: reader_lib_ok_def)
    moreover have "length b = nat sz" using pread_loop_length [OF loop] by simp
    ultimately show ?thesis using sz v s by simp
  qed
qed

definition sample_sealed_view :: fd_view where
  "sample_sealed_view = \<lparr>fv_valid = True, fv_seals = Inr 14, fv_size = Inr 2, fv_data = [49, 50]\<rparr>"

lemma sample_read:
  "SecretMemfdReader_read sample_reader_lib \<lparr>env_resize_ok = True, env_preads = [Moved 1, Moved 1]\<rparr>
      sample_sealed_view = Some \<lparr>rr_secret = Some [49, 50], rr_error = [], rr_residue = [0, 0]\<rparr>"
  by (simp add: SecretMemfdReader_read_def sample_reader_lib_def sample_sealed_view_def
        kRequiredSeals_def seal_flags Let_def numeral_2_eq_2)

theorem read_only_sealed_witness:
  "fv_size sample_sealed_view = Inr (int (length [49, 50 :: u8])) \<and>
     length [49, 50 :: u8] \<le> kMaxSecretBytes sample_reader_lib"
  using read_only_sealed [OF sample_read _ sample_reader_lib_ok, of "[49, 50]"] by simp

text \<open>
  No byte of a secret stays in the reader's own buffer: on every path, success and
  failure alike, what the buffer holds when it is freed is zeros.
\<close>

theorem read_leaves_no_residue:
  assumes "reader_lib_ok L" and "SecretMemfdReader_read L env fd = Some r"
  shows "rr_residue r = replicate (length (rr_residue r)) 0"
proof -
  have zero: "secureZero L b = replicate (length b) 0" for b
    using assms(1) by (simp add: reader_lib_ok_def)
  have taken: "x = replicate (length x) 0" if "secureString L b = Some (s, x)" for b s x
  proof -
    from that assms(1) have "x = replicate (length b) 0" by (simp add: reader_lib_ok_def)
    then show ?thesis by simp
  qed
  from assms(2) show ?thesis
    by (auto simp: SecretMemfdReader_read_def read_fail_def Let_def zero
          split: if_splits option.splits sum.splits dest!: taken)
qed

theorem read_leaves_no_residue_witness:
  "SecretMemfdReader_read sample_reader_lib \<lparr>env_resize_ok = True, env_preads = [Moved 1, Moved 1]\<rparr>
      (sample_sealed_view\<lparr>fv_data := [49]\<rparr>) = Some (read_fail ''short read from secret memfd'' [0, 0]) \<and>
   rr_residue (read_fail ''short read from secret memfd'' [0, 0]) =
     replicate (length (rr_residue (read_fail ''short read from secret memfd'' [0, 0]))) 0"
proof -
  have run: "SecretMemfdReader_read sample_reader_lib \<lparr>env_resize_ok = True, env_preads = [Moved 1, Moved 1]\<rparr>
      (sample_sealed_view\<lparr>fv_data := [49]\<rparr>) = Some (read_fail ''short read from secret memfd'' [0, 0])"
    by (simp add: SecretMemfdReader_read_def sample_reader_lib_def sample_sealed_view_def
        kRequiredSeals_def seal_flags Let_def numeral_2_eq_2)
  show ?thesis using run read_leaves_no_residue [OF sample_reader_lib_ok run] by (rule conjI)
qed

end
