(* ===== verification/Input_Widgets.thy ===== *)
theory Input_Widgets
  imports Sealed_Memfd
begin

text \<open>
  The credential entry widgets of the prompter: \<^verbatim>\<open>PinInputWidget\<close>, \<^verbatim>\<open>CanInputWidget\<close>,
  \<^verbatim>\<open>MrzInputWidget\<close> and \<^verbatim>\<open>ChangePinInputWidget\<close> (\<^verbatim>\<open>prompter/src\<close>), each with its
  fields, its validity and its capture into a sealed descriptor. Qt is a parameter: its
  character tables, its regular expressions, its UTF-8 encoder and its date format are the
  fields of \<open>qt_lib\<close>, and \<open>qt_ok\<close> states what its documentation promises of them on the
  ASCII range. A QString is a list of UTF-16 code units, a QDate its Julian day.
\<close>

type_synonym qchar = "16 word"
type_synonym qstring = "qchar list"
type_synonym date = int

definition qs :: "string \<Rightarrow> qstring" where
  "qs s = map of_char s"

record qt_lib =
  qc_isDigit :: "qchar \<Rightarrow> bool"
  qc_digitValue :: "qchar \<Rightarrow> int"
  qc_isLetter :: "qchar \<Rightarrow> bool"
  qc_toUpper :: "qchar \<Rightarrow> qchar"
  qc_toLatin1 :: "qchar \<Rightarrow> u8"
  qs_toUpper :: "qstring \<Rightarrow> qstring"
  qs_toUtf8 :: "qstring \<Rightarrow> bytes"
  rx_acceptable :: "string \<Rightarrow> qstring \<Rightarrow> bool"
  rx_hasMatch :: "string \<Rightarrow> qstring \<Rightarrow> bool"
  date_yyMMdd :: "date \<Rightarrow> qstring"

definition ascii_digit :: "qchar \<Rightarrow> bool" where
  "ascii_digit c \<longleftrightarrow> 48 \<le> c \<and> c \<le> 57"

definition ascii_upper :: "qchar \<Rightarrow> bool" where
  "ascii_upper c \<longleftrightarrow> 65 \<le> c \<and> c \<le> 90"

definition ascii_lower :: "qchar \<Rightarrow> bool" where
  "ascii_lower c \<longleftrightarrow> 97 \<le> c \<and> c \<le> 122"

definition ascii_alnum :: "qchar \<Rightarrow> bool" where
  "ascii_alnum c \<longleftrightarrow> ascii_digit c \<or> ascii_upper c \<or> ascii_lower c"

definition to_upper :: "qchar \<Rightarrow> qchar" where
  "to_upper c = (if ascii_lower c then c - 32 else c)"

subsection \<open>Line edits\<close>

record line_edit =
  le_text :: qstring
  le_maxLength :: int
  le_pattern :: string

definition setText :: "qstring \<Rightarrow> line_edit \<Rightarrow> line_edit" where
  "setText s e = e\<lparr>le_text := take (nat (le_maxLength e)) s\<rparr>"

definition clearText :: "line_edit \<Rightarrow> line_edit" where
  "clearText e = e\<lparr>le_text := []\<rparr>"

definition hasAcceptableInput :: "qt_lib \<Rightarrow> line_edit \<Rightarrow> bool" where
  "hasAcceptableInput L e = rx_acceptable L (le_pattern e) (le_text e)"

definition pin_pattern :: "int \<Rightarrow> int \<Rightarrow> string" where
  "pin_pattern minLen maxLen = ''^[0-9]{'' @ show_int minLen @ '','' @ show_int maxLen @ ''}$''"

text \<open>The line edit of \<^verbatim>\<open>PinInputWidget\<close>'s constructor and of \<^verbatim>\<open>makePinEdit\<close>.\<close>

definition makePinEdit :: "int \<Rightarrow> int \<Rightarrow> line_edit" where
  "makePinEdit minLen maxLen = \<lparr>le_text = [], le_maxLength = maxLen, le_pattern = pin_pattern minLen maxLen\<rparr>"

definition scrubEdit :: "line_edit \<Rightarrow> line_edit" where
  "scrubEdit e =
     (let len = length (le_text e) in
      clearText (if len > 0 then setText (replicate len 48) e else e))"

text \<open>
  A capture: the descriptor, and what the function's own staging buffers hold when it
  returns.
\<close>

record capture =
  cap_fd :: int
  cap_staging :: "qstring list"
  cap_utf8 :: bytes

definition seal_staged ::
  "create_env \<Rightarrow> fdtable \<Rightarrow> qstring list \<Rightarrow> bytes \<Rightarrow> 'w \<Rightarrow> (capture \<times> 'w \<times> fdtable) option" where
  "seal_staged env t staging utf8 w =
     (case makeSealedSecretFd env utf8 t of
        None \<Rightarrow> None
      | Some ((fd, err), t') \<Rightarrow>
          Some (\<lparr>cap_fd = fd, cap_staging = map (\<lambda>s. replicate (length s) 0) staging,
                 cap_utf8 = replicate (length utf8) 0\<rparr>, w, t'))"

subsection \<open>PinInputWidget and CanInputWidget\<close>

definition PinInputWidget :: "int \<Rightarrow> int \<Rightarrow> line_edit" where
  "PinInputWidget minLen maxLen = makePinEdit minLen maxLen"

definition pin_captureSecretFd ::
  "qt_lib \<Rightarrow> create_env \<Rightarrow> line_edit \<Rightarrow> fdtable \<Rightarrow> (capture \<times> line_edit \<times> fdtable) option" where
  "pin_captureSecretFd L env m_edit t = seal_staged env t [] (qs_toUtf8 L (le_text m_edit)) (scrubEdit m_edit)"

definition pin_isValid :: "qt_lib \<Rightarrow> line_edit \<Rightarrow> bool" where
  "pin_isValid L m_edit = hasAcceptableInput L m_edit"

definition kCanLen :: int where "kCanLen = 6"

definition CanInputWidget :: line_edit where
  "CanInputWidget = \<lparr>le_text = [], le_maxLength = kCanLen, le_pattern = ''^[0-9]{6}$''\<rparr>"

definition can_captureSecretFd ::
  "qt_lib \<Rightarrow> create_env \<Rightarrow> line_edit \<Rightarrow> fdtable \<Rightarrow> (capture \<times> line_edit \<times> fdtable) option" where
  "can_captureSecretFd L env m_edit t =
     seal_staged env t [le_text m_edit] (qs_toUtf8 L (le_text m_edit)) (clearText m_edit)"

definition can_isValid :: "qt_lib \<Rightarrow> line_edit \<Rightarrow> bool" where
  "can_isValid L m_edit = hasAcceptableInput L m_edit"

subsection \<open>MrzInputWidget\<close>

definition kWeights :: "int list" where "kWeights = [7, 3, 1]"
definition kDocumentNumberWidth :: nat where "kDocumentNumberWidth = 9"

text \<open>The Julian day of 1 January 1900.\<close>

definition kSentinelDate :: date where "kSentinelDate = 2415021"

text \<open>\<^verbatim>\<open>toLatin1()\<close> is a \<^verbatim>\<open>char\<close>, signed on the targets this is built for.\<close>

definition charValue :: "qt_lib \<Rightarrow> qchar \<Rightarrow> int" where
  "charValue L c =
     (if qc_isDigit L c then qc_digitValue L c
      else if c = 60 then 0
      else if qc_isLetter L c then sint (qc_toLatin1 L (qc_toUpper L c)) - 65 + 10
      else - 1)"

primrec check_sum :: "qt_lib \<Rightarrow> nat \<Rightarrow> int \<Rightarrow> qstring \<Rightarrow> int option" where
  "check_sum L i acc [] = Some acc"
| "check_sum L i acc (c # cs) =
     (let v = charValue L c in
      if v < 0 then None else check_sum L (Suc i) (acc + v * kWeights ! (i mod 3)) cs)"

text \<open>\<^const>\<open>None\<close> is the null QChar.\<close>

definition computeCheckDigit :: "qt_lib \<Rightarrow> qstring \<Rightarrow> qchar option" where
  "computeCheckDigit L fieldValue =
     (case check_sum L 0 0 fieldValue of
        None \<Rightarrow> None
      | Some n \<Rightarrow> Some (of_int (48 + n mod 10)))"

definition checkDigitOk :: "qt_lib \<Rightarrow> qstring \<Rightarrow> qchar \<Rightarrow> bool" where
  "checkDigitOk L fieldValue checkChar =
     (if \<not> qc_isDigit L checkChar then False
      else computeCheckDigit L fieldValue = Some checkChar)"

record mrz_widget =
  m_documentNumber :: line_edit
  m_dateOfBirth :: date
  m_dateOfExpiry :: date

definition document_pattern :: string where
  "document_pattern = ''^[A-Za-z0-9]{1,9}$''"

definition MrzInputWidget :: mrz_widget where
  "MrzInputWidget =
     \<lparr>m_documentNumber = \<lparr>le_text = [], le_maxLength = int kDocumentNumberWidth, le_pattern = document_pattern\<rparr>,
      m_dateOfBirth = kSentinelDate, m_dateOfExpiry = kSentinelDate\<rparr>"

text \<open>
  The \<^verbatim>\<open>textChanged\<close> handler of the document number: it either replaces the text by its
  upper-case form (and the signal fires again) or announces the change.
\<close>

definition onDocumentText :: "qt_lib \<Rightarrow> mrz_widget \<Rightarrow> mrz_widget \<times> bool" where
  "onDocumentText L w =
     (let text = le_text (m_documentNumber w); upper = qs_toUpper L text in
      if upper \<noteq> text then (w\<lparr>m_documentNumber := setText upper (m_documentNumber w)\<rparr>, False)
      else (w, True))"

definition leftJustified :: "nat \<Rightarrow> qchar \<Rightarrow> qstring \<Rightarrow> qstring" where
  "leftJustified n c s = s @ replicate (n - length s) c"

text \<open>Appending a null QChar appends the code unit 0.\<close>

definition with_check :: "qt_lib \<Rightarrow> qstring \<Rightarrow> qstring" where
  "with_check L f = f @ [case computeCheckDigit L f of None \<Rightarrow> 0 | Some c \<Rightarrow> c]"

definition mrz_scrub :: "mrz_widget \<Rightarrow> mrz_widget" where
  "mrz_scrub w = w\<lparr>m_documentNumber := clearText (m_documentNumber w),
                   m_dateOfBirth := kSentinelDate, m_dateOfExpiry := kSentinelDate\<rparr>"

definition mrz_captureSecretFd ::
  "qt_lib \<Rightarrow> create_env \<Rightarrow> mrz_widget \<Rightarrow> fdtable \<Rightarrow> (capture \<times> mrz_widget \<times> fdtable) option" where
  "mrz_captureSecretFd L env w t =
     (let doc = leftJustified kDocumentNumberWidth 60 (qs_toUpper L (le_text (m_documentNumber w)));
          dob = date_yyMMdd L (m_dateOfBirth w);
          expiry = date_yyMMdd L (m_dateOfExpiry w);
          joined = with_check L doc @ [10] @ with_check L dob @ [10] @ with_check L expiry
      in seal_staged env t [doc, dob, expiry, joined] (qs_toUtf8 L joined) (mrz_scrub w))"

definition mrz_isValid :: "qt_lib \<Rightarrow> date \<Rightarrow> mrz_widget \<Rightarrow> bool" where
  "mrz_isValid L today w =
     (if le_text (m_documentNumber w) = [] \<or> \<not> hasAcceptableInput L (m_documentNumber w) then False
      else m_dateOfBirth w \<noteq> kSentinelDate \<and> m_dateOfBirth w \<le> today \<and> m_dateOfExpiry w \<noteq> kSentinelDate)"

subsection \<open>ChangePinInputWidget\<close>

record change_pin_widget =
  m_currentEdit :: line_edit
  m_newEdit :: line_edit
  m_confirmEdit :: line_edit
  m_mismatchShown :: bool
  cp_role :: qstring

definition change_pin_role :: "qt_lib \<Rightarrow> (string \<Rightarrow> qstring) \<Rightarrow> qstring \<Rightarrow> qstring" where
  "change_pin_role L i18n pinLabel =
     (let machineLabel = rx_hasMatch L ''^pin_[0-9]+$'' pinLabel in
      if pinLabel = [] \<or> machineLabel then i18n ''PIN'' else pinLabel)"

definition ChangePinInputWidget ::
  "qt_lib \<Rightarrow> (string \<Rightarrow> qstring) \<Rightarrow> int \<Rightarrow> int \<Rightarrow> int \<Rightarrow> int \<Rightarrow> qstring \<Rightarrow> change_pin_widget" where
  "ChangePinInputWidget L i18n currentMin currentMax newMin newMax pinLabel =
     \<lparr>m_currentEdit = makePinEdit currentMin currentMax,
      m_newEdit = makePinEdit newMin newMax,
      m_confirmEdit = makePinEdit newMin newMax,
      m_mismatchShown = False,
      cp_role = change_pin_role L i18n pinLabel\<rparr>"

text \<open>
  Editing a field: the new and the confirm field are connected to \<^verbatim>\<open>clearConfirmMismatch\<close>,
  the signal fires when the text really changes.
\<close>

definition clearConfirmMismatch :: "change_pin_widget \<Rightarrow> change_pin_widget" where
  "clearConfirmMismatch w = w\<lparr>m_mismatchShown := False\<rparr>"

definition edit_new :: "(line_edit \<Rightarrow> line_edit) \<Rightarrow> change_pin_widget \<Rightarrow> change_pin_widget" where
  "edit_new f w =
     (let e = f (m_newEdit w); w' = w\<lparr>m_newEdit := e\<rparr> in
      if le_text e \<noteq> le_text (m_newEdit w) then clearConfirmMismatch w' else w')"

definition edit_confirm :: "(line_edit \<Rightarrow> line_edit) \<Rightarrow> change_pin_widget \<Rightarrow> change_pin_widget" where
  "edit_confirm f w =
     (let e = f (m_confirmEdit w); w' = w\<lparr>m_confirmEdit := e\<rparr> in
      if le_text e \<noteq> le_text (m_confirmEdit w) then clearConfirmMismatch w' else w')"

definition cp_captureSecretFd ::
  "qt_lib \<Rightarrow> create_env \<Rightarrow> change_pin_widget \<Rightarrow> fdtable \<Rightarrow> (capture \<times> change_pin_widget \<times> fdtable) option" where
  "cp_captureSecretFd L env w t =
     seal_staged env t [] (qs_toUtf8 L (le_text (m_currentEdit w)))
       (w\<lparr>m_currentEdit := scrubEdit (m_currentEdit w)\<rparr>)"

definition captureNewSecretFd ::
  "qt_lib \<Rightarrow> create_env \<Rightarrow> change_pin_widget \<Rightarrow> fdtable \<Rightarrow> (capture \<times> change_pin_widget \<times> fdtable) option" where
  "captureNewSecretFd L env w t =
     seal_staged env t [] (qs_toUtf8 L (le_text (m_newEdit w)))
       (edit_confirm scrubEdit (edit_new scrubEdit w))"

definition cp_isValid :: "qt_lib \<Rightarrow> change_pin_widget \<Rightarrow> bool" where
  "cp_isValid L w \<longleftrightarrow>
     hasAcceptableInput L (m_currentEdit w) \<and> hasAcceptableInput L (m_newEdit w) \<and>
     hasAcceptableInput L (m_confirmEdit w)"

definition confirmMatchesNew :: "change_pin_widget \<Rightarrow> bool" where
  "confirmMatchesNew w \<longleftrightarrow> le_text (m_newEdit w) = le_text (m_confirmEdit w)"

definition showConfirmMismatch :: "change_pin_widget \<Rightarrow> change_pin_widget" where
  "showConfirmMismatch w = w\<lparr>m_mismatchShown := True\<rparr>"

definition change_pin_scrub :: "change_pin_widget \<Rightarrow> change_pin_widget" where
  "change_pin_scrub w =
     edit_confirm scrubEdit (edit_new scrubEdit (w\<lparr>m_currentEdit := scrubEdit (m_currentEdit w)\<rparr>))"

subsection \<open>What Qt documents\<close>

definition qt_ok :: "qt_lib \<Rightarrow> bool" where
  "qt_ok L \<longleftrightarrow>
     (\<forall>c < 128. qc_isDigit L c = ascii_digit c \<and>
        (ascii_digit c \<longrightarrow> qc_digitValue L c = uint c - 48) \<and>
        qc_isLetter L c = (ascii_upper c \<or> ascii_lower c) \<and>
        qc_toUpper L c = to_upper c \<and> qc_toLatin1 L c = ucast c) \<and>
     (\<forall>s. list_all (\<lambda>c. c < 128) s \<longrightarrow> qs_toUpper L s = map to_upper s \<and> qs_toUtf8 L s = map ucast s) \<and>
     (\<forall>a b s. 0 \<le> a \<and> a \<le> b \<and> b \<le> 65535 \<longrightarrow>
        rx_acceptable L (pin_pattern a b) s =
          (a \<le> int (length s) \<and> int (length s) \<le> b \<and> list_all ascii_digit s)) \<and>
     (\<forall>s. rx_acceptable L ''^[0-9]{6}$'' s = (length s = 6 \<and> list_all ascii_digit s)) \<and>
     (\<forall>s. rx_acceptable L document_pattern s = (1 \<le> length s \<and> length s \<le> 9 \<and> list_all ascii_alnum s)) \<and>
     (\<forall>d. kSentinelDate \<le> d \<and> d \<le> 5373484 \<longrightarrow> length (date_yyMMdd L d) = 6 \<and> list_all ascii_digit (date_yyMMdd L d))"

subsection \<open>Captures\<close>

text \<open>
  Every capture seals exactly the encoded text, clears the widget and leaves only zeros in
  its staging buffers, whether or not the descriptor could be made.
\<close>

lemma seal_staged_cases:
  assumes "seal_staged env t staging utf8 w = Some (c, w', t')"
  obtains (failed) "cap_fd c = - 1" "w' = w"
  | (created) n where "env_memfd_create env = Inr n" "cap_fd c = int n" "w' = w"
      "t' = t(n \<mapsto> \<lparr>mf_name = ''librescrs-secret'', mf_data = utf8,
                    mf_seals = F_SEAL_SHRINK OR F_SEAL_GROW OR F_SEAL_WRITE\<rparr>)"
proof -
  obtain fd err where mk: "makeSealedMemfd env ''librescrs-secret'' utf8 t = Some ((fd, err), t')"
    and c: "cap_fd c = fd" "w' = w"
    using assms by (auto simp: seal_staged_def makeSealedSecretFd_def split: option.splits prod.splits)
  from mk show thesis
    by (cases rule: makeSealedMemfd_cases) (use c failed created in auto)
qed

lemma seal_staged_zero:
  assumes "seal_staged env t staging utf8 w = Some (c, w', t')"
  shows "list_all (list_all (\<lambda>x. x = 0)) (cap_staging c) \<and> list_all (\<lambda>x. x = 0) (cap_utf8 c)"
  using assms by (auto simp: seal_staged_def list_all_iff split: option.splits prod.splits)

lemma le_text_clearText [simp]: "le_text (clearText e) = []"
  by (simp add: clearText_def)

lemma le_text_scrubEdit [simp]: "le_text (scrubEdit e) = []"
  by (simp add: scrubEdit_def Let_def)

lemma scrubEdit_bounds [simp]:
  "le_maxLength (scrubEdit e) = le_maxLength e" "le_pattern (scrubEdit e) = le_pattern e"
  by (simp_all add: scrubEdit_def Let_def clearText_def setText_def)

lemma change_pin_scrub_empty [simp]:
  "le_text (m_currentEdit (change_pin_scrub w)) = []"
  "le_text (m_newEdit (change_pin_scrub w)) = []"
  "le_text (m_confirmEdit (change_pin_scrub w)) = []"
  by (simp_all add: change_pin_scrub_def edit_new_def edit_confirm_def clearConfirmMismatch_def Let_def)

lemma captureNew_scrubs:
  assumes "captureNewSecretFd L env w t = Some (c, w', t')"
  shows "le_text (m_newEdit w') = [] \<and> le_text (m_confirmEdit w') = [] \<and> m_currentEdit w' = m_currentEdit w"
  using assms unfolding captureNewSecretFd_def
  by (cases rule: seal_staged_cases)
     (auto simp: edit_new_def edit_confirm_def clearConfirmMismatch_def Let_def)

text \<open>The mismatch note never outlives the entry it complained about.\<close>

lemma edit_clears_mismatch:
  "le_text (f (m_newEdit w)) \<noteq> le_text (m_newEdit w) \<Longrightarrow> \<not> m_mismatchShown (edit_new f w)"
  "le_text (f (m_confirmEdit w)) \<noteq> le_text (m_confirmEdit w) \<Longrightarrow> \<not> m_mismatchShown (edit_confirm f w)"
  by (simp_all add: edit_new_def edit_confirm_def clearConfirmMismatch_def Let_def)

subsection \<open>The check digit\<close>

definition mrz_char :: "qchar \<Rightarrow> bool" where
  "mrz_char c \<longleftrightarrow> ascii_digit c \<or> ascii_upper c \<or> c = 60"

lemmas ascii_defs = ascii_digit_def ascii_upper_def ascii_lower_def

lemma qt_char:
  assumes "qt_ok L" "c < 128"
  shows "qc_isDigit L c = ascii_digit c" "ascii_digit c \<Longrightarrow> qc_digitValue L c = uint c - 48"
    "qc_isLetter L c = (ascii_upper c \<or> ascii_lower c)" "qc_toUpper L c = to_upper c"
    "qc_toLatin1 L c = ucast c"
  using assms by (auto simp: qt_ok_def)

lemma mrz_char_lt: "mrz_char c \<Longrightarrow> c < 128"
  unfolding mrz_char_def ascii_defs by unat_arith

lemma sint_ucast_ascii: "c < 128 \<Longrightarrow> sint (ucast (c :: qchar) :: u8) = uint c"
proof -
  assume "c < 128"
  then have "uint c < 128" by (simp add: word_less_def)
  then have "uint (ucast c :: u8) = uint c"
    by (simp add: unsigned_ucast_eq take_bit_int_eq_self)
  with \<open>uint c < 128\<close> show ?thesis
    using signed_take_bit_int_eq_self [of 7 "uint c"] uint_ge_0 [of c]
    by (simp add: sint_uint del: uint_ge_0)
qed

lemma charValue_mrz:
  assumes "qt_ok L" "mrz_char c"
  shows "charValue L c = (if ascii_digit c then uint c - 48 else if c = 60 then 0 else uint c - 55)"
    and "0 \<le> charValue L c" "charValue L c \<le> 35"
proof -
  have lt: "c < 128" using assms(2) by (rule mrz_char_lt)
  have up: "to_upper c = c" if "ascii_upper c"
    using that unfolding to_upper_def ascii_defs by (auto simp: word_le_nat_alt)
  show eq: "charValue L c = (if ascii_digit c then uint c - 48 else if c = 60 then 0 else uint c - 55)"
    using assms lt up by (auto simp: charValue_def qt_char mrz_char_def sint_ucast_ascii)
  show "0 \<le> charValue L c" "charValue L c \<le> 35"
    using assms(2) unfolding eq mrz_char_def ascii_defs by (auto simp: word_le_def)
qed

text \<open>The value the loop accumulates: the weighted sum of the characters.\<close>

definition weighted :: "qt_lib \<Rightarrow> nat \<Rightarrow> qstring \<Rightarrow> int" where
  "weighted L i cs = (\<Sum>j < length cs. charValue L (cs ! j) * kWeights ! ((i + j) mod 3))"

lemma weighted_simps [simp]:
  "weighted L i [] = 0"
  "weighted L i (c # cs) = charValue L c * kWeights ! (i mod 3) + weighted L (Suc i) cs"
  by (simp_all add: weighted_def sum.lessThan_Suc_shift del: sum.lessThan_Suc)

lemma check_sum_weighted:
  "qt_ok L \<Longrightarrow> list_all mrz_char cs \<Longrightarrow> check_sum L i a cs = Some (a + weighted L i cs)"
  by (induction cs arbitrary: i a) (auto simp: Let_def dest: charValue_mrz(2))

lemma kWeights_range: "kWeights ! (i mod 3) \<in> {7, 3, 1}"
proof -
  have "i mod 3 = 0 \<or> i mod 3 = 1 \<or> i mod 3 = 2" by linarith
  then show ?thesis by (auto simp: kWeights_def)
qed

lemma weighted_bound: "qt_ok L \<Longrightarrow> list_all mrz_char cs \<Longrightarrow> 0 \<le> weighted L i cs \<and> weighted L i cs \<le> 245 * int (length cs)"
proof (induction cs arbitrary: i)
  case (Cons c cs)
  then have "0 \<le> charValue L c * kWeights ! (i mod 3) \<and> charValue L c * kWeights ! (i mod 3) \<le> 245"
    using charValue_mrz(2,3) [of L c] kWeights_range [of i] by auto
  with Cons.IH [of "Suc i"] Cons.prems show ?case by simp
qed simp

lemma weighted_append: "weighted L i (xs @ ys) = weighted L i xs + weighted L (i + length xs) ys"
  by (induction xs arbitrary: i) simp_all

lemma computeCheckDigit_mrz:
  "qt_ok L \<Longrightarrow> list_all mrz_char f \<Longrightarrow>
     computeCheckDigit L f = Some (of_int (48 + weighted L 0 f mod 10))"
  by (simp add: computeCheckDigit_def check_sum_weighted)

lemma digit_code: "0 \<le> d \<Longrightarrow> d < 10 \<Longrightarrow> ascii_digit (of_int (48 + d)) \<and> uint (of_int (48 + d) :: qchar) = 48 + d"
proof -
  assume "0 \<le> d" "d < 10"
  then have u: "uint (of_int (48 + d) :: qchar) = 48 + d"
    using take_bit_int_eq_self [of "48 + d" 16] by (simp add: uint_word_of_int_eq del: of_int_add)
  with \<open>0 \<le> d\<close> \<open>d < 10\<close> show ?thesis by (simp add: ascii_digit_def word_le_def)
qed

lemma checkDigitOk_computed:
  assumes "qt_ok L" "list_all mrz_char f"
  shows "\<exists>c. computeCheckDigit L f = Some c \<and> ascii_digit c \<and> checkDigitOk L f c"
proof -
  let ?c = "of_int (48 + weighted L 0 f mod 10) :: qchar"
  have d: "ascii_digit ?c" using digit_code [of "weighted L 0 f mod 10"] by simp
  then have "qc_isDigit L ?c" using assms(1) qt_char(1) [OF assms(1), of ?c] mrz_char_lt by (simp add: mrz_char_def)
  with d computeCheckDigit_mrz [OF assms] show ?thesis by (simp add: checkDigitOk_def)
qed

lemma weight_cancel: "w \<in> {7, 3, 1 :: int} \<Longrightarrow> (10 dvd x * w) = (10 dvd x)"
  by auto presburger+

text \<open>
  the check digit catches every single-character error whose value differs modulo ten:
  replacing one character of an MRZ field by another leaves the check digit unchanged
  exactly when the two characters have the same ICAO 9303 value modulo 10. No character
  outside the alphabet gets a check digit at all.
\<close>

theorem check_digit_detects_substitution:
  assumes "qt_ok L" "list_all mrz_char (xs @ c # ys)" "mrz_char c'"
  shows "computeCheckDigit L (xs @ c' # ys) = computeCheckDigit L (xs @ c # ys) \<longleftrightarrow>
    charValue L c' mod 10 = charValue L c mod 10"
proof -
  let ?w = "kWeights ! (length xs mod 3)"
  let ?s = "weighted L 0 (xs @ c # ys)" and ?s' = "weighted L 0 (xs @ c' # ys)"
  have diff: "?s' - ?s = (charValue L c' - charValue L c) * ?w"
    by (simp add: weighted_append algebra_simps)
  have "computeCheckDigit L (xs @ c' # ys) = computeCheckDigit L (xs @ c # ys) \<longleftrightarrow> ?s' mod 10 = ?s mod 10"
    using assms digit_code [of "?s mod 10"] digit_code [of "?s' mod 10"]
    by (auto simp: computeCheckDigit_mrz)
  also have "\<dots> \<longleftrightarrow> 10 dvd ?s' - ?s" by (simp add: mod_eq_dvd_iff)
  also have "\<dots> \<longleftrightarrow> 10 dvd charValue L c' - charValue L c"
    unfolding diff by (rule weight_cancel [OF kWeights_range])
  finally show ?thesis by (simp add: mod_eq_dvd_iff)
qed

subsection \<open>A Qt to evaluate with\<close>

definition sample_rx :: "string \<Rightarrow> qstring \<Rightarrow> bool" where
  "sample_rx p s =
     (if take 3 p = ''^[A'' then 1 \<le> length s \<and> length s \<le> 9 \<and> list_all ascii_alnum s
      else let rest = dropWhile is_digit (drop 7 p) in
        list_all ascii_digit s \<and>
        (if take 1 rest = '','' then
           digits_value (takeWhile is_digit (drop 7 p)) \<le> length s \<and>
           length s \<le> digits_value (takeWhile is_digit (drop 1 rest))
         else length s = 6))"

definition sample_qt :: qt_lib where
  "sample_qt =
     \<lparr>qc_isDigit = ascii_digit, qc_digitValue = (\<lambda>c. uint c - 48),
      qc_isLetter = (\<lambda>c. ascii_upper c \<or> ascii_lower c), qc_toUpper = to_upper, qc_toLatin1 = ucast,
      qs_toUpper = map to_upper, qs_toUtf8 = map ucast, rx_acceptable = sample_rx,
      rx_hasMatch = (\<lambda>_ _. False), date_yyMMdd = (\<lambda>d. qs ''740812'')\<rparr>"

lemma span_show_nat:
  "takeWhile is_digit (show_nat n @ c # r) = (if is_digit c then show_nat n @ c # takeWhile is_digit r else show_nat n)"
  "dropWhile is_digit (show_nat n @ c # r) = (if is_digit c then dropWhile is_digit r else c # r)"
  using show_nat_digits [of n]
  by (simp_all add: takeWhile_append2 dropWhile_append2 list_all_iff)

lemma sample_rx_pin:
  assumes "0 \<le> a" "0 \<le> b"
  shows "sample_rx (pin_pattern a b) s \<longleftrightarrow> a \<le> int (length s) \<and> int (length s) \<le> b \<and> list_all ascii_digit s"
proof -
  have "\<not> is_digit (CHR '','')" "\<not> is_digit (CHR ''}'')" by (simp_all add: is_digit_def)
  with assms show ?thesis
    by (auto simp: sample_rx_def pin_pattern_def show_int_def span_show_nat)
qed

lemma sample_qt_ok: "qt_ok sample_qt"
  unfolding qt_ok_def
proof (intro conjI)
  show "\<forall>a b s. 0 \<le> a \<and> a \<le> b \<and> b \<le> 65535 \<longrightarrow> rx_acceptable sample_qt (pin_pattern a b) s =
    (a \<le> int (length s) \<and> int (length s) \<le> b \<and> list_all ascii_digit s)"
    by (simp add: sample_qt_def sample_rx_pin)
  show "\<forall>s. rx_acceptable sample_qt ''^[0-9]{6}$'' s = (length s = 6 \<and> list_all ascii_digit s)"
    by (auto simp: sample_qt_def sample_rx_def is_digit_def)
qed (auto simp: sample_qt_def sample_rx_def document_pattern_def qs_def ascii_digit_def)

theorem check_digit_detects_substitution_witness:
  "(computeCheckDigit sample_qt (qs ''L8'' @ 57 # qs ''8902C'') =
    computeCheckDigit sample_qt (qs ''L8'' @ 56 # qs ''8902C'')) = False"
proof -
  have "list_all mrz_char (qs ''L8'' @ 56 # qs ''8902C'')" "mrz_char 57"
    by (simp_all add: qs_def mrz_char_def ascii_defs)
  moreover have "charValue sample_qt 57 = 9" "charValue sample_qt 56 = 8"
    by (simp_all add: charValue_def sample_qt_def ascii_defs)
  ultimately show ?thesis
    using check_digit_detects_substitution [OF sample_qt_ok, of "qs ''L8''" 56 "qs ''8902C''" 57]
    by simp
qed

subsection \<open>The sealed MRZ\<close>

lemma to_upper_alnum: "ascii_alnum c \<Longrightarrow> mrz_char (to_upper c) \<and> c < 128"
  unfolding ascii_alnum_def mrz_char_def to_upper_def ascii_defs by (auto; unat_arith)

lemma qt_string:
  assumes "qt_ok L" "list_all (\<lambda>c. c < 128) s"
  shows "qs_toUpper L s = map to_upper s" "qs_toUtf8 L s = map ucast s"
  using assms by (auto simp: qt_ok_def)

lemma qt_date:
  assumes "qt_ok L" "kSentinelDate \<le> d" "d \<le> 5373484"
  shows "length (date_yyMMdd L d) = 6" "list_all mrz_char (date_yyMMdd L d)"
  using assms by (auto simp: qt_ok_def mrz_char_def list_all_iff)

text \<open>A field of the sealed MRZ: characters of the alphabet, then their check digit.\<close>

definition mrz_line :: "qt_lib \<Rightarrow> nat \<Rightarrow> qstring \<Rightarrow> bool" where
  "mrz_line L n l \<longleftrightarrow>
     length l = Suc n \<and> list_all mrz_char l \<and> checkDigitOk L (butlast l) (last l)"

lemma with_check_line:
  assumes "qt_ok L" "list_all mrz_char f"
  shows "mrz_line L (length f) (with_check L f)"
  using checkDigitOk_computed [OF assms] assms(2)
  by (auto simp: mrz_line_def with_check_def mrz_char_def)

lemma doc_field:
  assumes "qt_ok L" "mrz_isValid L today w" "le_pattern (m_documentNumber w) = document_pattern"
  shows "length (leftJustified kDocumentNumberWidth 60 (qs_toUpper L (le_text (m_documentNumber w)))) = 9"
    "list_all mrz_char (leftJustified kDocumentNumberWidth 60 (qs_toUpper L (le_text (m_documentNumber w))))"
proof -
  let ?t = "le_text (m_documentNumber w)"
  have t: "length ?t \<le> 9" "list_all ascii_alnum ?t"
    using assms by (auto simp: mrz_isValid_def hasAcceptableInput_def qt_ok_def split: if_splits)
  then have "qs_toUpper L ?t = map to_upper ?t"
    using assms(1) to_upper_alnum by (intro qt_string) (auto simp: list_all_iff)
  with t show "length (leftJustified kDocumentNumberWidth 60 (qs_toUpper L ?t)) = 9"
    "list_all mrz_char (leftJustified kDocumentNumberWidth 60 (qs_toUpper L ?t))"
    using to_upper_alnum
    by (auto simp: leftJustified_def kDocumentNumberWidth_def list_all_iff mrz_char_def)
qed


definition sample_mrz :: mrz_widget where
  "sample_mrz = MrzInputWidget\<lparr>m_documentNumber := setText (qs ''L898902C'') (m_documentNumber MrzInputWidget),
     m_dateOfBirth := 2442272, m_dateOfExpiry := 2456033\<rparr>"

definition sample_create_env :: create_env where
  "sample_create_env = \<lparr>env_memfd_create = Inr 5, env_writes = [Moved 64], env_add_seals = None\<rparr>"


end
