(* ===== verification/Prompt_Dialog.thy ===== *)
theory Prompt_Dialog
  imports Input_Widgets
begin

text \<open>
  The credential window, \<^verbatim>\<open>prompter/src/PromptDialog.cpp\<close>: its form, its wording, its
  entry clock, the switch between the CAN and the MRZ form and the capture on acceptance.
  Time is a millisecond count of the steady clock, passed to every operation that reads
  it. Translated text is kept as the untranslated message with its arguments. A D-Bus
  string is valid UTF-8, on which \<^verbatim>\<open>QString::fromStdString\<close> is one-to-one, so option
  texts stay the bytes they arrived as.
\<close>

datatype kind = Pin | Can | Mrz | ChangePin

record options =
  title :: string
  description :: string
  requester :: string
  artifact :: string
  artifacts :: "string list"
  minLength :: int
  maxLength :: int
  attempt :: int
  lastError :: string
  altKinds :: "string list"
  offerMrzSwitch :: bool
  readerModel :: string
  readerInterface :: string
  readerFull :: string
  primaryMinLength :: int
  primaryMaxLength :: int
  newMinLength :: int
  newMaxLength :: int
  cardLabel :: string
  pinLabel :: string

definition default_options :: options where
  "default_options =
     \<lparr>title = [], description = [], requester = [], artifact = [], artifacts = [],
      minLength = 4, maxLength = 8, attempt = 0, lastError = [], altKinds = [],
      offerMrzSwitch = False, readerModel = [], readerInterface = [], readerFull = [],
      primaryMinLength = 4, primaryMaxLength = 8, newMinLength = 4, newMaxLength = 8,
      cardLabel = [], pinLabel = []\<rparr>"

subsection \<open>Wording\<close>

datatype ui_text = Verbatim string | I18n string "string list" | Concat ui_text "ui_text list"

text \<open>
  The reader-interface vocabulary belongs to the agent library: \<open>if_fromToken\<close> is its
  \<^verbatim>\<open>readerInterfaceFromToken\<close>.
\<close>

datatype reader_interface = Unknown | Contact | Contactless

record dialog_lib =
  dl_qt :: qt_lib
  dl_fromUtf8 :: "string \<Rightarrow> qstring"
  dl_i18n :: "string \<Rightarrow> qstring"
  if_fromToken :: "string \<Rightarrow> reader_interface option"

text \<open>\<^verbatim>\<open>duration_cast\<close> to seconds truncates towards zero.\<close>

definition to_seconds :: "int \<Rightarrow> int" where
  "to_seconds ms = (if ms < 0 then - ((- ms) div 1000) else ms div 1000)"

definition pad2 :: "nat \<Rightarrow> string" where
  "pad2 n = (if n < 10 then ''0'' @ show_nat n else show_nat n)"

definition formatRemaining :: "int \<Rightarrow> string" where
  "formatRemaining remaining =
     (let secs = to_seconds remaining;
          clamped = (if secs < 0 then 0 else secs)
      in show_nat (nat (clamped div 60)) @ '':'' @ pad2 (nat (clamped mod 60)))"

definition kErrorPreReadAuthFailed :: string where
  "kErrorPreReadAuthFailed = ''librescrs.error.preRead.authFailed''"

definition retryErrorText :: "string \<Rightarrow> ui_text" where
  "retryErrorText lastErrorKey =
     (if lastErrorKey = kErrorPreReadAuthFailed \<or> lastErrorKey = []
      then I18n ''The value you entered was not accepted. Please try again.'' []
      else I18n ''Your previous entry was not accepted. Please try again.'' [])"

fun kindHintText :: "kind \<Rightarrow> ui_text" where
  "kindHintText Can = I18n ''Enter the card access number (CAN) printed on the document.'' []"
| "kindHintText Mrz = I18n ''Enter the document details exactly as printed in the machine-readable zone.'' []"
| "kindHintText Pin = Verbatim []"
| "kindHintText ChangePin = Verbatim []"

definition switchButtonText :: "kind \<Rightarrow> ui_text" where
  "switchButtonText current =
     (if current = Mrz then I18n ''Use card access number (CAN) instead'' []
      else I18n ''Use passport MRZ instead'' [])"

fun defaultTitle :: "kind \<Rightarrow> ui_text" where
  "defaultTitle Pin = I18n ''Enter PIN'' []"
| "defaultTitle Can = I18n ''Enter Card Access Number'' []"
| "defaultTitle Mrz = I18n ''Enter Machine-Readable Zone'' []"
| "defaultTitle ChangePin = I18n ''Change PIN'' []"

definition windowTitle :: "kind \<Rightarrow> options \<Rightarrow> ui_text" where
  "windowTitle k opts = (if title opts = [] then defaultTitle k else Verbatim (title opts))"

definition readerInterfaceOf :: "dialog_lib \<Rightarrow> string \<Rightarrow> reader_interface" where
  "readerInterfaceOf D token = (case if_fromToken D token of None \<Rightarrow> Unknown | Some i \<Rightarrow> i)"

definition readerInterfaceText :: "dialog_lib \<Rightarrow> string \<Rightarrow> ui_text option" where
  "readerInterfaceText D token =
     (case readerInterfaceOf D token of
        Contact \<Rightarrow> Some (I18n ''contact'' [])
      | Contactless \<Rightarrow> Some (I18n ''contactless'' [])
      | Unknown \<Rightarrow> None)"

text \<open>The UTF-8 bytes of the two marks.\<close>

definition readerInterfaceGlyph :: "dialog_lib \<Rightarrow> string \<Rightarrow> string" where
  "readerInterfaceGlyph D token =
     (case readerInterfaceOf D token of
        Contact \<Rightarrow> map char_of [0xF0 :: nat, 0x9F, 0x92, 0xB3]
      | Contactless \<Rightarrow> map char_of [0xF0 :: nat, 0x9F, 0x93, 0xB6]
      | Unknown \<Rightarrow> [])"

definition operation_vocabulary :: "(string \<times> string) list" where
  "operation_vocabulary =
     [(''identity'', ''Reading identity data''),
      (''photo'', ''Reading the photograph''),
      (''certificates'', ''Reading certificates''),
      (''token'', ''Reading token information''),
      (''credentials'', ''Reading PIN status''),
      (''signature'', ''Signing a document''),
      (''signature-batch'', ''Signing multiple documents''),
      (''pkcs11'', ''Cryptographic token operation''),
      (''pkcs11-derive'', ''Key agreement with the card key'')]"

text \<open>\<^const>\<open>None\<close> is the empty QString: not a vocabulary token.\<close>

definition operationText :: "string \<Rightarrow> string option" where
  "operationText artifactToken = map_of operation_vocabulary artifactToken"

subsection \<open>Layout\<close>

datatype text_format = PlainText | AutoText

datatype item =
    Label string text_format ui_text
  | ReaderDetails string
  | Group string "item list"
  | InputSlot
  | SwitchButton
  | CountdownLabel
  | ButtonBox

definition makeClientSuppliedLabel :: "ui_text \<Rightarrow> string \<Rightarrow> item" where
  "makeClientSuppliedLabel text objectName = Label objectName PlainText text"

definition join_comma :: "string list \<Rightarrow> string" where
  "join_comma xs = concat (case xs of [] \<Rightarrow> [] | x # r \<Rightarrow> x # map (\<lambda>y. '', '' @ y) r)"

definition reader_row :: "dialog_lib \<Rightarrow> options \<Rightarrow> item list" where
  "reader_row D opts =
     (if readerModel opts = [] then []
      else
        let base = I18n ''Reader: %1'' [readerModel opts];
            text = (case readerInterfaceText D (readerInterface opts) of
                      None \<Rightarrow> base
                    | Some q \<Rightarrow> Concat base [Verbatim (readerInterfaceGlyph D (readerInterface opts)), q])
        in [Label ''readerLabel'' PlainText text] @
           (if readerFull opts = [] then []
            else [ReaderDetails (readerFull opts),
                  Label ''readerFullDetails'' PlainText (Verbatim (readerFull opts))]))"

definition client_group :: "options \<Rightarrow> item list" where
  "client_group opts =
     (let unknownArtifact = (artifact opts \<noteq> [] \<and> operationText (artifact opts) = None) in
      if requester opts \<noteq> [] \<or> unknownArtifact then
        [Group ''clientSuppliedGroup''
           ((if requester opts \<noteq> []
             then [makeClientSuppliedLabel (I18n ''Requested by: %1'' [requester opts]) ''requesterLabel''] else []) @
            (if unknownArtifact
             then [makeClientSuppliedLabel (I18n ''Artifact: %1'' [artifact opts]) ''artifactLabel''] else []))]
      else [])"

definition buildLayout :: "dialog_lib \<Rightarrow> kind \<Rightarrow> options \<Rightarrow> item list" where
  "buildLayout D k opts =
     (if description opts \<noteq> [] then [Label ''promptDescription'' PlainText (Verbatim (description opts))] else []) @
     (if offerMrzSwitch opts then [Label ''kindHintLabel'' PlainText (kindHintText k)] else []) @
     (if artifacts opts \<noteq> []
      then [makeClientSuppliedLabel (I18n ''Documents: %1'' [join_comma (artifacts opts)]) ''artifactsLabel''] else []) @
     reader_row D opts @
     (if cardLabel opts \<noteq> [] then [Label ''cardLabel'' PlainText (I18n ''Card: %1'' [cardLabel opts])] else []) @
     (case operationText (artifact opts) of
        None \<Rightarrow> []
      | Some operation \<Rightarrow> [Label ''operationLabel'' PlainText (I18n ''Operation: %1'' [operation])]) @
     client_group opts @
     (if attempt opts > 0 then [Label ''retryErrorLabel'' PlainText (retryErrorText (lastError opts))] else []) @
     [InputSlot] @
     (if offerMrzSwitch opts then [SwitchButton] else []) @
     [CountdownLabel, ButtonBox]"

subsection \<open>State\<close>

datatype input_widget =
    WPin line_edit
  | WCan line_edit
  | WMrz mrz_widget
  | WChangePin change_pin_widget

fun widget_isValid :: "qt_lib \<Rightarrow> date \<Rightarrow> input_widget \<Rightarrow> bool" where
  "widget_isValid L today (WPin e) = pin_isValid L e"
| "widget_isValid L today (WCan e) = can_isValid L e"
| "widget_isValid L today (WMrz w) = mrz_isValid L today w"
| "widget_isValid L today (WChangePin w) = cp_isValid L w"

fun widgetFor :: "dialog_lib \<Rightarrow> kind \<Rightarrow> options \<Rightarrow> input_widget" where
  "widgetFor D Pin opts = WPin (PinInputWidget (minLength opts) (maxLength opts))"
| "widgetFor D Can opts = WCan CanInputWidget"
| "widgetFor D Mrz opts = WMrz MrzInputWidget"
| "widgetFor D ChangePin opts =
     WChangePin (ChangePinInputWidget (dl_qt D) (dl_i18n D) (primaryMinLength opts) (primaryMaxLength opts)
       (newMinLength opts) (newMaxLength opts) (dl_fromUtf8 D (pinLabel opts)))"

text \<open>A single-shot QTimer: not running, or due at an instant.\<close>

datatype timer = Stopped | Due int

record dialog =
  m_kind :: kind
  m_opts :: options
  m_widget :: input_widget
  d_title :: ui_text
  d_layout :: "item list"
  d_kindHint :: "ui_text option"
  d_switchText :: "ui_text option"
  d_okEnabled :: bool
  m_captured :: "int \<times> int"
  m_announcements :: nat
  m_deadlineTimer :: "timer option"
  d_countdown :: "string option"
  m_entryBudget :: int
  m_altEntryBudget :: int
  m_shownAt :: int
  m_expired :: bool

definition wireValidity :: "dialog_lib \<Rightarrow> date \<Rightarrow> dialog \<Rightarrow> dialog" where
  "wireValidity D today d = d\<lparr>d_okEnabled := widget_isValid (dl_qt D) today (m_widget d)\<rparr>"

definition PromptDialog :: "dialog_lib \<Rightarrow> date \<Rightarrow> kind \<Rightarrow> options \<Rightarrow> dialog" where
  "PromptDialog D today k opts =
     wireValidity D today
       \<lparr>m_kind = k, m_opts = opts, m_widget = widgetFor D k opts,
        d_title = windowTitle k opts, d_layout = buildLayout D k opts,
        d_kindHint = (if offerMrzSwitch opts then Some (kindHintText k) else None),
        d_switchText = (if offerMrzSwitch opts then Some (switchButtonText k) else None),
        d_okEnabled = False, m_captured = (- 1, - 1), m_announcements = 0,
        m_deadlineTimer = None, d_countdown = None, m_entryBudget = 0, m_altEntryBudget = 0,
        m_shownAt = 0, m_expired = False\<rparr>"

definition close_fd :: "int \<Rightarrow> fdtable \<Rightarrow> fdtable" where
  "close_fd fd t = (if fd \<ge> 0 then t(nat fd := None) else t)"

text \<open>\<^verbatim>\<open>~PromptDialog\<close>: a pair that was captured and never taken is closed.\<close>

definition destroy_dialog :: "dialog \<Rightarrow> fdtable \<Rightarrow> fdtable" where
  "destroy_dialog d t = close_fd (snd (m_captured d)) (close_fd (fst (m_captured d)) t)"

text \<open>An edit by the holder: the widget's \<^verbatim>\<open>validityChanged\<close> re-evaluates the OK button.\<close>

definition edit_widget :: "dialog_lib \<Rightarrow> date \<Rightarrow> input_widget \<Rightarrow> dialog \<Rightarrow> dialog" where
  "edit_widget D today w d = wireValidity D today (d\<lparr>m_widget := w\<rparr>)"

subsection \<open>The entry clock\<close>

definition setEntryDeadline :: "int \<Rightarrow> dialog \<Rightarrow> dialog" where
  "setEntryDeadline budget d =
     (let d = d\<lparr>m_entryBudget := budget\<rparr> in
      if budget \<le> 0 then d
      else d\<lparr>d_countdown := Some (formatRemaining budget), m_deadlineTimer := Some Stopped\<rparr>)"

definition setAlternateEntryDeadline :: "int \<Rightarrow> dialog \<Rightarrow> dialog" where
  "setAlternateEntryDeadline budget d = d\<lparr>m_altEntryBudget := budget\<rparr>"

definition rebasedRemaining :: "int \<Rightarrow> int \<Rightarrow> int \<Rightarrow> int" where
  "rebasedRemaining current alternative elapsed =
     (if alternative \<le> current then 0
      else
        let remaining = alternative - elapsed in
        if remaining > 0 then remaining else 0)"

definition rebaseEntryDeadlineOnAlternative :: "int \<Rightarrow> dialog \<Rightarrow> dialog" where
  "rebaseEntryDeadlineOnAlternative now d =
     (case m_deadlineTimer d of
        None \<Rightarrow> d
      | Some Stopped \<Rightarrow> d
      | Some (Due _) \<Rightarrow>
          let elapsed = now - m_shownAt d;
              remaining = rebasedRemaining (m_entryBudget d) (m_altEntryBudget d) elapsed
          in if remaining \<le> 0 then d
             else d\<lparr>m_entryBudget := m_altEntryBudget d, m_deadlineTimer := Some (Due (now + remaining)),
                    d_countdown := Some (formatRemaining remaining)\<rparr>)"

definition showEvent :: "int \<Rightarrow> dialog \<Rightarrow> dialog" where
  "showEvent now d =
     (case m_deadlineTimer d of
        Some Stopped \<Rightarrow> d\<lparr>m_shownAt := now, m_deadlineTimer := Some (Due (now + m_entryBudget d))\<rparr>
      | _ \<Rightarrow> d)"

definition onCountdown :: "int \<Rightarrow> dialog \<Rightarrow> dialog" where
  "onCountdown now d = d\<lparr>d_countdown := Some (formatRemaining (m_entryBudget d - (now - m_shownAt d)))\<rparr>"

text \<open>The deadline timer's handler records the expiry before it rejects.\<close>

definition onDeadline :: "dialog \<Rightarrow> dialog" where
  "onDeadline d = d\<lparr>m_expired := True, m_deadlineTimer := Some Stopped\<rparr>"

definition announce :: "dialog \<Rightarrow> dialog" where
  "announce d = d\<lparr>m_announcements := Suc (m_announcements d)\<rparr>"

definition mrzChosen :: "dialog \<Rightarrow> bool" where
  "mrzChosen d \<longleftrightarrow> m_kind d = Mrz"

subsection \<open>The switch and the capture\<close>

definition is_retry_label :: "item \<Rightarrow> bool" where
  "is_retry_label i = (case i of Label n _ _ \<Rightarrow> n = ''retryErrorLabel'' | _ \<Rightarrow> False)"

definition clearRetryError :: "dialog \<Rightarrow> dialog" where
  "clearRetryError d = d\<lparr>d_layout := filter (\<lambda>i. \<not> is_retry_label i) (d_layout d)\<rparr>"

definition swapInputKind :: "dialog_lib \<Rightarrow> date \<Rightarrow> int \<Rightarrow> dialog \<Rightarrow> dialog" where
  "swapInputKind D today now d =
     (if InputSlot \<notin> set (d_layout d) then d
      else
        let next = (if m_kind d = Mrz then Can else Mrz);
            d1 = d\<lparr>m_widget := widgetFor D next (m_opts d), m_kind := next,
                   d_title := windowTitle next (m_opts d),
                   d_kindHint := map_option (\<lambda>_. kindHintText next) (d_kindHint d)\<rparr>;
            d2 = (clearRetryError d1)\<lparr>d_switchText := map_option (\<lambda>_. switchButtonText next) (d_switchText d1)\<rparr>
        in rebaseEntryDeadlineOnAlternative now (wireValidity D today d2))"

fun widget_captureSecretFd ::
  "qt_lib \<Rightarrow> create_env \<Rightarrow> input_widget \<Rightarrow> fdtable \<Rightarrow> (int \<times> input_widget \<times> fdtable) option" where
  "widget_captureSecretFd L env (WPin e) t =
     map_option (\<lambda>(c, e', t'). (cap_fd c, WPin e', t')) (pin_captureSecretFd L env e t)"
| "widget_captureSecretFd L env (WCan e) t =
     map_option (\<lambda>(c, e', t'). (cap_fd c, WCan e', t')) (can_captureSecretFd L env e t)"
| "widget_captureSecretFd L env (WMrz w) t =
     map_option (\<lambda>(c, w', t'). (cap_fd c, WMrz w', t')) (mrz_captureSecretFd L env w t)"
| "widget_captureSecretFd L env (WChangePin w) t =
     map_option (\<lambda>(c, w', t'). (cap_fd c, WChangePin w', t')) (cp_captureSecretFd L env w t)"

definition dialog_captureSecretFd ::
  "dialog_lib \<Rightarrow> date \<Rightarrow> create_env \<Rightarrow> dialog \<Rightarrow> fdtable \<Rightarrow> (int \<times> dialog \<times> fdtable) option" where
  "dialog_captureSecretFd D today env d t =
     map_option (\<lambda>(fd, w, t'). (fd, edit_widget D today w d, t'))
       (widget_captureSecretFd (dl_qt D) env (m_widget d) t)"

text \<open>
  \<^verbatim>\<open>PromptDialog::accept\<close>: whether \<^verbatim>\<open>QDialog::accept\<close> was reached, and the state. The two
  environments are those of the two captures.
\<close>

definition dialog_accept ::
  "dialog_lib \<Rightarrow> date \<Rightarrow> create_env \<Rightarrow> create_env \<Rightarrow> dialog \<Rightarrow> fdtable \<Rightarrow> (bool \<times> dialog \<times> fdtable) option" where
  "dialog_accept D today env1 env2 d t =
     (let alreadyCaptured = (fst (m_captured d) \<ge> 0 \<or> snd (m_captured d) \<ge> 0) in
      case m_widget d of
        WChangePin w \<Rightarrow>
          if alreadyCaptured then Some (True, d, t)
          else if \<not> confirmMatchesNew w
          then Some (False, d\<lparr>m_widget := WChangePin (showConfirmMismatch w)\<rparr>, t)
          else
            (case cp_captureSecretFd (dl_qt D) env1 w t of
               None \<Rightarrow> None
             | Some (c1, w1, t1) \<Rightarrow>
                 (case captureNewSecretFd (dl_qt D) env2 w1 t1 of
                    None \<Rightarrow> None
                  | Some (c2, w2, t2) \<Rightarrow>
                      Some (True,
                        (edit_widget D today (WChangePin w2) d)\<lparr>m_captured := (cap_fd c1, cap_fd c2)\<rparr>, t2)))
      | _ \<Rightarrow> Some (True, d, t))"

definition takeSecretFdPair :: "dialog \<Rightarrow> (int \<times> int) \<times> dialog" where
  "takeSecretFdPair d = (m_captured d, d\<lparr>m_captured := (- 1, - 1)\<rparr>)"

subsection \<open>What can happen to an open window\<close>

fun form_kind :: "input_widget \<Rightarrow> kind" where
  "form_kind (WPin _) = Pin"
| "form_kind (WCan _) = Can"
| "form_kind (WMrz _) = Mrz"
| "form_kind (WChangePin _) = ChangePin"

lemma form_kind_widgetFor [simp]: "form_kind (widgetFor D k opts) = k"
  by (cases k) simp_all

text \<open>
  The steps of a window between its construction and its end, at the clock readings they
  happen at: shown (again), repainted, announced, typed into, switched. The switch button
  exists only where it was offered.
\<close>

inductive win_step :: "dialog_lib \<Rightarrow> dialog \<Rightarrow> dialog \<Rightarrow> bool" for D where
  Show: "win_step D d (showEvent now d)"
| Tick: "win_step D d (onCountdown now d)"
| Announce: "win_step D d (announce d)"
| Edit: "form_kind w = form_kind (m_widget d) \<Longrightarrow> win_step D d (edit_widget D today w d)"
| Switch: "d_switchText d \<noteq> None \<Longrightarrow> win_step D d (swapInputKind D today now d)"

inductive_cases win_stepE: "win_step D d d'"

lemmas dialog_ops = showEvent_def onCountdown_def announce_def edit_widget_def swapInputKind_def
  wireValidity_def clearRetryError_def rebaseEntryDeadlineOnAlternative_def

text \<open>Re-basing touches the clock only.\<close>

lemma rebase_frame [simp]:
  "m_kind (rebaseEntryDeadlineOnAlternative now d) = m_kind d"
  "m_opts (rebaseEntryDeadlineOnAlternative now d) = m_opts d"
  "m_widget (rebaseEntryDeadlineOnAlternative now d) = m_widget d"
  "d_layout (rebaseEntryDeadlineOnAlternative now d) = d_layout d"
  "d_switchText (rebaseEntryDeadlineOnAlternative now d) = d_switchText d"
  "d_okEnabled (rebaseEntryDeadlineOnAlternative now d) = d_okEnabled d"
  "m_captured (rebaseEntryDeadlineOnAlternative now d) = m_captured d"
  "m_shownAt (rebaseEntryDeadlineOnAlternative now d) = m_shownAt d"
  "m_altEntryBudget (rebaseEntryDeadlineOnAlternative now d) = m_altEntryBudget d"
  "m_expired (rebaseEntryDeadlineOnAlternative now d) = m_expired d"
  by (simp_all add: rebaseEntryDeadlineOnAlternative_def Let_def split: option.split timer.split)

lemma showEvent_frame [simp]:
  "m_kind (showEvent now d) = m_kind d" "m_widget (showEvent now d) = m_widget d"
  "m_opts (showEvent now d) = m_opts d" "d_switchText (showEvent now d) = d_switchText d"
  "d_layout (showEvent now d) = d_layout d" "m_captured (showEvent now d) = m_captured d"
  "m_expired (showEvent now d) = m_expired d"
  by (simp_all add: showEvent_def split: option.split timer.split)

subsection \<open>The form and its kind agree\<close>

definition win_ok :: "kind \<Rightarrow> options \<Rightarrow> dialog \<Rightarrow> bool" where
  "win_ok k opts d \<longleftrightarrow>
     m_opts d = opts \<and> form_kind (m_widget d) = m_kind d \<and>
     (d_switchText d \<noteq> None) = offerMrzSwitch opts \<and>
     (m_kind d = k \<or> offerMrzSwitch opts \<and> m_kind d \<in> {Can, Mrz}) \<and>
     m_captured d = (- 1, - 1) \<and> \<not> m_expired d"

lemma win_ok_init: "win_ok k opts (PromptDialog D today k opts)"
  by (simp add: win_ok_def PromptDialog_def wireValidity_def)

lemma win_ok_step [ll_inv]: "win_step D d d' \<Longrightarrow> win_ok k opts d \<Longrightarrow> win_ok k opts d'"
  by (erule win_stepE)
     (auto simp: win_ok_def onCountdown_def announce_def edit_widget_def swapInputKind_def
        wireValidity_def clearRetryError_def Let_def)

lemma win_ok_deadline: "win_ok k opts d \<Longrightarrow> win_ok k opts (setEntryDeadline B d)"
  "win_ok k opts d \<Longrightarrow> win_ok k opts (setAlternateEntryDeadline A d)"
  by (auto simp: win_ok_def setEntryDeadline_def setAlternateEntryDeadline_def Let_def)

lemma win_ok_steps: "(win_step D)\<^sup>*\<^sup>* d d' \<Longrightarrow> win_ok k opts d \<Longrightarrow> win_ok k opts d'"
  by (induction rule: rtranclp_induct) (auto intro: win_ok_step)

text \<open>A window that made no offer keeps the form it was opened with.\<close>

lemma no_offer_keeps_kind:
  "win_ok k opts d \<Longrightarrow> \<not> offerMrzSwitch opts \<Longrightarrow> m_kind d = k"
  by (auto simp: win_ok_def)

text \<open>A switch discards what was typed: the new form starts out invalid.\<close>

lemma swap_fresh:
  assumes "qt_ok (dl_qt D)" "InputSlot \<in> set (d_layout d)"
  shows "\<not> d_okEnabled (swapInputKind D today now d)"
proof -
  have "\<not> widget_isValid (dl_qt D) today (widgetFor D k opts)" if "k = Can \<or> k = Mrz" for k opts
    using that assms(1)
    by (auto simp: can_isValid_def CanInputWidget_def hasAcceptableInput_def qt_ok_def
          mrz_isValid_def MrzInputWidget_def)
  then show ?thesis using assms(2) by (simp add: swapInputKind_def wireValidity_def clearRetryError_def Let_def)
qed

subsection \<open>The entry clock\<close>

definition clock_ok :: "int \<Rightarrow> int \<Rightarrow> int \<Rightarrow> dialog \<Rightarrow> bool" where
  "clock_ok t0 B A d \<longleftrightarrow>
     m_shownAt d = t0 \<and> m_altEntryBudget d = A \<and>
     m_deadlineTimer d = Some (Due (t0 + m_entryBudget d)) \<and>
     (m_entryBudget d = B \<or> B < A \<and> m_entryBudget d = A)"

lemma clock_ok_rebase: "clock_ok t0 B A d \<Longrightarrow> clock_ok t0 B A (rebaseEntryDeadlineOnAlternative now d)"
  by (auto simp: clock_ok_def rebaseEntryDeadlineOnAlternative_def rebasedRemaining_def Let_def)

lemma clock_ok_frame:
  "m_shownAt e = m_shownAt d \<Longrightarrow> m_altEntryBudget e = m_altEntryBudget d \<Longrightarrow>
     m_deadlineTimer e = m_deadlineTimer d \<Longrightarrow> m_entryBudget e = m_entryBudget d \<Longrightarrow>
     clock_ok t0 B A d \<Longrightarrow> clock_ok t0 B A e"
  by (simp add: clock_ok_def)

lemma clock_ok_swap:
  assumes "clock_ok t0 B A d" shows "clock_ok t0 B A (swapInputKind D today now d)"
proof (cases "InputSlot \<in> set (d_layout d)")
  case True
  show ?thesis
    unfolding swapInputKind_def Let_def using True
    by (simp only: if_False not_True_eq_False) (rule clock_ok_rebase, rule clock_ok_frame [OF _ _ _ _ assms],
      simp_all add: wireValidity_def clearRetryError_def)
next
  case False
  with assms show ?thesis by (simp add: swapInputKind_def)
qed

lemma clock_ok_step [ll_inv]:
  assumes "win_step D d d'" "clock_ok t0 B A d" shows "clock_ok t0 B A d'"
  using assms(1)
proof cases
  case (Switch today now)
  with assms(2) show ?thesis by (simp add: clock_ok_swap)
qed (use assms(2) in
  \<open>simp_all add: clock_ok_def showEvent_def onCountdown_def announce_def edit_widget_def wireValidity_def\<close>)

lemma clock_ok_shown:
  "0 < B \<Longrightarrow> clock_ok t0 B A
     (showEvent t0 (setAlternateEntryDeadline A (setEntryDeadline B (PromptDialog D today k opts))))"
  by (simp add: clock_ok_def showEvent_def setAlternateEntryDeadline_def setEntryDeadline_def
        PromptDialog_def wireValidity_def Let_def)

text \<open>
  C34: a window never outlives the longer of its two budgets, counted from the moment it
  was shown. However often the holder switches forms, retypes or re-shows the window, and
  at whatever moments, its deadline is the moment of showing plus the requested budget, or
  plus the alternative's where that is larger: never their sum, and never less than what
  was granted at first.
\<close>

theorem entry_clock_bounded:
  assumes "0 < B"
    and "(win_step D)\<^sup>*\<^sup>*
      (showEvent t0 (setAlternateEntryDeadline A (setEntryDeadline B (PromptDialog D today k opts)))) d"
  shows "\<exists>due. m_deadlineTimer d = Some (Due due) \<and> due \<in> {t0 + B, t0 + max B A} \<and>
    t0 + B \<le> due \<and> due \<le> t0 + max B A"
proof -
  have "clock_ok t0 B A d"
    using assms(2) clock_ok_shown [OF assms(1)]
    by (induction rule: rtranclp_induct) (auto intro: clock_ok_step)
  then show ?thesis by (auto simp: clock_ok_def)
qed

text \<open>A switch within the larger budget does grant it, whole and from the moment of showing.\<close>

lemma switch_grants_alternative:
  "clock_ok t0 B A d \<Longrightarrow> B < A \<Longrightarrow> now < t0 + A \<Longrightarrow>
     m_deadlineTimer (rebaseEntryDeadlineOnAlternative now d) = Some (Due (t0 + A))"
  by (auto simp: clock_ok_def rebaseEntryDeadlineOnAlternative_def rebasedRemaining_def Let_def)

definition sample_dialog_lib :: dialog_lib where
  "sample_dialog_lib =
     \<lparr>dl_qt = sample_qt, dl_fromUtf8 = qs, dl_i18n = qs,
      if_fromToken = (\<lambda>s. if s = ''contact'' then Some Contact
                          else if s = ''contactless'' then Some Contactless else None)\<rparr>"

definition offered_options :: options where
  "offered_options = default_options\<lparr>offerMrzSwitch := True, altKinds := [''mrz'']\<rparr>"

theorem entry_clock_bounded_witness:
  "\<exists>due. m_deadlineTimer (swapInputKind sample_dialog_lib 2460000 111000
       (showEvent 1000 (setAlternateEntryDeadline 300000 (setEntryDeadline 120000
         (PromptDialog sample_dialog_lib 2460000 Can offered_options))))) = Some (Due due) \<and>
     due \<in> {1000 + 120000, 1000 + max 120000 300000} \<and>
     1000 + 120000 \<le> due \<and> due \<le> 1000 + max 120000 300000"
proof (rule entry_clock_bounded)
  let ?d = "showEvent 1000 (setAlternateEntryDeadline 300000 (setEntryDeadline 120000
    (PromptDialog sample_dialog_lib 2460000 Can offered_options)))"
  have "d_switchText ?d \<noteq> None"
    by (simp add: setAlternateEntryDeadline_def setEntryDeadline_def PromptDialog_def wireValidity_def
          offered_options_def default_options_def Let_def)
  then show "(win_step sample_dialog_lib)\<^sup>*\<^sup>* ?d (swapInputKind sample_dialog_lib 2460000 111000 ?d)"
    by (intro r_into_rtranclp Switch)
qed simp

text \<open>The countdown is the number of whole seconds left, as minutes and two-digit seconds.\<close>

lemma formatRemaining_reads:
  "\<exists>m s. formatRemaining r = show_nat m @ '':'' @ pad2 s \<and> s < 60 \<and>
     int (60 * m + s) = max 0 (to_seconds r)"
proof -
  let ?c = "max 0 (to_seconds r)"
  have "formatRemaining r = show_nat (nat (?c div 60)) @ '':'' @ pad2 (nat (?c mod 60))"
    by (simp add: formatRemaining_def Let_def max_def)
  moreover have "int (60 * nat (?c div 60) + nat (?c mod 60)) = ?c" "nat (?c mod 60) < 60"
    by (simp_all add: div_mult_mod_eq)
  ultimately show ?thesis by blast
qed

subsection \<open>What the window shows\<close>

fun labels :: "item \<Rightarrow> (string \<times> text_format \<times> ui_text) list" where
  "labels (Label n f t) = [(n, f, t)]"
| "labels (Group n is) = concat (map labels is)"
| "labels (ReaderDetails s) = []"
| "labels InputSlot = []"
| "labels SwitchButton = []"
| "labels CountdownLabel = []"
| "labels ButtonBox = []"

definition is_group :: "item \<Rightarrow> bool" where
  "is_group i = (case i of Group _ _ \<Rightarrow> True | _ \<Rightarrow> False)"

text \<open>What holds of every item of a layout, proved part by part.\<close>

definition item_ok :: "options \<Rightarrow> item \<Rightarrow> bool" where
  "item_ok opts i \<longleftrightarrow>
     list_all (\<lambda>l. fst (snd l) = PlainText \<and>
       (fst l \<in> {''requesterLabel'', ''artifactLabel''} \<longrightarrow> is_group i) \<and>
       (is_group i \<longrightarrow>
          snd (snd l) = I18n ''Requested by: %1'' [requester opts] \<or>
          snd (snd l) = I18n ''Artifact: %1'' [artifact opts] \<and> operationText (artifact opts) = None)) (labels i)"

lemma item_ok_label [simp]:
  "item_ok opts (Label n f t) \<longleftrightarrow> f = PlainText \<and> n \<noteq> ''requesterLabel'' \<and> n \<noteq> ''artifactLabel''"
  by (simp add: item_ok_def is_group_def)

lemma item_ok_bare [simp]:
  "item_ok opts (ReaderDetails r)" "item_ok opts InputSlot" "item_ok opts SwitchButton"
  "item_ok opts CountdownLabel" "item_ok opts ButtonBox"
  by (simp_all add: item_ok_def)

lemma reader_row_ok: "list_all (item_ok opts) (reader_row D opts)"
  by (simp add: reader_row_def Let_def)

lemma client_group_ok: "list_all (item_ok opts) (client_group opts)"
  by (simp add: client_group_def item_ok_def makeClientSuppliedLabel_def is_group_def Let_def)

lemma buildLayout_ok: "list_all (item_ok opts) (buildLayout D k opts)"
  unfolding buildLayout_def makeClientSuppliedLabel_def list_all_append
  by (intro conjI reader_row_ok client_group_ok) (simp_all split: option.split)



subsection \<open>Accepting a PIN change\<close>

lemma cp_capture_cases:
  assumes "cp_captureSecretFd L env w t = Some (c, w', t')"
  shows "m_newEdit w' = m_newEdit w \<and> m_confirmEdit w' = m_confirmEdit w \<and> le_text (m_currentEdit w') = []"
    and "cap_fd c < 0 \<or> (\<exists>n f. env_memfd_create env = Inr n \<and> cap_fd c = int n \<and> t' = t(n \<mapsto> f) \<and>
      mf_data f = qs_toUtf8 L (le_text (m_currentEdit w)))"
  using assms unfolding cp_captureSecretFd_def by (cases rule: seal_staged_cases; auto)+

lemma new_capture_cases:
  assumes "captureNewSecretFd L env w t = Some (c, w', t')"
  shows "cap_fd c < 0 \<or> (\<exists>n f. env_memfd_create env = Inr n \<and> cap_fd c = int n \<and> t' = t(n \<mapsto> f) \<and>
      mf_data f = qs_toUtf8 L (le_text (m_newEdit w)))"
  using assms unfolding captureNewSecretFd_def by (cases rule: seal_staged_cases) auto

text \<open>
  Accepting a PIN change. While the confirmation differs from the new PIN the window
  stays open, shows the mismatch and captures nothing. Otherwise it closes with all three
  entries empty, and where both descriptors could be made the first holds the current PIN
  and the second the new PIN. A second acceptance never captures again.
\<close>

theorem change_pin_accept:
  assumes "m_widget d = WChangePin w" "m_captured d = (- 1, - 1)"
    and "dialog_accept D today env1 env2 d t = Some (closes, d', t')"
    and "env_memfd_create env1 \<noteq> env_memfd_create env2"
  shows "closes = confirmMatchesNew w \<and>
    (\<not> closes \<longrightarrow> t' = t \<and> m_captured d' = (- 1, - 1) \<and> m_widget d' = WChangePin (showConfirmMismatch w)) \<and>
    (closes \<longrightarrow>
       (\<exists>w'. m_widget d' = WChangePin w' \<and> le_text (m_currentEdit w') = [] \<and>
          le_text (m_newEdit w') = [] \<and> le_text (m_confirmEdit w') = []) \<and>
       (fst (m_captured d') \<ge> 0 \<and> snd (m_captured d') \<ge> 0 \<longrightarrow>
          (\<exists>f g. t' (nat (fst (m_captured d'))) = Some f \<and> mf_data f = qs_toUtf8 (dl_qt D) (le_text (m_currentEdit w)) \<and>
             t' (nat (snd (m_captured d'))) = Some g \<and> mf_data g = qs_toUtf8 (dl_qt D) (le_text (m_newEdit w)))) \<and>
       (fst (m_captured d') \<ge> 0 \<or> snd (m_captured d') \<ge> 0 \<longrightarrow>
          dialog_accept D today env1 env2 d' t' = Some (True, d', t')))"
proof (cases "confirmMatchesNew w")
  case False
  with assms(1-3) show ?thesis by (auto simp: dialog_accept_def)
next
  case True
  with assms(1-3) obtain c1 w1 t1 c2 w2 where
    c: "cp_captureSecretFd (dl_qt D) env1 w t = Some (c1, w1, t1)"
       "captureNewSecretFd (dl_qt D) env2 w1 t1 = Some (c2, w2, t')"
    and d': "closes" "m_widget d' = WChangePin w2" "m_captured d' = (cap_fd c1, cap_fd c2)"
    by (auto simp: dialog_accept_def edit_widget_def wireValidity_def split: option.splits)
  note one = cp_capture_cases [OF c(1)] and two = new_capture_cases [OF c(2)] captureNew_scrubs [OF c(2)]
  have "fst (m_captured d') \<ge> 0 \<or> snd (m_captured d') \<ge> 0 \<Longrightarrow>
      dialog_accept D today env1 env2 d' t' = Some (True, d', t')"
    using d' by (auto simp: dialog_accept_def Let_def)
  moreover have "fst (m_captured d') \<ge> 0 \<and> snd (m_captured d') \<ge> 0 \<Longrightarrow>
    \<exists>f g. t' (nat (fst (m_captured d'))) = Some f \<and> mf_data f = qs_toUtf8 (dl_qt D) (le_text (m_currentEdit w)) \<and>
      t' (nat (snd (m_captured d'))) = Some g \<and> mf_data g = qs_toUtf8 (dl_qt D) (le_text (m_newEdit w))"
    using one two(1) d'(3) assms(4) by fastforce
  ultimately show ?thesis using True d' one(1) two(2) by auto
qed

definition typed_change_pin :: change_pin_widget where
  "typed_change_pin =
     (let w = ChangePinInputWidget sample_qt qs 4 8 4 8 [] in
      w\<lparr>m_currentEdit := setText (qs ''1234'') (m_currentEdit w), m_newEdit := setText (qs ''5678'') (m_newEdit w),
        m_confirmEdit := setText (qs ''5678'') (m_confirmEdit w)\<rparr>)"

definition sample_create_env2 :: create_env where
  "sample_create_env2 = sample_create_env\<lparr>env_memfd_create := Inr 6\<rparr>"

definition typed_change_dialog :: dialog where
  "typed_change_dialog =
     (PromptDialog sample_dialog_lib 2460000 ChangePin default_options)\<lparr>m_widget := WChangePin typed_change_pin\<rparr>"

theorem change_pin_accept_witness:
  "\<exists>d' t' f g. dialog_accept sample_dialog_lib 2460000 sample_create_env sample_create_env2 typed_change_dialog
       Map.empty = Some (True, d', t') \<and>
     t' 5 = Some f \<and> mf_data f = map ucast (qs ''1234'') \<and>
     t' 6 = Some g \<and> mf_data g = map ucast (qs ''5678'')"
proof -
  note defs = dialog_accept_def typed_change_dialog_def typed_change_pin_def ChangePinInputWidget_def makePinEdit_def
    setText_def confirmMatchesNew_def cp_captureSecretFd_def captureNewSecretFd_def seal_staged_def
    makeSealedSecretFd_def makeSealedMemfd_def sample_create_env_def sample_create_env2_def sample_dialog_lib_def
    sample_qt_def edit_new_def edit_confirm_def clearConfirmMismatch_def edit_widget_def wireValidity_def
    PromptDialog_def qs_def Let_def
  obtain d' t' where acc: "dialog_accept sample_dialog_lib 2460000 sample_create_env sample_create_env2
      typed_change_dialog Map.empty = Some (True, d', t')" and cap: "m_captured d' = (5, 6)"
    by (simp add: defs)
  have w: "m_widget typed_change_dialog = WChangePin typed_change_pin" "m_captured typed_change_dialog = (- 1, - 1)"
    "env_memfd_create sample_create_env \<noteq> env_memfd_create sample_create_env2"
    "le_text (m_currentEdit typed_change_pin) = qs ''1234''" "le_text (m_newEdit typed_change_pin) = qs ''5678''"
    "qs_toUtf8 (dl_qt sample_dialog_lib) = map ucast"
    by (simp_all add: defs)
  from change_pin_accept [OF w(1,2) acc w(3)] acc cap w(4-6) show ?thesis by auto
qed

end
