(* ===== verification/Prompter_Wire.thy ===== *)
theory Prompter_Wire
  imports Std_Map Prompt_Dialog
begin

text \<open>
  The Prompter1 vocabulary of \<^verbatim>\<open>common/PrompterWire.h\<close>: the option keys both binaries use,
  and, as the parameter \<open>wire_lib\<close>, what the agent library owns (the kind words, the reply
  status words and their reading, the reader-interface tokens, the size cap).
\<close>

datatype reply_status = RsOk | RsOkMrz | RsCancelled | RsTimeout | RsError | RsUnauthorized

datatype prompt_status = PsOk | PsCancelled | PsTimeout | PsError | PsHelperTooOld

record wire_lib =
  kKindPin :: string
  kKindCan :: string
  kKindMrz :: string
  kKindChangePin :: string
  replyStatusToken :: "reply_status \<Rightarrow> string"
  replyStatusFromToken :: "string \<Rightarrow> reply_status option"
  promptStatusFor :: "reply_status \<Rightarrow> bool \<Rightarrow> prompt_status"
  readerInterfaceToken :: "reader_interface \<Rightarrow> string"

text \<open>
  What the two binaries rely on: the words are distinct and read back, success means
  success, and the MRZ success word counts only for a caller that offered the switch.
\<close>

definition wire_ok :: "wire_lib \<Rightarrow> bool" where
  "wire_ok W \<longleftrightarrow>
     distinct [kKindPin W, kKindCan W, kKindMrz W, kKindChangePin W] \<and>
     (\<forall>s. replyStatusFromToken W (replyStatusToken W s) = Some s) \<and>
     (\<forall>s offered. promptStatusFor W s offered = PsOk \<longleftrightarrow> s = RsOk \<or> s = RsOkMrz \<and> offered)"

lemma wire_okD:
  assumes "wire_ok W"
  shows "kKindPin W \<noteq> kKindCan W" "kKindPin W \<noteq> kKindMrz W" "kKindCan W \<noteq> kKindMrz W"
    "replyStatusFromToken W (replyStatusToken W st) = Some st"
    "promptStatusFor W st offered = PsOk \<longleftrightarrow> st = RsOk \<or> st = RsOkMrz \<and> offered"
  using assms unfolding wire_ok_def by simp_all

type_synonym options_dict = "(string, variant) smap"

definition kProtocolVersion :: u32 where "kProtocolVersion = 2"

definition kOptPromptId :: string where "kOptPromptId = ''prompt_id''"
definition kOptDeadlineMs :: string where "kOptDeadlineMs = ''deadline_ms''"
definition kOptReaderModel :: string where "kOptReaderModel = ''reader_model''"
definition kOptReaderInterface :: string where "kOptReaderInterface = ''reader_interface''"
definition kOptReaderFull :: string where "kOptReaderFull = ''reader_full''"
definition kOptTitle :: string where "kOptTitle = ''title''"
definition kOptDescription :: string where "kOptDescription = ''description''"
definition kOptRequester :: string where "kOptRequester = ''requester''"
definition kOptArtifact :: string where "kOptArtifact = ''artifact''"
definition kOptArtifacts :: string where "kOptArtifacts = ''artifacts''"
definition kOptMinLength :: string where "kOptMinLength = ''min_length''"
definition kOptMaxLength :: string where "kOptMaxLength = ''max_length''"
definition kOptAttempt :: string where "kOptAttempt = ''attempt''"
definition kOptLastError :: string where "kOptLastError = ''last_error''"
definition kOptAltKinds :: string where "kOptAltKinds = ''alt_kinds''"
definition kOptAltDeadlineMs :: string where "kOptAltDeadlineMs = ''alt_deadline_ms''"
definition kOptPrimaryMinLength :: string where "kOptPrimaryMinLength = ''primary_min_length''"
definition kOptPrimaryMaxLength :: string where "kOptPrimaryMaxLength = ''primary_max_length''"
definition kOptNewMinLength :: string where "kOptNewMinLength = ''new_min_length''"
definition kOptNewMaxLength :: string where "kOptNewMaxLength = ''new_max_length''"
definition kOptCardLabel :: string where "kOptCardLabel = ''card_label''"
definition kOptPinLabel :: string where "kOptPinLabel = ''pin_label''"

lemmas opt_keys = kOptPromptId_def kOptDeadlineMs_def kOptReaderModel_def kOptReaderInterface_def
  kOptReaderFull_def kOptTitle_def kOptDescription_def kOptRequester_def kOptArtifact_def
  kOptArtifacts_def kOptMinLength_def kOptMaxLength_def kOptAttempt_def kOptLastError_def
  kOptAltKinds_def kOptAltDeadlineMs_def kOptPrimaryMinLength_def kOptPrimaryMaxLength_def
  kOptNewMinLength_def kOptNewMaxLength_def kOptCardLabel_def kOptPinLabel_def

subsection \<open>Reading the option dictionary (prompter side)\<close>

definition optionString :: "options_dict \<Rightarrow> string \<Rightarrow> string" where
  "optionString opts key =
     (case smap_find opts key of
        None \<Rightarrow> []
      | Some v \<Rightarrow> (case get_string v of None \<Rightarrow> [] | Some s \<Rightarrow> s))"

definition optionStringList :: "options_dict \<Rightarrow> string \<Rightarrow> string list" where
  "optionStringList opts key =
     (case smap_find opts key of
        None \<Rightarrow> []
      | Some v \<Rightarrow> (case get_strings v of None \<Rightarrow> [] | Some raw \<Rightarrow> raw))"

definition optionUInt :: "options_dict \<Rightarrow> string \<Rightarrow> u32 \<Rightarrow> u32" where
  "optionUInt opts key fallback =
     (case smap_find opts key of
        None \<Rightarrow> fallback
      | Some v \<Rightarrow> (case get_u32 v of None \<Rightarrow> fallback | Some w \<Rightarrow> w))"

definition parseKind :: "wire_lib \<Rightarrow> string \<Rightarrow> kind option" where
  "parseKind W k =
     (if k = kKindPin W then Some Pin
      else if k = kKindCan W then Some Can
      else if k = kKindMrz W then Some Mrz
      else None)"

text \<open>\<^verbatim>\<open>static_cast<int>\<close> of a \<^verbatim>\<open>uint32_t\<close> is its two's-complement reading.\<close>

definition buildOptions :: "options_dict \<Rightarrow> options" where
  "buildOptions opts =
     (let mn = sint (optionUInt opts kOptMinLength 4);
          mx = sint (optionUInt opts kOptMaxLength 8)
      in default_options
           \<lparr>title := optionString opts kOptTitle,
            description := optionString opts kOptDescription,
            requester := optionString opts kOptRequester,
            artifact := optionString opts kOptArtifact,
            artifacts := optionStringList opts kOptArtifacts,
            minLength := mn,
            maxLength := (if mx < mn then mn else mx),
            attempt := sint (optionUInt opts kOptAttempt 0),
            lastError := optionString opts kOptLastError,
            altKinds := optionStringList opts kOptAltKinds,
            readerModel := optionString opts kOptReaderModel,
            readerInterface := optionString opts kOptReaderInterface,
            readerFull := optionString opts kOptReaderFull\<rparr>)"

definition buildMultiOptions :: "options_dict \<Rightarrow> options" where
  "buildMultiOptions opts =
     (let out = buildOptions opts;
          pmin = sint (optionUInt opts kOptPrimaryMinLength 4);
          pmax = sint (optionUInt opts kOptPrimaryMaxLength 8);
          nmin = sint (optionUInt opts kOptNewMinLength 4);
          nmax = sint (optionUInt opts kOptNewMaxLength 8)
      in out
           \<lparr>primaryMinLength := pmin,
            primaryMaxLength := (if pmax < pmin then pmin else pmax),
            newMinLength := nmin,
            newMaxLength := (if nmax < nmin then nmin else nmax),
            cardLabel := optionString opts kOptCardLabel,
            pinLabel := optionString opts kOptPinLabel\<rparr>)"

text \<open>Whatever a client sends, the range of every entry field is not inverted.\<close>

lemma buildMultiOptions_ranges:
  "minLength (buildMultiOptions o1) \<le> maxLength (buildMultiOptions o1) \<and>
   primaryMinLength (buildMultiOptions o1) \<le> primaryMaxLength (buildMultiOptions o1) \<and>
   newMinLength (buildMultiOptions o1) \<le> newMaxLength (buildMultiOptions o1)"
  by (simp add: buildMultiOptions_def buildOptions_def Let_def)

definition sample_token :: "reply_status \<Rightarrow> string" where
  "sample_token s =
     (case s of RsOk \<Rightarrow> ''ok'' | RsOkMrz \<Rightarrow> ''ok_mrz'' | RsCancelled \<Rightarrow> ''cancelled''
      | RsTimeout \<Rightarrow> ''timeout'' | RsError \<Rightarrow> ''error'' | RsUnauthorized \<Rightarrow> ''unauthorized'')"

definition sample_from_token :: "string \<Rightarrow> reply_status option" where
  "sample_from_token t =
     map_of (map (\<lambda>s. (sample_token s, s)) [RsOk, RsOkMrz, RsCancelled, RsTimeout, RsError, RsUnauthorized]) t"

definition sample_wire :: wire_lib where
  "sample_wire =
     \<lparr>kKindPin = ''pin'', kKindCan = ''can'', kKindMrz = ''mrz'', kKindChangePin = ''change_pin'',
      replyStatusToken = sample_token,
      replyStatusFromToken = sample_from_token,
      promptStatusFor = (\<lambda>s offered.
        case s of RsOk \<Rightarrow> PsOk | RsOkMrz \<Rightarrow> (if offered then PsOk else PsError)
        | RsCancelled \<Rightarrow> PsCancelled | RsTimeout \<Rightarrow> PsTimeout | RsError \<Rightarrow> PsError | RsUnauthorized \<Rightarrow> PsError),
      readerInterfaceToken = (\<lambda>i. case i of Unknown \<Rightarrow> ''unknown'' | Contact \<Rightarrow> ''contact''
        | Contactless \<Rightarrow> ''contactless'')\<rparr>"

lemma sample_wire_ok: "wire_ok sample_wire"
proof -
  have "sample_from_token (sample_token s) = Some s" for s
    by (cases s) (simp_all add: sample_token_def sample_from_token_def)
  moreover have "promptStatusFor sample_wire s offered = PsOk \<longleftrightarrow> s = RsOk \<or> s = RsOkMrz \<and> offered" for s offered
    by (cases s) (simp_all add: sample_wire_def)
  ultimately show ?thesis by (simp add: wire_ok_def) (simp add: sample_wire_def)
qed

end
