(* ===== verification/Prompt_Registry.thy ===== *)
theory Prompt_Registry
  imports LL_Prelude
begin

text \<open>
  \<^verbatim>\<open>prompter/src/PromptRegistry.h\<close> and \<^verbatim>\<open>.cpp\<close>: the credential windows on screen, two
  parallel vectors and a 64-bit handle counter, as the class keeps them. A window pointer
  is a number, \<^const>\<open>None\<close> the null pointer. The container operations are atomic (the
  class's mutex), so each is one function on the state. The interface
  \<open>prompt_windows\<close> states what the service relies on, against the partial function from
  handles to entries; the class interprets it.
\<close>

record entry =
  window :: nat
  ownerPid :: int
  promptId :: string

record prompt_registry =
  m_entries :: "entry list"
  m_handles :: "u64 list"
  m_nextHandle :: u64

definition empty_registry :: prompt_registry where
  "empty_registry = \<lparr>m_entries = [], m_handles = [], m_nextHandle = 1\<rparr>"

definition indexOfPromptId :: "prompt_registry \<Rightarrow> string \<Rightarrow> nat option" where
  "indexOfPromptId r pid =
     (if pid = [] then None else index_of (\<lambda>e. promptId e = pid) (m_entries r))"

definition registry_add ::
  "prompt_registry \<Rightarrow> nat option \<Rightarrow> int \<Rightarrow> string \<Rightarrow> u64 option \<times> prompt_registry" where
  "registry_add r w owner pid =
     (case w of
        None \<Rightarrow> (None, r)
      | Some win \<Rightarrow>
          if pid \<noteq> [] \<and> indexOfPromptId r pid \<noteq> None then (None, r)
          else
            let handle = m_nextHandle r in
            (Some handle,
             r\<lparr>m_nextHandle := m_nextHandle r + 1,
               m_entries := m_entries r @ [\<lparr>window = win, ownerPid = owner, promptId = pid\<rparr>],
               m_handles := m_handles r @ [handle]\<rparr>))"

definition findByPromptId :: "prompt_registry \<Rightarrow> string \<Rightarrow> u64 option" where
  "findByPromptId r pid =
     (case indexOfPromptId r pid of Some i \<Rightarrow> Some (m_handles r ! i) | None \<Rightarrow> None)"

definition registry_find :: "prompt_registry \<Rightarrow> u64 \<Rightarrow> entry option" where
  "registry_find r h =
     (case index_of (\<lambda>x. x = h) (m_handles r) of
        None \<Rightarrow> None
      | Some i \<Rightarrow> Some (m_entries r ! i))"

definition registry_take :: "prompt_registry \<Rightarrow> u64 \<Rightarrow> entry option \<times> prompt_registry" where
  "registry_take r h =
     (case index_of (\<lambda>x. x = h) (m_handles r) of
        None \<Rightarrow> (None, r)
      | Some i \<Rightarrow>
          (Some (m_entries r ! i),
           r\<lparr>m_entries := erase_at i (m_entries r), m_handles := erase_at i (m_handles r)\<rparr>))"

definition registry_handles :: "prompt_registry \<Rightarrow> u64 list" where
  "registry_handles r = m_handles r"

definition registry_takeAll :: "prompt_registry \<Rightarrow> entry list \<times> prompt_registry" where
  "registry_takeAll r = (m_entries r, r\<lparr>m_entries := [], m_handles := []\<rparr>)"

definition registry_size :: "prompt_registry \<Rightarrow> nat" where
  "registry_size r = length (m_handles r)"

definition registry_empty :: "prompt_registry \<Rightarrow> bool" where
  "registry_empty r \<longleftrightarrow> m_handles r = []"

subsection \<open>The interface the service relies on\<close>

locale prompt_windows =
  fixes add :: "'r \<Rightarrow> nat option \<Rightarrow> int \<Rightarrow> string \<Rightarrow> 'h option \<times> 'r"
    and find :: "'r \<Rightarrow> 'h \<Rightarrow> entry option"
    and take_out :: "'r \<Rightarrow> 'h \<Rightarrow> entry option \<times> 'r"
    and by_id :: "'r \<Rightarrow> string \<Rightarrow> 'h option"
    and live :: "'r \<Rightarrow> 'h list"
    and ok :: "'r \<Rightarrow> bool"
    and room :: "'r \<Rightarrow> bool"
  assumes add_refused: "add r w p i = (None, r') \<Longrightarrow> r' = r"
    and add_accepted: "ok r \<Longrightarrow> room r \<Longrightarrow> add r w p i = (Some h, r') \<Longrightarrow>
      \<exists>win. w = Some win \<and> find r h = None \<and>
        find r' = (find r)(h \<mapsto> \<lparr>window = win, ownerPid = p, promptId = i\<rparr>)"
    and add_accepts: "ok r \<Longrightarrow> fst (add r (Some win) p i) = None \<longleftrightarrow>
      i \<noteq> [] \<and> (\<exists>h e. find r h = Some e \<and> promptId e = i)"
    and ok_add: "ok r \<Longrightarrow> room r \<Longrightarrow> ok (snd (add r w p i))"
    and take_fst: "ok r \<Longrightarrow> fst (take_out r h) = find r h"
    and take_snd: "ok r \<Longrightarrow> find (snd (take_out r h)) = (find r)(h := None)"
    and ok_take: "ok r \<Longrightarrow> ok (snd (take_out r h))"
    and room_take: "room (snd (take_out r h)) = room r"
    and by_id_iff: "ok r \<Longrightarrow> by_id r i = Some h \<longleftrightarrow>
      i \<noteq> [] \<and> (\<exists>e. find r h = Some e \<and> promptId e = i)"
    and live_iff: "ok r \<Longrightarrow> h \<in> set (live r) \<longleftrightarrow> find r h \<noteq> None"
begin

text \<open>Exactly one caller ever takes a window out: the second attempt finds nothing.\<close>

lemma take_once: "ok r \<Longrightarrow> fst (take_out (snd (take_out r h)) h) = None"
  by (simp add: take_fst take_snd ok_take)

lemma take_other: "ok r \<Longrightarrow> h' \<noteq> h \<Longrightarrow> find (snd (take_out r h)) h' = find r h'"
  by (simp add: take_snd)

text \<open>A name addresses at most one live window, and an empty name none.\<close>

lemma name_unique:
  "ok r \<Longrightarrow> find r h = Some e \<Longrightarrow> find r h' = Some e' \<Longrightarrow> promptId e = promptId e' \<Longrightarrow>
     promptId e \<noteq> [] \<Longrightarrow> h = h'"
  by (metis by_id_iff option.inject)

lemma empty_name_unaddressable: "ok r \<Longrightarrow> by_id r [] = None"
  by (metis by_id_iff not_Some_eq)

text \<open>A window that was taken out can no longer be reached by name.\<close>

lemma taken_unaddressable: "ok r \<Longrightarrow> by_id (snd (take_out r h)) i \<noteq> Some h"
  by (simp add: by_id_iff ok_take take_snd)

lemma add_keeps: "ok r \<Longrightarrow> room r \<Longrightarrow> find r h = Some e \<Longrightarrow> find (snd (add r w p i)) h = Some e"
  by (cases "add r w p i") (metis add_accepted add_refused fun_upd_apply option.exhaust option.simps(3) snd_conv)

end

subsection \<open>The class implements the interface\<close>

definition reg_ok :: "prompt_registry \<Rightarrow> bool" where
  "reg_ok r \<longleftrightarrow>
     length (m_handles r) = length (m_entries r) \<and>
     distinct (m_handles r) \<and>
     list_all (\<lambda>h. 0 < h \<and> h < m_nextHandle r) (m_handles r) \<and> 0 < m_nextHandle r \<and>
     sorted_wrt (\<lambda>a b. promptId a \<noteq> [] \<longrightarrow> promptId a \<noteq> promptId b) (m_entries r)"

text \<open>There is room for one more handle: the 64-bit counter does not wrap.\<close>

definition reg_room :: "prompt_registry \<Rightarrow> bool" where
  "reg_room r \<longleftrightarrow> m_nextHandle r < - 1"

definition reg_abs :: "prompt_registry \<Rightarrow> u64 \<rightharpoonup> entry" where
  "reg_abs r = map_of (zip (m_handles r) (m_entries r))"

lemma map_of_zip_index:
  "length xs = length ys \<Longrightarrow>
     map_of (zip xs ys) k = (case index_of (\<lambda>x. x = k) xs of None \<Rightarrow> None | Some i \<Rightarrow> Some (ys ! i))"
proof (induction xs ys rule: list_induct2)
  case (Cons x xs y ys)
  then show ?case by (auto split: option.splits)
qed simp

lemma registry_find_abs: "reg_ok r \<Longrightarrow> registry_find r = reg_abs r"
  by (rule ext) (simp add: registry_find_def reg_abs_def reg_ok_def map_of_zip_index)

lemma map_of_erase_at:
  assumes "distinct xs" "length xs = length ys" "i < length xs"
  shows "map_of (zip (erase_at i xs) (erase_at i ys)) = (map_of (zip xs ys))(xs ! i := None)"
proof -
  have "map fst (zip xs ys) = xs" using assms(2) by simp
  then have "zip (erase_at i xs) (erase_at i ys) = filter (\<lambda>z. fst z \<noteq> xs ! i) (zip xs ys)"
    using assms erase_at_filter [of fst "zip xs ys" i] by (simp add: erase_at_zip)
  moreover have "map_of (filter (\<lambda>z. fst z \<noteq> k) zs) = (map_of zs)(k := None)" for k and zs :: "('a \<times> 'b) list"
    by (induction zs) (auto simp: fun_eq_iff)
  ultimately show ?thesis by simp
qed

lemma sorted_wrt_erase_at: "sorted_wrt R xs \<Longrightarrow> sorted_wrt R (erase_at i xs)"
proof (induction xs arbitrary: i)
  case (Cons x xs)
  then show ?case
    using set_erase_at_subset [of "i - 1" xs] by (cases i) (auto simp: erase_at_def)
qed (simp add: erase_at_def)

lemma reg_ok_take: "reg_ok r \<Longrightarrow> reg_ok (snd (registry_take r h))"
  by (auto simp: registry_take_def reg_ok_def length_erase_at distinct_erase_at
        sorted_wrt_erase_at list_all_iff
        split: option.splits dest: index_of_lt dest!: subsetD [OF set_erase_at_subset])

lemma reg_abs_take: "reg_ok r \<Longrightarrow> reg_abs (snd (registry_take r h)) = (reg_abs r)(h := None)"
proof (cases "index_of (\<lambda>x. x = h) (m_handles r)")
  case None
  assume ok: "reg_ok r"
  with None have "reg_abs r h = None"
    by (simp add: reg_abs_def reg_ok_def map_of_zip_index)
  with None show ?thesis by (simp add: registry_take_def fun_upd_idem)
next
  case (Some i)
  assume ok: "reg_ok r"
  from Some have "i < length (m_handles r)" "m_handles r ! i = h"
    by (auto dest: index_of_SomeD)
  with ok Some show ?thesis
    using map_of_erase_at [of "m_handles r" "m_entries r" i]
    by (simp add: registry_take_def reg_abs_def reg_ok_def)
qed

lemma findByPromptId_iff:
  assumes "reg_ok r"
  shows "findByPromptId r i = Some h \<longleftrightarrow> i \<noteq> [] \<and> (\<exists>e. reg_abs r h = Some e \<and> promptId e = i)"
    (is "?L \<longleftrightarrow> ?R")
proof
  assume ?L
  then obtain k where k: "i \<noteq> []" "index_of (\<lambda>e. promptId e = i) (m_entries r) = Some k" "h = m_handles r ! k"
    by (auto simp: findByPromptId_def indexOfPromptId_def split: option.splits if_splits)
  then have "k < length (m_entries r)" "promptId (m_entries r ! k) = i"
    by (auto dest: index_of_SomeD)
  with k assms show ?R
    using index_of_distinct [of "m_handles r" k]
    by (simp add: reg_abs_def reg_ok_def map_of_zip_index)
next
  assume R: ?R
  then obtain e k where k: "index_of (\<lambda>x. x = h) (m_handles r) = Some k" and e: "e = m_entries r ! k" "promptId e = i"
    using assms by (auto simp: reg_abs_def reg_ok_def map_of_zip_index split: option.splits)
  from k have kl: "k < length (m_entries r)" "m_handles r ! k = h"
    using assms by (auto simp: reg_ok_def dest: index_of_SomeD)
  obtain j where j: "index_of (\<lambda>e. promptId e = i) (m_entries r) = Some j"
    using kl e index_of_None_iff [of "\<lambda>e. promptId e = i" "m_entries r"] nth_mem [OF kl(1)]
    by (cases "index_of (\<lambda>e. promptId e = i) (m_entries r)") auto
  then have jl: "j < length (m_entries r)" "promptId (m_entries r ! j) = i"
    by (auto dest: index_of_SomeD)
  have "j = k"
  proof (rule ccontr)
    assume "j \<noteq> k"
    then have "j < k \<or> k < j" by linarith
    moreover have "promptId (m_entries r ! a) \<noteq> promptId (m_entries r ! b)"
      if "a < b" "b < length (m_entries r)" "promptId (m_entries r ! a) \<noteq> []" for a b
    proof -
      from assms have "sorted_wrt (\<lambda>a b. promptId a \<noteq> [] \<longrightarrow> promptId a \<noteq> promptId b) (m_entries r)"
        by (simp add: reg_ok_def)
      from sorted_wrt_nth_less [OF this that(1,2)] that(3) show ?thesis by blast
    qed
    ultimately show False using R e kl jl by metis
  qed
  with j R kl show ?L by (simp add: findByPromptId_def indexOfPromptId_def)
qed

lemma registry_add_refused: "registry_add r w p i = (None, r') \<Longrightarrow> r' = r"
  by (auto simp: registry_add_def Let_def split: option.splits if_splits)

lemma registry_add_SomeD:
  assumes "registry_add r w p i = (Some h, r')"
  obtains win where "w = Some win" "i = [] \<or> indexOfPromptId r i = None" "h = m_nextHandle r"
    "r' = r\<lparr>m_nextHandle := m_nextHandle r + 1,
            m_entries := m_entries r @ [\<lparr>window = win, ownerPid = p, promptId = i\<rparr>],
            m_handles := m_handles r @ [m_nextHandle r]\<rparr>"
  using assms by (auto simp: registry_add_def Let_def split: option.splits if_splits)

lemma next_handle_gt: "reg_room r \<Longrightarrow> m_nextHandle r < m_nextHandle r + 1"
  unfolding reg_room_def by unat_arith

lemma reg_abs_next: "reg_ok r \<Longrightarrow> reg_abs r (m_nextHandle r) = None"
  by (auto simp: reg_abs_def reg_ok_def list_all_iff map_of_eq_None_iff dest: set_zip_leftD)

lemma map_of_snoc_new: "map_of zs k = None \<Longrightarrow> map_of (zs @ [(k, v)]) = (map_of zs)(k \<mapsto> v)"
  by (auto simp: fun_eq_iff map_add_def split: option.splits)

lemma reg_abs_add:
  assumes "reg_ok r" "registry_add r w p i = (Some h, r')"
  shows "\<exists>win. w = Some win \<and> reg_abs r h = None \<and>
    reg_abs r' = (reg_abs r)(h \<mapsto> \<lparr>window = win, ownerPid = p, promptId = i\<rparr>)"
  using assms(2)
proof (cases rule: registry_add_SomeD)
  case (1 win)
  with assms(1) reg_abs_next [OF assms(1)] show ?thesis
    using map_of_snoc_new [of "zip (m_handles r) (m_entries r)"]
    by (auto simp: reg_abs_def reg_ok_def simp del: map_of_append)
qed

lemma reg_ok_add: "reg_ok r \<Longrightarrow> reg_room r \<Longrightarrow> reg_ok (snd (registry_add r w p i))"
proof (cases "registry_add r w p i")
  case (Pair res r')
  assume ok: "reg_ok r" and room: "reg_room r"
  show ?thesis
  proof (cases res)
    case None
    with Pair ok show ?thesis using registry_add_refused by fastforce
  next
    case (Some h)
    with Pair have "registry_add r w p i = (Some h, r')" by simp
    then show ?thesis
    proof (cases rule: registry_add_SomeD)
      case (1 win)
      with Pair ok next_handle_gt [OF room] show ?thesis
        by (auto simp: reg_ok_def list_all_iff sorted_wrt_append indexOfPromptId_def
              index_of_None_iff split: if_splits)
    qed
  qed
qed

lemma registry_add_accepts:
  "reg_ok r \<Longrightarrow> fst (registry_add r (Some win) p i) = None \<longleftrightarrow>
     i \<noteq> [] \<and> (\<exists>h e. reg_abs r h = Some e \<and> promptId e = i)"
proof -
  assume ok: "reg_ok r"
  have "fst (registry_add r (Some win) p i) = None \<longleftrightarrow> i \<noteq> [] \<and> findByPromptId r i \<noteq> None"
    by (auto simp: registry_add_def findByPromptId_def Let_def split: option.splits)
  then show ?thesis using findByPromptId_iff [OF ok] by auto
qed

interpretation windows: prompt_windows registry_add registry_find registry_take findByPromptId
  registry_handles reg_ok reg_room
proof (unfold_locales, goal_cases)
  case 1 then show ?case by (rule registry_add_refused)
next
  case (2 r w p i h r')
  then show ?case using reg_abs_add [OF 2(1,3)] reg_ok_add [OF 2(1,2), of w p i]
    by (simp add: registry_find_abs)
next
  case 3 then show ?case by (simp add: registry_find_abs registry_add_accepts)
next
  case 4 then show ?case by (rule reg_ok_add)
next
  case (5 r h) then show ?case by (simp add: registry_take_def registry_find_def split: option.split)
next
  case 6 then show ?case by (simp add: registry_find_abs reg_ok_take reg_abs_take)
next
  case 7 then show ?case by (rule reg_ok_take)
next
  case 8 then show ?case by (simp add: registry_take_def reg_room_def split: option.split)
next
  case 9 then show ?case by (simp add: registry_find_abs findByPromptId_iff)
next
  case (10 r h)
  then show ?case
    using index_of_None_iff [of "\<lambda>x. x = h" "m_handles r"]
    by (auto simp: registry_handles_def registry_find_def split: option.splits)
qed

lemma reg_ok_empty [simp]: "reg_ok empty_registry"
  by (simp add: reg_ok_def empty_registry_def)

lemma reg_room_empty [simp]: "reg_room empty_registry"
  by (simp add: reg_room_def empty_registry_def) (simp add: word_less_def unsigned_minus_1_eq_mask mask_eq_exp_minus_1)

lemma registry_takeAll_spec:
  assumes "reg_ok r"
  shows "registry_find (snd (registry_takeAll r)) = Map.empty \<and>
     set (fst (registry_takeAll r)) = ran (registry_find r) \<and> reg_ok (snd (registry_takeAll r))"
proof -
  have "ran (registry_find r) = set (m_entries r)"
    using assms by (simp add: registry_find_abs reg_abs_def reg_ok_def ran_map_of_zip)
  with assms show ?thesis
    by (simp add: registry_takeAll_def registry_find_def reg_ok_def fun_eq_iff)
qed

end
