(* ===== verification/Proc_Pin.thy ===== *)
theory Proc_Pin
  imports LL_Prelude
begin

text \<open>
  The PID-reuse-safe readers of \<^verbatim>\<open>common/ProcPidPin.h\<close>, the prompter's caller gate
  (\<^verbatim>\<open>prompter/src/CallerAuthorizer.cpp\<close>) and the agent's requester label
  (\<^verbatim>\<open>agent/src/CallerIdentity.cpp\<close>). Processes come and go between two system calls, so
  the kernel's process table is a state machine, \<open>kstep\<close>, and every reader takes the
  table as it stands at each of its calls. A process is identified by its birth number,
  which is never reused; its PID is.
\<close>

subsection \<open>The process table\<close>

text \<open>\<open>p_exe\<close> is the target of \<^verbatim>\<open>/proc/<pid>/exe\<close>, which a zombie no longer has.\<close>

record process =
  p_birth :: nat
  p_exe :: "string option"
  p_stat :: string

record kernel =
  k_table :: "int \<rightharpoonup> process"
  k_births :: nat

inductive kstep :: "kernel \<Rightarrow> kernel \<Rightarrow> bool" where
  Spawn: "k_table k pid = None \<Longrightarrow> 0 < pid \<Longrightarrow>
    kstep k (k\<lparr>k_table := (k_table k)(pid \<mapsto> \<lparr>p_birth = k_births k, p_exe = exe, p_stat = st\<rparr>),
               k_births := Suc (k_births k)\<rparr>)"
| Change: "k_table k pid = Some p \<Longrightarrow>
    kstep k (k\<lparr>k_table := (k_table k)(pid \<mapsto> p\<lparr>p_exe := exe, p_stat := st\<rparr>)\<rparr>)"
| Reap: "k_table k pid = Some p \<Longrightarrow> kstep k (k\<lparr>k_table := (k_table k)(pid := None)\<rparr>)"

inductive_cases kstepE: "kstep k k'"

definition kernel_ok :: "kernel \<Rightarrow> bool" where
  "kernel_ok k \<longleftrightarrow>
     (\<forall>pid p. k_table k pid = Some p \<longrightarrow> p_birth p < k_births k) \<and>
     (\<forall>pid pid' p p'. k_table k pid = Some p \<longrightarrow> k_table k pid' = Some p' \<longrightarrow>
        p_birth p = p_birth p' \<longrightarrow> pid = pid')"

subsection \<open>PidPin\<close>

text \<open>
  The pidfd of the process that owns the PID now; \<open>can_open\<close> is whether the kernel has the
  call and a free descriptor.
\<close>

definition PidPin_open :: "bool \<Rightarrow> kernel \<Rightarrow> int \<Rightarrow> nat option" where
  "PidPin_open can_open k pid = (if can_open then map_option p_birth (k_table k pid) else None)"

text \<open>The table as the entries a birth number occurs in, so that the probe computes.\<close>

definition pinned_in :: "kernel \<Rightarrow> int list \<Rightarrow> nat \<Rightarrow> bool" where
  "pinned_in k pids b \<longleftrightarrow> (\<exists>pid \<in> set pids. map_option p_birth (k_table k pid) = Some b)"

text \<open>
  The signal-0 probe: it succeeds while the process is in the table, and \<open>may_signal\<close>
  covers every other error. \<open>pids\<close> are the PIDs in use.
\<close>

definition stillPinsLiveProcess :: "bool \<Rightarrow> kernel \<Rightarrow> int list \<Rightarrow> nat \<Rightarrow> bool" where
  "stillPinsLiveProcess may_signal k pids b \<longleftrightarrow> pinned_in k pids b \<and> may_signal"

record pin_env =
  can_open :: bool
  can_read :: bool
  may_signal :: bool

text \<open>
  \<open>k\<^sub>0\<close> is the table when the pidfd is opened, \<open>k\<^sub>1\<close> when the link is read, \<open>k\<^sub>2\<close> when the
  pidfd is probed.
\<close>

definition readProcExePinned ::
  "pin_env \<Rightarrow> kernel \<Rightarrow> kernel \<Rightarrow> kernel \<times> int list \<Rightarrow> int \<Rightarrow> string option" where
  "readProcExePinned env k0 k1 k2 pid =
     (if pid \<le> 0 then None
      else case PidPin_open (can_open env) k0 pid of
        None \<Rightarrow> None
      | Some b \<Rightarrow>
          (case Option.bind (k_table k1 pid) p_exe of
             None \<Rightarrow> None
           | Some target \<Rightarrow>
               if \<not> can_read env then None
               else if \<not> stillPinsLiveProcess (may_signal env) (fst k2) (snd k2) b then None
               else Some target))"

text \<open>
  An open \<^verbatim>\<open>/proc/<pid>/stat\<close> stays tied to the process it was opened on: once that
  process is reaped the read delivers nothing.
\<close>

definition stat_text :: "kernel \<Rightarrow> int \<Rightarrow> nat \<Rightarrow> string" where
  "stat_text k pid b =
     (case k_table k pid of Some p \<Rightarrow> if p_birth p = b then p_stat p else [] | None \<Rightarrow> [])"

definition readProcStatPinned ::
  "pin_env \<Rightarrow> kernel \<Rightarrow> kernel \<Rightarrow> kernel \<Rightarrow> kernel \<times> int list \<Rightarrow> int \<Rightarrow> string option" where
  "readProcStatPinned env k0 k_open k_read k2 pid =
     (if pid \<le> 0 then None
      else case PidPin_open (can_open env) k0 pid of
        None \<Rightarrow> None
      | Some b \<Rightarrow>
          (case k_table k_open pid of
             None \<Rightarrow> None
           | Some p \<Rightarrow>
               if \<not> can_read env then None
               else
                 let buf = stat_text k_read pid (p_birth p) in
                 if \<not> stillPinsLiveProcess (may_signal env) (fst k2) (snd k2) b then None
                 else Some buf))"

subsection \<open>CallerAuthorizer and CallerIdentity\<close>

text \<open>
  \<^verbatim>\<open>std::filesystem::path\<close> equality: a root directory or none, and the names in order; a run
  of separators counts once and a trailing one leaves an empty last name.
\<close>

fun path_names :: "string \<Rightarrow> string \<Rightarrow> string list" where
  "path_names acc [] = (if acc = [] then [] else [rev acc])"
| "path_names acc [c] = (if c = CHR ''/'' then (if acc = [] then [[]] else [rev acc, []]) else [rev (c # acc)])"
| "path_names acc (c # d # s) =
     (if c = CHR ''/'' then (if acc = [] then path_names [] (d # s) else rev acc # path_names [] (d # s))
      else path_names (c # acc) (d # s))"

definition path_eq :: "string \<Rightarrow> string \<Rightarrow> bool" where
  "path_eq p q \<longleftrightarrow>
     (take 1 p = ''/'') = (take 1 q = ''/'') \<and>
     path_names [] (dropWhile (\<lambda>c. c = CHR ''/'') p) = path_names [] (dropWhile (\<lambda>c. c = CHR ''/'') q)"

text \<open>
  \<open>canon\<close> is \<^verbatim>\<open>weakly_canonical\<close> against the file system at that moment, \<^const>\<open>None\<close> for an
  error code.
\<close>

definition resolvePidExePath ::
  "(string \<Rightarrow> string option) \<Rightarrow> pin_env \<Rightarrow> kernel \<Rightarrow> kernel \<Rightarrow> kernel \<times> int list \<Rightarrow> int \<Rightarrow> string option" where
  "resolvePidExePath canon env k0 k1 k2 pid =
     (case readProcExePinned env k0 k1 k2 pid of
        None \<Rightarrow> None
      | Some target \<Rightarrow>
          (case canon target of
             None \<Rightarrow> Some target
           | Some canonical \<Rightarrow> Some canonical))"

definition isAuthorizedCaller ::
  "(string \<Rightarrow> string option) \<Rightarrow> pin_env \<Rightarrow> kernel \<Rightarrow> kernel \<Rightarrow> kernel \<times> int list \<Rightarrow> int \<Rightarrow> string \<Rightarrow> bool" where
  "isAuthorizedCaller canon env k0 k1 k2 pid expectedPeer =
     (case resolvePidExePath canon env k0 k1 k2 pid of
        None \<Rightarrow> False
      | Some callerExe \<Rightarrow>
          let expectedCanonical = (case canon expectedPeer of None \<Rightarrow> expectedPeer | Some c \<Rightarrow> c) in
          if path_eq callerExe expectedCanonical then True
          else callerExe = expectedCanonical @ '' (deleted)'')"

text \<open>\<open>sanitizeLabel\<close> and \<open>exeBasename\<close> belong to the agent library.\<close>

definition resolveRequesterLabel ::
  "(string \<Rightarrow> string) \<Rightarrow> (string \<Rightarrow> string) \<Rightarrow> pin_env \<Rightarrow> kernel \<Rightarrow> kernel \<Rightarrow> kernel \<times> int list \<Rightarrow>
   int \<Rightarrow> string" where
  "resolveRequesterLabel sanitizeLabel exeBasename env k0 k1 k2 credsPid =
     (case readProcExePinned env k0 k1 k2 credsPid of
        None \<Rightarrow> []
      | Some exe \<Rightarrow> sanitizeLabel (exeBasename exe))"

subsection \<open>A birth number never comes back\<close>

lemma kernel_ok_step: "kstep k k' \<Longrightarrow> kernel_ok k \<Longrightarrow> kernel_ok k'"
  by (erule kstepE) (force simp: kernel_ok_def less_Suc_eq split: if_splits)+

lemma births_mono: "kstep k k' \<Longrightarrow> k_births k \<le> k_births k'"
  by (erule kstepE) auto

lemma birth_back_step:
  "kstep k k' \<Longrightarrow> map_option p_birth (k_table k' pid) = Some b \<Longrightarrow> b < k_births k \<Longrightarrow>
     map_option p_birth (k_table k pid) = Some b"
  by (erule kstepE) (auto split: if_splits)

lemma birth_back:
  assumes "kstep\<^sup>*\<^sup>* k k'" "map_option p_birth (k_table k' pid) = Some b" "b < k_births k"
  shows "map_option p_birth (k_table k pid) = Some b"
  using assms
proof (induction rule: converse_rtranclp_induct)
  case (step k k1)
  then show ?case using births_mono [OF step.hyps(1)] birth_back_step [OF step.hyps(1)]
    by (meson order_less_le_trans)
qed simp

lemma kernel_ok_steps: "kstep\<^sup>*\<^sup>* k k' \<Longrightarrow> kernel_ok k \<Longrightarrow> kernel_ok k'"
  by (induction rule: rtranclp_induct) (auto intro: kernel_ok_step)

text \<open>What the probe establishes: the PID meant the pinned process at every moment up to it.\<close>

lemma probe_pins:
  assumes ok: "kernel_ok k0" and b: "PidPin_open co k0 pid = Some b"
    and run: "kstep\<^sup>*\<^sup>* k0 k1" "kstep\<^sup>*\<^sup>* k1 k2" and probe: "stillPinsLiveProcess ms k2 pids b"
  shows "map_option p_birth (k_table k1 pid) = Some b"
proof -
  obtain p where p: "k_table k0 pid = Some p" "p_birth p = b"
    using b by (auto simp: PidPin_open_def split: if_splits)
  have lt0: "b < k_births k0" using p ok by (auto simp: kernel_ok_def)
  have lt1: "b < k_births k1"
    using run(1) lt0
  proof (induction rule: rtranclp_induct)
    case (step y z) then show ?case using births_mono [of y z] by simp
  qed
  obtain pid' where "map_option p_birth (k_table k2 pid') = Some b"
    using probe by (auto simp: stillPinsLiveProcess_def pinned_in_def)
  then have k1: "map_option p_birth (k_table k1 pid') = Some b"
    using birth_back [OF run(2)] lt1 by blast
  then have "map_option p_birth (k_table k0 pid') = Some b"
    using birth_back [OF run(1)] lt0 by blast
  then obtain p' where "k_table k0 pid' = Some p'" "p_birth p' = b" by auto
  with p ok have "pid' = pid" unfolding kernel_ok_def by metis
  with k1 show ?thesis by simp
qed

lemma readProcExePinned_SomeD:
  assumes "readProcExePinned env k0 k1 k2 pid = Some target" "kernel_ok k0"
    "kstep\<^sup>*\<^sup>* k0 k1" "kstep\<^sup>*\<^sup>* k1 (fst k2)"
  shows "\<exists>p q. k_table k0 pid = Some p \<and> k_table k1 pid = Some q \<and> p_birth q = p_birth p \<and>
    p_exe q = Some target \<and> 0 < pid"
proof -
  obtain b q where b: "PidPin_open (can_open env) k0 pid = Some b" and q: "k_table k1 pid = Some q"
    "p_exe q = Some target" "0 < pid"
    and probe: "stillPinsLiveProcess (may_signal env) (fst k2) (snd k2) b"
    using assms(1) by (auto simp: readProcExePinned_def bind_eq_Some_conv split: if_splits option.splits)
  from probe_pins [OF assms(2) b assms(3,4) probe] q have "p_birth q = b" by simp
  moreover from b obtain p where "k_table k0 pid = Some p" "p_birth p = b"
    by (auto simp: PidPin_open_def split: if_splits)
  ultimately show ?thesis using q by auto
qed

text \<open>
  C10: a pinned read is a read of the process that owned the PID when it was pinned.
  Whatever happens in the process table between the three calls (the process exits and is
  reaped, its PID is given to another program), an executable that is reported is the one
  the pinned process itself had at the read; a read that could have seen a recycled PID is
  discarded.
\<close>

theorem pinned_read_never_crosses_processes:
  assumes "kernel_ok k0" "kstep\<^sup>*\<^sup>* k0 k1" "kstep\<^sup>*\<^sup>* k1 (fst k2)"
    and "readProcExePinned env k0 k1 k2 pid = Some target"
  shows "\<exists>p q. k_table k0 pid = Some p \<and> k_table k1 pid = Some q \<and> p_birth q = p_birth p \<and>
    p_exe q = Some target"
  using readProcExePinned_SomeD [OF assms(4,1-3)] by blast

definition sample_kernel :: kernel where
  "sample_kernel =
     \<lparr>k_table = [7 \<mapsto> \<lparr>p_birth = 3, p_exe = Some ''/usr/libexec/librescrs-agent'', p_stat = ''7 (agent)''\<rparr>],
      k_births = 4\<rparr>"

definition full_env :: pin_env where
  "full_env = \<lparr>can_open = True, can_read = True, may_signal = True\<rparr>"

lemma sample_kernel_ok: "kernel_ok sample_kernel"
  by (simp add: kernel_ok_def sample_kernel_def)

lemma pinned_sample_read:
  "readProcExePinned full_env sample_kernel sample_kernel (sample_kernel, [7]) 7 =
     Some ''/usr/libexec/librescrs-agent''"
  by (simp add: readProcExePinned_def full_env_def sample_kernel_def PidPin_open_def
        stillPinsLiveProcess_def pinned_in_def)

theorem pinned_read_never_crosses_processes_witness:
  "\<exists>p q. k_table sample_kernel 7 = Some p \<and> k_table sample_kernel 7 = Some q \<and> p_birth q = p_birth p \<and>
     p_exe q = Some ''/usr/libexec/librescrs-agent''"
  using pinned_read_never_crosses_processes [of sample_kernel sample_kernel "(sample_kernel, [7])"
      full_env 7 "''/usr/libexec/librescrs-agent''"]
  by (simp add: sample_kernel_ok pinned_sample_read)

text \<open>
  C19: a caller is let through the gate only when the process that owned the PID at the pin
  runs an executable that resolves to the expected peer, or to exactly that path with the
  kernel's deleted mark appended; a PID that could not be pinned never passes.
\<close>

theorem isAuthorizedCaller_sound:
  assumes "kernel_ok k0" "kstep\<^sup>*\<^sup>* k0 k1" "kstep\<^sup>*\<^sup>* k1 (fst k2)"
    and "isAuthorizedCaller canon env k0 k1 k2 pid peer"
  shows "\<exists>p q exe. k_table k0 pid = Some p \<and> k_table k1 pid = Some q \<and> p_birth q = p_birth p \<and>
    p_exe q = Some exe \<and>
    (let resolve = (\<lambda>s. case canon s of None \<Rightarrow> s | Some c \<Rightarrow> c) in
       path_eq (resolve exe) (resolve peer) \<or> resolve exe = resolve peer @ '' (deleted)'')"
proof -
  obtain exe where exe: "readProcExePinned env k0 k1 k2 pid = Some exe"
    and eq: "let resolve = (\<lambda>s. case canon s of None \<Rightarrow> s | Some c \<Rightarrow> c) in
       path_eq (resolve exe) (resolve peer) \<or> resolve exe = resolve peer @ '' (deleted)''"
    using assms(4)
    by (auto simp: isAuthorizedCaller_def resolvePidExePath_def Let_def split: option.splits if_splits)
  from readProcExePinned_SomeD [OF exe assms(1-3)] eq show ?thesis by blast
qed

theorem isAuthorizedCaller_sound_witness:
  "isAuthorizedCaller Some full_env sample_kernel sample_kernel (sample_kernel, [7]) 7
     ''/usr/libexec/librescrs-agent'' \<and>
   (\<exists>p q exe. k_table sample_kernel 7 = Some p \<and> k_table sample_kernel 7 = Some q \<and>
     p_birth q = p_birth p \<and> p_exe q = Some exe \<and>
     (let resolve = (\<lambda>s. case Some s of None \<Rightarrow> s | Some c \<Rightarrow> c) in
       path_eq (resolve exe) (resolve ''/usr/libexec/librescrs-agent'') \<or>
       resolve exe = resolve ''/usr/libexec/librescrs-agent'' @ '' (deleted)''))"
proof -
  have "isAuthorizedCaller Some full_env sample_kernel sample_kernel (sample_kernel, [7]) 7
     ''/usr/libexec/librescrs-agent''"
    by (simp add: isAuthorizedCaller_def resolvePidExePath_def pinned_sample_read path_eq_def)
  then show ?thesis
    using isAuthorizedCaller_sound [of sample_kernel sample_kernel "(sample_kernel, [7])" Some full_env 7
        "''/usr/libexec/librescrs-agent''"] sample_kernel_ok by simp
qed

text \<open>The status text, likewise, is that of the pinned process.\<close>

lemma readProcStatPinned_SomeD:
  assumes "readProcStatPinned env k0 k1 kr k2 pid = Some s" "kernel_ok k0"
    "kstep\<^sup>*\<^sup>* k0 k1" "kstep\<^sup>*\<^sup>* k1 kr" "kstep\<^sup>*\<^sup>* kr (fst k2)"
  shows "\<exists>p q. k_table k0 pid = Some p \<and> k_table kr pid = Some q \<and> p_birth q = p_birth p \<and> s = p_stat q"
proof -
  obtain b p1 where b: "PidPin_open (can_open env) k0 pid = Some b" and p1: "k_table k1 pid = Some p1"
    and s: "s = stat_text kr pid (p_birth p1)"
    and probe: "stillPinsLiveProcess (may_signal env) (fst k2) (snd k2) b"
    using assms(1) by (auto simp: readProcStatPinned_def Let_def split: if_splits option.splits)
  have "p_birth p1 = b"
    using probe_pins [OF assms(2) b assms(3) _ probe] assms(4,5) p1 by (simp add: rtranclp_trans)
  moreover have "map_option p_birth (k_table kr pid) = Some b"
    using probe_pins [OF assms(2) b _ assms(5) probe] assms(3,4) by (simp add: rtranclp_trans)
  moreover obtain p where "k_table k0 pid = Some p" "p_birth p = b"
    using b by (auto simp: PidPin_open_def split: if_splits)
  ultimately show ?thesis using s by (auto simp: stat_text_def)
qed

lemma resolveRequesterLabel_unpinned:
  "k_table k0 pid = None \<Longrightarrow> resolveRequesterLabel f g env k0 k1 k2 pid = []"
  by (simp add: resolveRequesterLabel_def readProcExePinned_def PidPin_open_def)

end
