(* ===== verification/Prompter_Service.thy ===== *)
theory Prompter_Service
  imports Prompter_Wire Prompt_Registry Proc_Pin
begin

text \<open>
  The prompter's D-Bus service, \<^verbatim>\<open>prompter/src/PrompterService.cpp\<close>. Requests arrive on a
  bus worker thread, which authorises them and posts to the GUI thread; the GUI thread
  raises the windows, and a window's completion answers. Both threads act on one state:
  the posted work, the registry, the windows, the descriptor table and the record of
  answers. A reply handle is a call number. \<open>svc_step\<close> lets the threads, the holder and
  the clock interleave in any order.
\<close>

text \<open>One use of a reply handle; \<open>a_sent\<close> is false when the bus refused the reply.\<close>

record answer =
  a_call :: nat
  a_word :: string
  a_files :: "memfile option list"
  a_sent :: bool

text \<open>A raised window: the dialog and what its completion captured.\<close>

record win =
  w_dialog :: dialog
  w_handle :: u64
  w_offer :: bool
  w_change :: bool
  w_call :: nat

datatype gui_task =
    Raise kind options int string bool int int nat
  | RaiseChange options int string int nat
  | DismissNamed string int
  | DismissAll
  | InvokeReject nat
  | Delete nat

record service =
  ps_registry :: prompt_registry
  ps_windows :: "nat \<rightharpoonup> win"
  ps_next :: nat
  ps_fds :: fdtable
  ps_queue :: "gui_task list"
  ps_answers :: "answer list"

definition init_service :: service where
  "init_service = \<lparr>ps_registry = empty_registry, ps_windows = Map.empty, ps_next = 0, ps_fds = Map.empty,
                   ps_queue = [], ps_answers = []\<rparr>"

text \<open>
  What one handler meets outside: the libraries, today's date, the steady clock, whether
  the caller is still on the bus, and what each memfd creation of the handler answers.
\<close>

record svc_env =
  e_wire :: wire_lib
  e_dialog :: dialog_lib
  e_today :: date
  e_now :: int
  e_alive :: bool
  e_capture :: create_env
  e_capture2 :: create_env
  e_empty :: create_env
  e_empty2 :: create_env

subsection \<open>Answering\<close>

text \<open>
  An empty payload never enters the write loop, so \<^verbatim>\<open>makeEmptySealedFd\<close> always returns:
  a descriptor, or -1 when the kernel refused one.
\<close>

definition emptyFd :: "create_env \<Rightarrow> fdtable \<Rightarrow> int \<times> fdtable" where
  "emptyFd env t = (case makeEmptySealedFd env t of None \<Rightarrow> (- 1, t) | Some ((fd, _), t') \<Rightarrow> (fd, t'))"

definition fd_file :: "fdtable \<Rightarrow> int \<Rightarrow> memfile option" where
  "fd_file t fd = (if fd \<ge> 0 then t (nat fd) else None)"

text \<open>
  The wire encoder cannot send -1, and a reply to a caller that left throws; either way
  the handle is spent. The adopted descriptor is closed with the reply.
\<close>

definition answerSecret :: "svc_env \<Rightarrow> nat \<Rightarrow> reply_status \<Rightarrow> int \<Rightarrow> service \<Rightarrow> service" where
  "answerSecret E call status fd s =
     s\<lparr>ps_answers := ps_answers s @
         [\<lparr>a_call = call, a_word = replyStatusToken (e_wire E) status, a_files = [fd_file (ps_fds s) fd],
           a_sent = (fd \<ge> 0 \<and> e_alive E)\<rparr>],
       ps_fds := close_fd fd (ps_fds s)\<rparr>"

definition answerSecrets :: "svc_env \<Rightarrow> nat \<Rightarrow> reply_status \<Rightarrow> int \<Rightarrow> int \<Rightarrow> service \<Rightarrow> service" where
  "answerSecrets E call status primaryFd secondaryFd s =
     s\<lparr>ps_answers := ps_answers s @
         [\<lparr>a_call = call, a_word = replyStatusToken (e_wire E) status,
           a_files = [fd_file (ps_fds s) primaryFd, fd_file (ps_fds s) secondaryFd],
           a_sent = (primaryFd \<ge> 0 \<and> secondaryFd \<ge> 0 \<and> e_alive E)\<rparr>],
       ps_fds := close_fd secondaryFd (close_fd primaryFd (ps_fds s))\<rparr>"

definition answer_empty :: "svc_env \<Rightarrow> nat \<Rightarrow> reply_status \<Rightarrow> service \<Rightarrow> service" where
  "answer_empty E call status s =
     (let (fd, t) = emptyFd (e_empty E) (ps_fds s) in answerSecret E call status fd (s\<lparr>ps_fds := t\<rparr>))"

definition answer_empty2 :: "svc_env \<Rightarrow> nat \<Rightarrow> reply_status \<Rightarrow> service \<Rightarrow> service" where
  "answer_empty2 E call status s =
     (let (fd1, t1) = emptyFd (e_empty E) (ps_fds s); (fd2, t2) = emptyFd (e_empty2 E) t1
      in answerSecrets E call status fd1 fd2 (s\<lparr>ps_fds := t2\<rparr>))"

subsection \<open>Raising a window\<close>

definition show_window :: "svc_env \<Rightarrow> nat \<Rightarrow> win \<Rightarrow> service \<Rightarrow> service" where
  "show_window E w info s =
     s\<lparr>ps_windows := (ps_windows s)(w \<mapsto> info\<lparr>w_dialog := announce (showEvent (e_now E) (w_dialog info))\<rparr>)\<rparr>"

definition raiseWindow ::
  "svc_env \<Rightarrow> kind \<Rightarrow> options \<Rightarrow> int \<Rightarrow> string \<Rightarrow> bool \<Rightarrow> int \<Rightarrow> int \<Rightarrow> nat \<Rightarrow> service \<Rightarrow> service" where
  "raiseWindow E k opts owner pid offer entryBudget altEntryBudget call s =
     (let w = ps_next s;
          dlg = PromptDialog (e_dialog E) (e_today E) k opts;
          s = s\<lparr>ps_next := Suc w\<rparr>
      in case registry_add (ps_registry s) (Some w) owner pid of
           (None, r) \<Rightarrow> answer_empty E call RsError (s\<lparr>ps_registry := r\<rparr>)
         | (Some h, r) \<Rightarrow>
             let d1 = setEntryDeadline entryBudget dlg;
                 d2 = (if offer then setAlternateEntryDeadline altEntryBudget d1 else d1)
             in show_window E w \<lparr>w_dialog = d2, w_handle = h, w_offer = offer, w_change = False, w_call = call\<rparr>
                  (s\<lparr>ps_registry := r\<rparr>))"

definition raiseChangePinWindow ::
  "svc_env \<Rightarrow> options \<Rightarrow> int \<Rightarrow> string \<Rightarrow> int \<Rightarrow> nat \<Rightarrow> service \<Rightarrow> service" where
  "raiseChangePinWindow E opts owner pid entryBudget call s =
     (let w = ps_next s;
          dlg = PromptDialog (e_dialog E) (e_today E) ChangePin opts;
          s = s\<lparr>ps_next := Suc w\<rparr>
      in case registry_add (ps_registry s) (Some w) owner pid of
           (None, r) \<Rightarrow> answer_empty2 E call RsError (s\<lparr>ps_registry := r\<rparr>)
         | (Some h, r) \<Rightarrow>
             show_window E w
               \<lparr>w_dialog = setEntryDeadline entryBudget dlg, w_handle = h, w_offer = False, w_change = True,
                w_call = call\<rparr>
               (s\<lparr>ps_registry := r\<rparr>))"

subsection \<open>The completions\<close>

datatype code = Accepted | Rejected

definition deleteLater :: "nat \<Rightarrow> service \<Rightarrow> service" where
  "deleteLater w s = s\<lparr>ps_queue := ps_queue s @ [Delete w]\<rparr>"

definition put_dialog :: "nat \<Rightarrow> dialog \<Rightarrow> service \<Rightarrow> service" where
  "put_dialog w d s =
     (case ps_windows s w of
        None \<Rightarrow> s
      | Some info \<Rightarrow> s\<lparr>ps_windows := (ps_windows s)(w \<mapsto> info\<lparr>w_dialog := d\<rparr>)\<rparr>)"

definition finish_single :: "svc_env \<Rightarrow> nat \<Rightarrow> win \<Rightarrow> code \<Rightarrow> service \<Rightarrow> service option" where
  "finish_single E w info c s =
     (if c \<noteq> Accepted then
        Some (deleteLater w (answer_empty E (w_call info)
          (if m_expired (w_dialog info) then RsTimeout else RsCancelled) s))
      else
        case dialog_captureSecretFd (e_dialog E) (e_today E) (e_capture E) (w_dialog info) (ps_fds s) of
          None \<Rightarrow> None
        | Some (fd, d, t) \<Rightarrow>
            let s = put_dialog w d (s\<lparr>ps_fds := t\<rparr>) in
            if fd < 0 then Some (deleteLater w (answer_empty E (w_call info) RsError s))
            else
              let switched = (w_offer info \<and> mrzChosen (w_dialog info)) in
              Some (deleteLater w (answerSecret E (w_call info) (if switched then RsOkMrz else RsOk) fd s)))"

definition finish_change :: "svc_env \<Rightarrow> nat \<Rightarrow> win \<Rightarrow> code \<Rightarrow> service \<Rightarrow> service" where
  "finish_change E w info c s =
     (if c \<noteq> Accepted then
        deleteLater w (answer_empty2 E (w_call info)
          (if m_expired (w_dialog info) then RsTimeout else RsCancelled) s)
      else
        let ((primaryFd, secondaryFd), d) = takeSecretFdPair (w_dialog info);
            s = put_dialog w d s
        in if primaryFd < 0 \<or> secondaryFd < 0 then
             deleteLater w (answer_empty2 E (w_call info) RsError
               (s\<lparr>ps_fds := close_fd secondaryFd (close_fd primaryFd (ps_fds s))\<rparr>))
           else deleteLater w (answerSecrets E (w_call info) RsOk primaryFd secondaryFd s))"

text \<open>
  \<^verbatim>\<open>QDialog::finished\<close> of a window. Taking the registry entry comes first: a window whose
  entry is gone answers nothing.
\<close>

definition finished :: "svc_env \<Rightarrow> nat \<Rightarrow> code \<Rightarrow> service \<Rightarrow> service option" where
  "finished E w c s =
     (case ps_windows s w of
        None \<Rightarrow> Some s
      | Some info \<Rightarrow>
          (case registry_take (ps_registry s) (w_handle info) of
             (None, r) \<Rightarrow> Some s
           | (Some e, r) \<Rightarrow>
               let s = s\<lparr>ps_registry := r\<rparr> in
               if w_change info
               then Some (finish_change E w info c s)
               else finish_single E w info c s))"

subsection \<open>The bus methods\<close>

text \<open>\<open>creds\<close> is \<^verbatim>\<open>getCredsPid\<close>, \<^const>\<open>None\<close> for its throw; \<open>gate\<close> the caller gate.\<close>

definition authorizeCaller :: "int option \<Rightarrow> (int \<Rightarrow> bool) \<Rightarrow> int" where
  "authorizeCaller creds gate =
     (case creds of None \<Rightarrow> 0 | Some callerPid \<Rightarrow> if \<not> gate callerPid then 0 else callerPid)"

text \<open>
  Where a handler runs: on the GUI thread itself, or on a worker whose post succeeds or
  fails.
\<close>

datatype thread = Main | Worker bool

definition isActivePromptOwner :: "int \<Rightarrow> int \<Rightarrow> bool" where
  "isActivePromptOwner owner caller \<longleftrightarrow> owner \<noteq> 0 \<and> owner = caller"

definition dismissOnGuiThread :: "string \<Rightarrow> int \<Rightarrow> service \<Rightarrow> service" where
  "dismissOnGuiThread pid caller s =
     (case findByPromptId (ps_registry s) pid of
        None \<Rightarrow> s
      | Some h \<Rightarrow>
          (case registry_find (ps_registry s) h of
             None \<Rightarrow> s
           | Some e \<Rightarrow>
               if \<not> isActivePromptOwner (ownerPid e) caller then s
               else s\<lparr>ps_queue := ps_queue s @ [InvokeReject (window e)]\<rparr>))"

definition dismissEveryWindowOnGuiThread :: "service \<Rightarrow> service" where
  "dismissEveryWindowOnGuiThread s =
     s\<lparr>ps_queue := ps_queue s @
         concat (map (\<lambda>h. case registry_find (ps_registry s) h of
                            None \<Rightarrow> [] | Some e \<Rightarrow> [InvokeReject (window e)])
                     (registry_handles (ps_registry s)))\<rparr>"

text \<open>The GUI thread's event loop takes one posted task; a deleted window has no events.\<close>

definition delete_window :: "nat \<Rightarrow> service \<Rightarrow> service" where
  "delete_window w s =
     (case ps_windows s w of
        None \<Rightarrow> s
      | Some info \<Rightarrow>
          s\<lparr>ps_windows := (ps_windows s)(w := None), ps_fds := destroy_dialog (w_dialog info) (ps_fds s)\<rparr>)"

fun run_gui :: "svc_env \<Rightarrow> gui_task \<Rightarrow> service \<Rightarrow> service option" where
  "run_gui E (Raise k opts owner pid offer B A call) s = Some (raiseWindow E k opts owner pid offer B A call s)"
| "run_gui E (RaiseChange opts owner pid B call) s = Some (raiseChangePinWindow E opts owner pid B call s)"
| "run_gui E (DismissNamed pid caller) s = Some (dismissOnGuiThread pid caller s)"
| "run_gui E DismissAll s = Some (dismissEveryWindowOnGuiThread s)"
| "run_gui E (InvokeReject w) s = finished E w Rejected s"
| "run_gui E (Delete w) s = Some (delete_window w s)"

definition RequestSecret ::
  "svc_env \<Rightarrow> thread \<Rightarrow> nat \<Rightarrow> int option \<Rightarrow> (int \<Rightarrow> bool) \<Rightarrow> string \<Rightarrow> options_dict \<Rightarrow> service \<Rightarrow> service option" where
  "RequestSecret E th call creds gate knd opts_d s =
     (let owner = authorizeCaller creds gate in
      if owner = 0 then Some (answer_empty E call RsUnauthorized s)
      else
        case parseKind (e_wire E) knd of
          None \<Rightarrow> Some (answer_empty E call RsError s)
        | Some k \<Rightarrow>
            let opts = buildOptions opts_d;
                pid = optionString opts_d kOptPromptId;
                entryBudget = uint (optionUInt opts_d kOptDeadlineMs 0);
                altEntryBudget = uint (optionUInt opts_d kOptAltDeadlineMs 0);
                offer = (k = Can \<and> kKindMrz (e_wire E) \<in> set (altKinds opts));
                opts = opts\<lparr>offerMrzSwitch := offer\<rparr>;
                task = Raise k opts owner pid offer entryBudget altEntryBudget call
            in (case th of
                  Main \<Rightarrow> run_gui E task s
                | Worker posted \<Rightarrow>
                    if posted then Some (s\<lparr>ps_queue := ps_queue s @ [task]\<rparr>)
                    else Some (answer_empty E call RsError s)))"

definition RequestSecrets ::
  "svc_env \<Rightarrow> thread \<Rightarrow> nat \<Rightarrow> int option \<Rightarrow> (int \<Rightarrow> bool) \<Rightarrow> string \<Rightarrow> options_dict \<Rightarrow> service \<Rightarrow> service option" where
  "RequestSecrets E th call creds gate knd opts_d s =
     (let owner = authorizeCaller creds gate in
      if owner = 0 then Some (answer_empty2 E call RsUnauthorized s)
      else if knd \<noteq> kKindChangePin (e_wire E) then Some (answer_empty2 E call RsError s)
      else
        let opts = buildMultiOptions opts_d;
            pid = optionString opts_d kOptPromptId;
            entryBudget = uint (optionUInt opts_d kOptDeadlineMs 0);
            task = RaiseChange opts owner pid entryBudget call
        in (case th of
              Main \<Rightarrow> run_gui E task s
            | Worker posted \<Rightarrow>
                if posted then Some (s\<lparr>ps_queue := ps_queue s @ [task]\<rparr>)
                else Some (answer_empty2 E call RsError s)))"

definition dispatch :: "svc_env \<Rightarrow> thread \<Rightarrow> gui_task \<Rightarrow> service \<Rightarrow> service option" where
  "dispatch E th task s =
     (case th of
        Main \<Rightarrow> run_gui E task s
      | Worker posted \<Rightarrow> Some (if posted then s\<lparr>ps_queue := ps_queue s @ [task]\<rparr> else s))"

definition Cancel ::
  "svc_env \<Rightarrow> thread \<Rightarrow> int option \<Rightarrow> (int \<Rightarrow> bool) \<Rightarrow> string \<Rightarrow> service \<Rightarrow> service option" where
  "Cancel E th creds gate pid s =
     (let caller = authorizeCaller creds gate in
      if caller = 0 then Some s else dispatch E th (DismissNamed pid caller) s)"

definition Reset :: "svc_env \<Rightarrow> thread \<Rightarrow> int option \<Rightarrow> (int \<Rightarrow> bool) \<Rightarrow> service \<Rightarrow> service option" where
  "Reset E th creds gate s =
     (if authorizeCaller creds gate = 0 then Some s else dispatch E th DismissAll s)"

subsection \<open>The holder and the clock\<close>

definition user_accept :: "svc_env \<Rightarrow> nat \<Rightarrow> service \<Rightarrow> service option" where
  "user_accept E w s =
     (case ps_windows s w of
        None \<Rightarrow> Some s
      | Some info \<Rightarrow>
          (case dialog_accept (e_dialog E) (e_today E) (e_capture E) (e_capture2 E) (w_dialog info) (ps_fds s) of
             None \<Rightarrow> None
           | Some (closes, d, t) \<Rightarrow>
               let s = put_dialog w d (s\<lparr>ps_fds := t\<rparr>) in
               if closes then finished E w Accepted s else Some s))"

definition user_reject :: "svc_env \<Rightarrow> nat \<Rightarrow> service \<Rightarrow> service option" where
  "user_reject E w s = finished E w Rejected s"

definition deadline_fires :: "svc_env \<Rightarrow> nat \<Rightarrow> service \<Rightarrow> service option" where
  "deadline_fires E w s =
     (case ps_windows s w of
        None \<Rightarrow> Some s
      | Some info \<Rightarrow> finished E w Rejected (put_dialog w (onDeadline (w_dialog info)) s))"

subsection \<open>Runs\<close>

text \<open>
  \<open>reach W cs s\<close>: the service can be in state \<open>s\<close> after the calls \<open>cs\<close> have come in, in any
  interleaving of the bus worker, the GUI thread, the holder and the clock. A reply handle
  is fresh, the 64-bit handle counter has room, and the holder can accept only through an
  enabled OK button.
\<close>

inductive reach :: "wire_lib \<Rightarrow> nat list \<Rightarrow> service \<Rightarrow> bool" for W where
  Init: "reach W [] init_service"
| Secret: "reach W cs s \<Longrightarrow> call \<notin> set cs \<Longrightarrow> reg_room (ps_registry s) \<Longrightarrow> e_wire E = W \<Longrightarrow>
    RequestSecret E th call creds gate knd opts s = Some s' \<Longrightarrow> reach W (call # cs) s'"
| Secrets: "reach W cs s \<Longrightarrow> call \<notin> set cs \<Longrightarrow> reg_room (ps_registry s) \<Longrightarrow> e_wire E = W \<Longrightarrow>
    RequestSecrets E th call creds gate knd opts s = Some s' \<Longrightarrow> reach W (call # cs) s'"
| CancelCall: "reach W cs s \<Longrightarrow> e_wire E = W \<Longrightarrow> Cancel E th creds gate pid s = Some s' \<Longrightarrow> reach W cs s'"
| ResetCall: "reach W cs s \<Longrightarrow> e_wire E = W \<Longrightarrow> Reset E th creds gate s = Some s' \<Longrightarrow> reach W cs s'"
| Gui: "reach W cs s \<Longrightarrow> ps_queue s = task # q \<Longrightarrow> reg_room (ps_registry s) \<Longrightarrow> e_wire E = W \<Longrightarrow>
    run_gui E task (s\<lparr>ps_queue := q\<rparr>) = Some s' \<Longrightarrow> reach W cs s'"
| Accept: "reach W cs s \<Longrightarrow> ps_windows s w = Some info \<Longrightarrow> d_okEnabled (w_dialog info) \<Longrightarrow> e_wire E = W \<Longrightarrow>
    user_accept E w s = Some s' \<Longrightarrow> reach W cs s'"
| Reject: "reach W cs s \<Longrightarrow> e_wire E = W \<Longrightarrow> user_reject E w s = Some s' \<Longrightarrow> reach W cs s'"
| Deadline: "reach W cs s \<Longrightarrow> e_wire E = W \<Longrightarrow> deadline_fires E w s = Some s' \<Longrightarrow> reach W cs s'"
| Window: "reach W cs s \<Longrightarrow> ps_windows s w = Some info \<Longrightarrow> win_step D (w_dialog info) d \<Longrightarrow>
    reach W cs (put_dialog w d s)"

text \<open>What the invariant needs of a window: the handle it is registered under and its call.\<close>

definition winfo :: "service \<Rightarrow> nat \<Rightarrow> (u64 \<times> nat) option" where
  "winfo s w = map_option (\<lambda>i. (w_handle i, w_call i)) (ps_windows s w)"

definition call_of :: "service \<Rightarrow> entry \<Rightarrow> nat" where
  "call_of s = (\<lambda>e. case winfo s (window e) of None \<Rightarrow> 0 | Some (h, c) \<Rightarrow> c)"

fun task_calls :: "gui_task \<Rightarrow> nat list" where
  "task_calls (Raise _ _ _ _ _ _ _ call) = [call]"
| "task_calls (RaiseChange _ _ _ _ call) = [call]"
| "task_calls _ = []"

definition queued_calls :: "service \<Rightarrow> nat list" where
  "queued_calls s = concat (map task_calls (ps_queue s))"

definition open_calls :: "service \<Rightarrow> nat list" where
  "open_calls s = map (call_of s) (m_entries (ps_registry s))"

definition answered_calls :: "service \<Rightarrow> nat list" where
  "answered_calls s = map a_call (ps_answers s)"

text \<open>
  The invariant: registry and windows agree, and every call is in exactly one place. \<open>held\<close>
  are the calls whose handle the running handler holds.
\<close>

definition svc_inv :: "nat list \<Rightarrow> nat list \<Rightarrow> service \<Rightarrow> bool" where
  "svc_inv cs held s \<longleftrightarrow>
     reg_ok (ps_registry s) \<and>
     list_all2 (\<lambda>h e. \<exists>c. winfo s (window e) = Some (h, c)) (m_handles (ps_registry s)) (m_entries (ps_registry s)) \<and>
     (\<forall>w. winfo s w \<noteq> None \<longrightarrow> w < ps_next s) \<and>
     (\<forall>w h c. winfo s w = Some (h, c) \<longrightarrow> h < m_nextHandle (ps_registry s)) \<and>
     (\<forall>w w' h c c'. winfo s w = Some (h, c) \<longrightarrow> winfo s w' = Some (h, c') \<longrightarrow> w = w') \<and>
     (\<forall>w. Delete w \<in> set (ps_queue s) \<longrightarrow> w \<notin> window ` set (m_entries (ps_registry s)) \<and> w < ps_next s) \<and>
     mset (answered_calls s) + mset (queued_calls s) + mset (open_calls s) + mset held = mset cs"

lemma answer_frame [simp]:
  "ps_registry (answerSecret E c st fd s) = ps_registry s" "ps_windows (answerSecret E c st fd s) = ps_windows s"
  "ps_queue (answerSecret E c st fd s) = ps_queue s" "ps_next (answerSecret E c st fd s) = ps_next s"
  "answered_calls (answerSecret E c st fd s) = answered_calls s @ [c]"
  "ps_registry (answerSecrets E c st fd fd2 s) = ps_registry s" "ps_windows (answerSecrets E c st fd fd2 s) = ps_windows s"
  "ps_queue (answerSecrets E c st fd fd2 s) = ps_queue s" "ps_next (answerSecrets E c st fd fd2 s) = ps_next s"
  "answered_calls (answerSecrets E c st fd fd2 s) = answered_calls s @ [c]"
  by (simp_all add: answerSecret_def answerSecrets_def answered_calls_def)

lemma answer_empty_frame [simp]:
  "ps_registry (answer_empty E c st s) = ps_registry s" "ps_windows (answer_empty E c st s) = ps_windows s"
  "ps_queue (answer_empty E c st s) = ps_queue s" "ps_next (answer_empty E c st s) = ps_next s"
  "answered_calls (answer_empty E c st s) = answered_calls s @ [c]"
  "ps_registry (answer_empty2 E c st s) = ps_registry s" "ps_windows (answer_empty2 E c st s) = ps_windows s"
  "ps_queue (answer_empty2 E c st s) = ps_queue s" "ps_next (answer_empty2 E c st s) = ps_next s"
  "answered_calls (answer_empty2 E c st s) = answered_calls s @ [c]"
  by (simp_all add: answer_empty_def answer_empty2_def split: prod.split) (simp_all add: answered_calls_def)

lemma svc_inv_answered:
  assumes "svc_inv cs (c # held) s" "ps_registry s' = ps_registry s" "ps_windows s' = ps_windows s"
    "ps_queue s' = ps_queue s" "ps_next s' = ps_next s" "answered_calls s' = answered_calls s @ [c]"
  shows "svc_inv cs held s'"
  using assms by (simp add: svc_inv_def winfo_def queued_calls_def open_calls_def call_of_def del: map_option_eq_Some)

lemma svc_inv_answer:
  assumes "svc_inv cs (c # held) s"
  shows "svc_inv cs held (answerSecret E c st fd s)" "svc_inv cs held (answerSecrets E c st fd fd2 s)"
    "svc_inv cs held (answer_empty E c st s)" "svc_inv cs held (answer_empty2 E c st s)"
  by (rule svc_inv_answered [OF assms]; simp)+

text \<open>Steps that touch neither the calls nor the registration.\<close>

lemma svc_inv_frame:
  assumes "svc_inv cs held s" "ps_registry s' = ps_registry s" "winfo s' = winfo s"
    "ps_queue s' = ps_queue s" "ps_next s' = ps_next s" "answered_calls s' = answered_calls s"
  shows "svc_inv cs held s'"
  using assms by (simp add: svc_inv_def queued_calls_def open_calls_def call_of_def)

lemma put_dialog_frame [simp]:
  "ps_registry (put_dialog w d s) = ps_registry s" "winfo (put_dialog w d s) = winfo s"
  "ps_queue (put_dialog w d s) = ps_queue s" "ps_next (put_dialog w d s) = ps_next s"
  "answered_calls (put_dialog w d s) = answered_calls s" "ps_answers (put_dialog w d s) = ps_answers s"
  "ps_fds (put_dialog w d s) = ps_fds s"
  by (auto simp: put_dialog_def winfo_def answered_calls_def fun_eq_iff split: option.split)

lemma svc_inv_put [simp]: "svc_inv cs held s \<Longrightarrow> svc_inv cs held (put_dialog w d s)"
  by (rule svc_inv_frame) simp_all

lemma svc_inv_fds [simp]: "svc_inv cs held (s\<lparr>ps_fds := t\<rparr>) = svc_inv cs held s"
  by (auto simp: winfo_def answered_calls_def fun_eq_iff elim!: svc_inv_frame)

lemma svc_inv_post:
  assumes "svc_inv cs (task_calls task @ held) s"
    and "\<And>w. task = Delete w \<Longrightarrow> w \<notin> window ` set (m_entries (ps_registry s)) \<and> w < ps_next s"
  shows "svc_inv cs held (s\<lparr>ps_queue := ps_queue s @ [task]\<rparr>)"
  using assms
  by (auto simp: svc_inv_def winfo_def queued_calls_def open_calls_def call_of_def answered_calls_def ac_simps)

lemma svc_inv_deleteLater:
  "svc_inv cs held s \<Longrightarrow> w \<notin> window ` set (m_entries (ps_registry s)) \<Longrightarrow> w < ps_next s \<Longrightarrow>
     svc_inv cs held (deleteLater w s)"
  unfolding deleteLater_def by (rule svc_inv_post) simp_all

lemma winfo_upd [simp]:
  "winfo (s\<lparr>ps_registry := r\<rparr>) = winfo s" "winfo (s\<lparr>ps_queue := q\<rparr>) = winfo s" "winfo (s\<lparr>ps_next := n\<rparr>) = winfo s"
  "winfo (s\<lparr>ps_windows := W\<rparr>) w = map_option (\<lambda>i. (w_handle i, w_call i)) (W w)"
  by (simp_all add: winfo_def fun_eq_iff)

lemma registry_take_SomeD:
  assumes "registry_take r h = (Some e, r')" "reg_ok r"
  obtains i where "i < length (m_handles r)" "m_handles r ! i = h" "e = m_entries r ! i"
    "m_entries r' = erase_at i (m_entries r)" "m_handles r' = erase_at i (m_handles r)"
    "m_nextHandle r' = m_nextHandle r"
  using assms by (auto simp: registry_take_def split: option.splits dest: index_of_SomeD)

lemma list_all2_erase_at: "list_all2 P xs ys \<Longrightarrow> list_all2 P (erase_at i xs) (erase_at i ys)"
  by (auto simp: erase_at_def intro: list_all2_appendI list_all2_takeI list_all2_dropI)

lemma nth_notin_erase_at:
  "distinct xs \<Longrightarrow> i < length xs \<Longrightarrow> xs ! i \<notin> set (erase_at i xs)"
  using erase_at_filter [of "\<lambda>x. x" xs i] by simp

text \<open>The windows of the entries are distinct, since their handles are.\<close>

lemma entry_windows_distinct:
  assumes "svc_inv cs held s"
  shows "distinct (map window (m_entries (ps_registry s)))"
proof (rule distinct_conv_nth [THEN iffD2], intro allI impI)
  fix i j
  assume ij: "i < length (map window (m_entries (ps_registry s)))" "j < length (map window (m_entries (ps_registry s)))" "i \<noteq> j"
  let ?h = "m_handles (ps_registry s)" and ?e = "m_entries (ps_registry s)"
  have "list_all2 (\<lambda>h e. \<exists>c. winfo s (window e) = Some (h, c)) ?h ?e" "distinct ?h" "length ?h = length ?e"
    using assms by (auto simp: svc_inv_def reg_ok_def)
  then have "\<exists>c. winfo s (window (?e ! i)) = Some (?h ! i, c)" "\<exists>c. winfo s (window (?e ! j)) = Some (?h ! j, c)"
    "?h ! i \<noteq> ?h ! j"
    using ij by (auto simp: list_all2_conv_all_nth nth_eq_iff_index_eq)
  then show "map window ?e ! i \<noteq> map window ?e ! j" using ij by auto
qed

lemma svc_inv_take:
  assumes inv: "svc_inv cs held s" and w: "ps_windows s w = Some info"
    and take: "registry_take (ps_registry s) (w_handle info) = (Some e, r)"
  shows "svc_inv cs (w_call info # held) (s\<lparr>ps_registry := r\<rparr>) \<and> w \<notin> window ` set (m_entries r) \<and> w < ps_next s"
proof -
  let ?R = "ps_registry s"
  have ok: "reg_ok ?R" using inv by (simp add: svc_inv_def)
  from take ok obtain i where i: "i < length (m_handles ?R)" "m_handles ?R ! i = w_handle info" "e = m_entries ?R ! i"
    and r: "m_entries r = erase_at i (m_entries ?R)" "m_handles r = erase_at i (m_handles ?R)"
      "m_nextHandle r = m_nextHandle ?R"
    by (rule registry_take_SomeD)
  have ok': "reg_ok r" using reg_ok_take [OF ok, of "w_handle info"] take by simp
  have len: "length (m_handles ?R) = length (m_entries ?R)" using ok by (simp add: reg_ok_def)
  have all: "list_all2 (\<lambda>h e. \<exists>c. winfo s (window e) = Some (h, c)) (m_handles ?R) (m_entries ?R)"
    using inv by (simp add: svc_inv_def)
  then obtain c where c: "winfo s (window e) = Some (w_handle info, c)"
    using i len by (auto simp: list_all2_conv_all_nth)
  moreover have wi: "winfo s w = Some (w_handle info, w_call info)" using w by (simp add: winfo_def)
  ultimately have we: "window e = w" using inv by (auto simp: svc_inv_def)
  have calls: "mset (open_calls s) = add_mset (w_call info) (mset (map (call_of s) (m_entries r)))"
    unfolding open_calls_def r(1) using mset_map_erase_at [of i "m_entries ?R" "call_of s"] i len wi we
    by (simp add: call_of_def)
  have notin: "w \<notin> window ` set (m_entries r)"
    using nth_notin_erase_at [OF entry_windows_distinct [OF inv], of i] i len we
    by (simp add: r(1) erase_at_map [symmetric] set_map [symmetric] del: set_map)
  have "\<forall>x \<in> set (m_entries r). Delete (window x) \<notin> set (ps_queue s)"
    using inv set_erase_at_subset [of i "m_entries ?R"] unfolding svc_inv_def r(1) by blast
  then have "svc_inv cs (w_call info # held) (s\<lparr>ps_registry := r\<rparr>)"
    using inv ok' r(3) calls list_all2_erase_at [OF all, of i]
    by (auto simp: svc_inv_def r(1,2) answered_calls_def queued_calls_def open_calls_def call_of_def)
  with notin wi inv show ?thesis by (auto simp: svc_inv_def)
qed

lemma svc_inv_register:
  assumes inv: "svc_inv cs (c # held) s" and room: "reg_room (ps_registry s)"
    and add: "registry_add (ps_registry s) (Some (ps_next s)) owner pid = (Some h, r)"
    and info: "w_handle info = h" "w_call info = c"
  shows "svc_inv cs held (s\<lparr>ps_next := Suc (ps_next s), ps_registry := r,
    ps_windows := (ps_windows s)(ps_next s \<mapsto> info)\<rparr>)" (is "svc_inv _ _ ?s")
proof -
  let ?R = "ps_registry s" and ?w = "ps_next s"
  have ok: "reg_ok ?R" using inv by (simp add: svc_inv_def)
  have ok': "reg_ok r" using reg_ok_add [OF ok room, of "Some ?w" owner pid] add by simp
  from add have h: "h = m_nextHandle ?R"
    and r: "m_entries r = m_entries ?R @ [\<lparr>window = ?w, ownerPid = owner, promptId = pid\<rparr>]"
      "m_handles r = m_handles ?R @ [h]" "m_nextHandle r = h + 1"
    by (auto elim!: registry_add_SomeD)
  have lt: "m_nextHandle ?R < h + 1" using next_handle_gt [OF room] h by simp
  have "winfo s ?w \<noteq> None \<longrightarrow> ?w < ?w" using inv unfolding svc_inv_def by blast
  then have fresh: "winfo s ?w = None" by (cases "winfo s ?w") auto
  have fresh2: "winfo s w' \<noteq> Some (h, c')" for w' c' using inv h by (auto simp: svc_inv_def)
  have older: "h' < h + 1" if "winfo s w' = Some (h', c')" for w' h' c'
    using that inv lt unfolding svc_inv_def by (meson order_less_trans)
  have winfo: "winfo ?s = (winfo s)(?w \<mapsto> (h, c))" using info by (auto simp: winfo_def)
  have old: "window e \<noteq> ?w" if "e \<in> set (m_entries ?R)" for e
    using that inv fresh by (fastforce simp: svc_inv_def list_all2_conv_all_nth in_set_conv_nth)
  have "map (call_of ?s) (m_entries ?R) = map (call_of s) (m_entries ?R)"
    using old by (simp add: call_of_def winfo)
  then have calls: "open_calls ?s = open_calls s @ [c]"
    by (simp add: open_calls_def r(1)) (simp add: call_of_def winfo)
  have "list_all2 (\<lambda>h e. \<exists>c. winfo ?s (window e) = Some (h, c)) (m_handles r) (m_entries r)"
    using inv old unfolding r winfo
    by (auto simp: svc_inv_def intro!: list_all2_appendI elim!: list_all2_mono [rotated])
       (auto elim!: list.rel_mono_strong)
  then show ?thesis
    using inv ok' calls fresh fresh2 older lt h r(3) old winfo
    unfolding svc_inv_def
    by (auto simp: answered_calls_def queued_calls_def r(1) less_Suc_eq split: if_splits)
qed

lemma svc_inv_next: "svc_inv cs held s \<Longrightarrow> svc_inv cs held (s\<lparr>ps_next := Suc (ps_next s)\<rparr>)"
  unfolding svc_inv_def
  by (simp add: answered_calls_def queued_calls_def open_calls_def call_of_def) (meson less_Suc_eq)

lemma svc_inv_raise:
  assumes inv: "svc_inv cs (c # held) s" and room: "reg_room (ps_registry s)"
  shows "svc_inv cs held (raiseWindow E k opts owner pid offer B A c s)"
    and "svc_inv cs held (raiseChangePinWindow E opts owner pid B c s)"
proof -
  obtain res r where add: "registry_add (ps_registry s) (Some (ps_next s)) owner pid = (res, r)" by fastforce
  show "svc_inv cs held (raiseWindow E k opts owner pid offer B A c s)"
  proof (cases res)
    case None
    then have "r = ps_registry s" using add registry_add_refused by blast
    with None add svc_inv_next [OF inv] show ?thesis by (simp add: raiseWindow_def Let_def svc_inv_answer)
  next
    case (Some h)
    with add svc_inv_register [OF inv room] show ?thesis by (simp add: raiseWindow_def Let_def show_window_def)
  qed
  show "svc_inv cs held (raiseChangePinWindow E opts owner pid B c s)"
  proof (cases res)
    case None
    then have "r = ps_registry s" using add registry_add_refused by blast
    with None add svc_inv_next [OF inv] show ?thesis by (simp add: raiseChangePinWindow_def Let_def svc_inv_answer)
  next
    case (Some h)
    with add svc_inv_register [OF inv room] show ?thesis by (simp add: raiseChangePinWindow_def Let_def show_window_def)
  qed
qed

lemma svc_inv_finished [ll_inv]:
  assumes inv: "svc_inv cs [] s" and fin: "finished E w c s = Some s'"
  shows "svc_inv cs [] s'"
proof (cases "ps_windows s w")
  case None
  with inv fin show ?thesis by (simp add: finished_def)
next
  case (Some info)
  obtain res r where tk: "registry_take (ps_registry s) (w_handle info) = (res, r)" by fastforce
  show ?thesis
  proof (cases res)
    case None
    with Some tk inv fin show ?thesis by (simp add: finished_def)
  next
    case (Some e)
    let ?s = "s\<lparr>ps_registry := r\<rparr>"
    note t = svc_inv_take [OF inv \<open>ps_windows s w = Some info\<close> tk [unfolded Some]]
    note rules = svc_inv_deleteLater svc_inv_answer svc_inv_put
    from t have t1: "svc_inv cs [w_call info] ?s" and t2: "w \<notin> window ` set (m_entries r)" "w < ps_next s" by simp_all
    show ?thesis
    proof (cases "w_change info")
      case True
      with fin Some tk \<open>ps_windows s w = Some info\<close> have "s' = finish_change E w info c ?s"
        by (simp add: finished_def Let_def)
      then show ?thesis using t1 t2
        by (cases "m_captured (w_dialog info)")
           (auto simp: finish_change_def takeSecretFdPair_def Let_def intro!: rules)
    next
      case False
      with fin Some tk \<open>ps_windows s w = Some info\<close> have "finish_single E w info c ?s = Some s'"
        by (simp add: finished_def Let_def)
      then show ?thesis using t1 t2
        by (auto simp: finish_single_def Let_def split: if_splits option.splits intro!: rules)
    qed
  qed
qed

lemma svc_inv_pop:
  assumes "svc_inv cs [] s" "ps_queue s = task # q"
  shows "svc_inv cs (task_calls task) (s\<lparr>ps_queue := q\<rparr>)"
  using assms
  by (auto simp: svc_inv_def answered_calls_def queued_calls_def open_calls_def call_of_def ac_simps)

lemma svc_inv_rejects:
  "svc_inv cs held s \<Longrightarrow> list_all (\<lambda>t. case t of InvokeReject _ \<Rightarrow> True | _ \<Rightarrow> False) ts \<Longrightarrow>
     svc_inv cs held (s\<lparr>ps_queue := ps_queue s @ ts\<rparr>)"
proof (induction ts arbitrary: s)
  case (Cons t ts)
  then have "svc_inv cs held (s\<lparr>ps_queue := ps_queue s @ [t]\<rparr>)"
    by (intro svc_inv_post) (auto split: gui_task.splits)
  from Cons.IH [OF this] Cons.prems(2) show ?case by simp
qed (auto elim!: svc_inv_frame simp: answered_calls_def)

lemma svc_inv_delete:
  assumes inv: "svc_inv cs held s" and w: "w \<notin> window ` set (m_entries (ps_registry s))"
  shows "svc_inv cs held (delete_window w s)"
proof (cases "ps_windows s w")
  case (Some info)
  let ?s = "s\<lparr>ps_windows := (ps_windows s)(w := None)\<rparr>"
  have winfo: "winfo ?s = (winfo s)(w := None)" by (auto simp: winfo_def)
  have old: "window e \<noteq> w" if "e \<in> set (m_entries (ps_registry s))" for e using w that by auto
  have calls: "open_calls ?s = open_calls s" using old by (simp add: open_calls_def call_of_def winfo)
  have "list_all2 (\<lambda>h e. \<exists>c. winfo ?s (window e) = Some (h, c)) (m_handles (ps_registry s)) (m_entries (ps_registry s))"
    using inv old unfolding winfo svc_inv_def by (auto elim!: list.rel_mono_strong)
  with inv have "svc_inv cs held ?s"
    unfolding svc_inv_def calls by (auto simp: winfo answered_calls_def queued_calls_def split: if_splits)
  then show ?thesis using Some by (simp add: delete_window_def)
qed (use inv in \<open>simp add: delete_window_def\<close>)

lemma svc_inv_gui [ll_inv]:
  assumes inv: "svc_inv cs (task_calls task) s" and room: "reg_room (ps_registry s)"
    and del: "\<And>w. task = Delete w \<Longrightarrow> w \<notin> window ` set (m_entries (ps_registry s))"
    and run: "run_gui E task s = Some s'"
  shows "svc_inv cs [] s'"
proof (cases task)
  case (DismissNamed pid caller)
  with inv have "svc_inv cs [] (s\<lparr>ps_queue := ps_queue s @ [InvokeReject w]\<rparr>)" for w
    by (intro svc_inv_post) simp_all
  with DismissNamed inv run show ?thesis
    by (auto simp: dismissOnGuiThread_def split: option.splits)
next
  case DismissAll
  with inv run show ?thesis
    by (auto simp: dismissEveryWindowOnGuiThread_def list_all_iff intro!: svc_inv_rejects split: option.splits)
next
  case (InvokeReject w)
  with inv run show ?thesis by (simp add: svc_inv_finished)
next
  case (Delete w)
  with inv run del show ?thesis by (auto intro: svc_inv_delete)
qed (use inv run room svc_inv_raise in auto)

lemma svc_inv_issue: "svc_inv cs [] s \<Longrightarrow> svc_inv (call # cs) [call] s"
  by (simp add: svc_inv_def)

lemma svc_inv_dispatch:
  assumes "svc_inv cs (task_calls task) s" "reg_room (ps_registry s) \<or> task_calls task = []"
    "\<And>w. task \<noteq> Delete w" "dispatch E th task s = Some s'" "th = Worker False \<longrightarrow> task_calls task = []"
  shows "svc_inv cs [] s'"
proof (cases th)
  case Main
  show ?thesis
  proof (cases "reg_room (ps_registry s)")
    case True
    with assms Main show ?thesis by (auto simp: dispatch_def intro: svc_inv_gui)
  next
    case False
    with assms Main show ?thesis
      by (cases task)
         (auto simp: dispatch_def svc_inv_finished dismissOnGuiThread_def dismissEveryWindowOnGuiThread_def list_all_iff
           intro!: svc_inv_rejects [where ts = "[t]" for t] svc_inv_rejects split: option.splits)
  qed
next
  case (Worker posted)
  with assms show ?thesis
    by (cases posted) (auto simp: dispatch_def intro!: svc_inv_post)
qed

lemma svc_inv_request:
  assumes inv: "svc_inv cs [] s" and room: "reg_room (ps_registry s)"
  shows "RequestSecret E th call creds gate knd opts s = Some s' \<Longrightarrow> svc_inv (call # cs) [] s'"
    and "RequestSecrets E th call creds gate knd opts s = Some s' \<Longrightarrow> svc_inv (call # cs) [] s'"
proof -
  note i = svc_inv_issue [OF inv, of call]
  have gui: "svc_inv (call # cs) [] s'"
    if "run_gui E task s = Some s'" "task_calls task = [call]" for task s'
    using svc_inv_gui [of "call # cs" task s E s'] that i room by fastforce
  have post: "svc_inv (call # cs) [] (s\<lparr>ps_queue := ps_queue s @ [task]\<rparr>)" if "task_calls task = [call]" for task
    using that i by (intro svc_inv_post) auto
  show "RequestSecret E th call creds gate knd opts s = Some s' \<Longrightarrow> svc_inv (call # cs) [] s'"
    unfolding RequestSecret_def Let_def using i
    by (cases th) (auto split: if_splits option.splits simp del: run_gui.simps intro!: svc_inv_answer post dest: gui)
  show "RequestSecrets E th call creds gate knd opts s = Some s' \<Longrightarrow> svc_inv (call # cs) [] s'"
    unfolding RequestSecrets_def Let_def using i
    by (cases th) (auto split: if_splits option.splits simp del: run_gui.simps intro!: svc_inv_answer post dest: gui)
qed

lemma reach_inv: "reach W cs s \<Longrightarrow> svc_inv cs [] s \<and> distinct cs"
proof (induction rule: reach.induct)
  case Init
  show ?case
    by (simp add: svc_inv_def init_service_def winfo_def answered_calls_def queued_calls_def open_calls_def)
       (simp add: empty_registry_def)
next
  case (Secret cs s call E th creds gate knd opts s')
  then show ?case using svc_inv_request(1) by auto
next
  case (Secrets cs s call E th creds gate knd opts s')
  then show ?case using svc_inv_request(2) by auto
next
  case (CancelCall cs s E th creds gate pid s')
  then show ?case
    using svc_inv_dispatch [of cs "DismissNamed pid (authorizeCaller creds gate)" s E th s']
    by (auto simp: Cancel_def Let_def split: if_splits)
next
  case (ResetCall cs s E th creds gate s')
  then show ?case
    using svc_inv_dispatch [of cs DismissAll s E th s'] by (auto simp: Reset_def split: if_splits)
next
  case (Gui cs s task q E s')
  then have "svc_inv cs (task_calls task) (s\<lparr>ps_queue := q\<rparr>)" by (simp add: svc_inv_pop)
  moreover have "w \<notin> window ` set (m_entries (ps_registry s))" if "task = Delete w" for w
    using Gui that by (simp add: svc_inv_def)
  ultimately show ?case using Gui svc_inv_gui [of cs task "s\<lparr>ps_queue := q\<rparr>" E s'] by simp
next
  case (Accept cs s w info E s')
  then show ?case
    by (auto simp: user_accept_def Let_def split: option.splits if_splits
          intro: svc_inv_put elim!: svc_inv_finished [rotated])
next
  case (Reject cs s E w s')
  then show ?case by (auto simp: user_reject_def intro: svc_inv_finished)
next
  case (Deadline cs s E w s')
  then show ?case by (auto simp: deadline_fires_def split: option.splits elim!: svc_inv_finished [rotated])
qed simp

text \<open>
  C1: every prompt request is accounted for, and is answered at most once. In every state
  the service can reach, each call is in exactly one place: waiting for the GUI thread,
  open in a registered window, or answered; the windows and the queue never share a call
  and no reply handle is used twice, whatever completions, dismissals, resets and
  deadlines race. Once nothing waits and no window is open, every call has been answered
  exactly once.
\<close>

theorem every_call_answered_once:
  assumes "reach W cs s"
  shows "mset (answered_calls s) + mset (queued_calls s) + mset (open_calls s) = mset cs \<and>
    distinct (answered_calls s @ queued_calls s @ open_calls s) \<and>
    (queued_calls s = [] \<and> registry_empty (ps_registry s) \<longrightarrow> mset (answered_calls s) = mset cs)"
proof -
  from reach_inv [OF assms] have inv: "svc_inv cs [] s" and d: "distinct cs" by simp_all
  then have eq: "mset (answered_calls s @ queued_calls s @ open_calls s) = mset cs"
    by (simp add: svc_inv_def ac_simps)
  with d have "distinct (answered_calls s @ queued_calls s @ open_calls s)"
    using mset_eq_imp_distinct_iff by blast
  moreover have "registry_empty (ps_registry s) \<Longrightarrow> open_calls s = []"
    using inv by (simp add: registry_empty_def open_calls_def svc_inv_def reg_ok_def)
  ultimately show ?thesis using eq by (auto simp: ac_simps)
qed

definition refusing_env :: svc_env where
  "refusing_env =
     \<lparr>e_wire = sample_wire, e_dialog = sample_dialog_lib, e_today = 2460000, e_now = 0, e_alive = True,
      e_capture = sample_create_env, e_capture2 = sample_create_env2, e_empty = sample_create_env,
      e_empty2 = sample_create_env2\<rparr>"

definition refused_service :: service where
  "refused_service = answer_empty refusing_env 7 RsUnauthorized init_service"

lemma reach_refused: "reach sample_wire [7] refused_service"
proof (rule reach.Secret [OF reach.Init])
  show "RequestSecret refusing_env Main 7 None (\<lambda>_. True) ''pin'' [] init_service = Some refused_service"
    by (simp add: RequestSecret_def authorizeCaller_def refused_service_def)
qed (simp_all add: refusing_env_def init_service_def)

theorem every_call_answered_once_witness:
  "mset (answered_calls refused_service) = {#7#} \<and> queued_calls refused_service = []"
  using every_call_answered_once [OF reach_refused]
  by (simp add: refused_service_def queued_calls_def registry_empty_def init_service_def empty_registry_def)

subsection \<open>What an answer carries\<close>

definition no_bytes :: "memfile option \<Rightarrow> bool" where
  "no_bytes f = (case f of None \<Rightarrow> True | Some m \<Rightarrow> mf_data m = [])"

definition good_answer :: "wire_lib \<Rightarrow> answer \<Rightarrow> bool" where
  "good_answer W a \<longleftrightarrow>
     a_word a = replyStatusToken W RsOk \<or> a_word a = replyStatusToken W RsOkMrz \<or> list_all no_bytes (a_files a)"

lemma emptyFd_no_bytes:
  assumes "emptyFd env t = (fd, t')"
  shows "no_bytes (fd_file t' fd)" "no_bytes (fd_file t x) \<Longrightarrow> no_bytes (fd_file t' x)"
proof -
  have "write_loop (env_writes env) [] 0 [] = Some (Inr [])" by (cases "env_writes env") simp_all
  then have "makeSealedMemfd env ''librescrs-secret'' [] t \<noteq> None"
    by (simp add: makeSealedMemfd_def split: sum.split option.split)
  then obtain r where r: "makeSealedMemfd env ''librescrs-secret'' [] t = Some r" by blast
  obtain err where mk: "makeSealedMemfd env ''librescrs-secret'' [] t = Some ((fd, err), t')"
    using assms r by (auto simp: emptyFd_def makeEmptySealedFd_def makeSealedSecretFd_def split: prod.splits)
  show "no_bytes (fd_file t' fd)"
    using mk by (cases rule: makeSealedMemfd_cases) (auto simp: fd_file_def no_bytes_def)
  show "no_bytes (fd_file t x) \<Longrightarrow> no_bytes (fd_file t' x)"
    using mk
    by (cases rule: makeSealedMemfd_cases; cases "env_memfd_create env")
       (auto simp: fd_file_def no_bytes_def)
qed

lemma good_empty [simp]:
  "list_all (good_answer W) (ps_answers (answer_empty E c st s)) = list_all (good_answer W) (ps_answers s)"
  "list_all (good_answer W) (ps_answers (answer_empty2 E c st s)) = list_all (good_answer W) (ps_answers s)"
proof -
  obtain fd t where e1: "emptyFd (e_empty E) (ps_fds s) = (fd, t)" by fastforce
  obtain fd2 t2 where e2: "emptyFd (e_empty2 E) t = (fd2, t2)" by fastforce
  show "list_all (good_answer W) (ps_answers (answer_empty E c st s)) = list_all (good_answer W) (ps_answers s)"
    using emptyFd_no_bytes [OF e1] by (simp add: answer_empty_def e1 answerSecret_def good_answer_def)
  show "list_all (good_answer W) (ps_answers (answer_empty2 E c st s)) = list_all (good_answer W) (ps_answers s)"
    using emptyFd_no_bytes [OF e1] emptyFd_no_bytes [OF e2]
    by (simp add: answer_empty2_def e1 e2 answerSecrets_def good_answer_def)
qed

lemma good_frame [simp]:
  "ps_answers (show_window E w i s) = ps_answers s" "ps_answers (deleteLater w s) = ps_answers s"
  "ps_answers (delete_window w s) = ps_answers s" "ps_answers (dismissOnGuiThread pid c s) = ps_answers s"
  "ps_answers (dismissEveryWindowOnGuiThread s) = ps_answers s"
  by (simp_all add: show_window_def deleteLater_def delete_window_def dismissOnGuiThread_def
        dismissEveryWindowOnGuiThread_def split: option.split)

lemma good_raise [simp]:
  "list_all (good_answer W) (ps_answers (raiseWindow E k o1 ow pid off B A c s)) = list_all (good_answer W) (ps_answers s)"
  "list_all (good_answer W) (ps_answers (raiseChangePinWindow E o1 ow pid B c s)) = list_all (good_answer W) (ps_answers s)"
  by (simp_all add: raiseWindow_def raiseChangePinWindow_def Let_def split: prod.split option.split)

lemma good_finished:
  "finished E w c s = Some s' \<Longrightarrow> list_all (good_answer (e_wire E)) (ps_answers s) \<Longrightarrow>
     list_all (good_answer (e_wire E)) (ps_answers s')"
  by (auto simp: finished_def finish_change_def finish_single_def answerSecret_def answerSecrets_def good_answer_def
        takeSecretFdPair_def Let_def split: option.splits prod.splits if_splits)

lemma good_gui:
  "run_gui E task s = Some s' \<Longrightarrow> list_all (good_answer (e_wire E)) (ps_answers s) \<Longrightarrow>
     list_all (good_answer (e_wire E)) (ps_answers s')"
  by (cases task) (auto dest: good_finished)

lemma good_dispatch:
  "dispatch E th task s = Some s' \<Longrightarrow> list_all (good_answer (e_wire E)) (ps_answers s) \<Longrightarrow>
     list_all (good_answer (e_wire E)) (ps_answers s')"
  by (auto simp: dispatch_def split: thread.splits if_splits dest: good_gui)

lemma good_request:
  assumes "list_all (good_answer (e_wire E)) (ps_answers s)"
  shows "RequestSecret E th call creds gate knd opts s = Some s' \<Longrightarrow>
      list_all (good_answer (e_wire E)) (ps_answers s')"
    and "RequestSecrets E th call creds gate knd opts s = Some s' \<Longrightarrow>
      list_all (good_answer (e_wire E)) (ps_answers s')"
  using assms
  by (auto simp: RequestSecret_def RequestSecrets_def Let_def split: if_splits option.splits thread.splits)

text \<open>
  C3: no byte of a secret leaves the prompter without a success word. In every reachable
  state, each answer whose word is neither of the two success words (cancelled, timed out,
  refused, failed) carries descriptors of zero length only.
\<close>

theorem no_bytes_without_success:
  assumes "reach W cs s" "a \<in> set (ps_answers s)"
    and "a_word a \<noteq> replyStatusToken W RsOk" "a_word a \<noteq> replyStatusToken W RsOkMrz"
  shows "list_all no_bytes (a_files a)"
proof -
  have "list_all (good_answer W) (ps_answers s)"
    using assms(1)
  proof (induction rule: reach.induct)
    case (Accept cs s w info E s')
    then show ?case
      by (auto simp: user_accept_def Let_def split: option.splits if_splits elim!: good_finished)
  next
    case (Deadline cs s E w s')
    then show ?case by (auto simp: deadline_fires_def split: option.splits elim!: good_finished)
  next
    case (Gui cs s task q E s')
    then show ?case using good_gui [of E task "s\<lparr>ps_queue := q\<rparr>" s'] by simp
  qed (auto simp: init_service_def user_reject_def Cancel_def Reset_def Let_def split: if_splits
        dest: good_request good_finished good_dispatch)
  with assms(2-4) show ?thesis by (auto simp: list_all_iff good_answer_def)
qed

theorem no_bytes_without_success_witness:
  "list_all no_bytes (a_files (hd (ps_answers refused_service)))"
proof (rule no_bytes_without_success [OF reach_refused])
  obtain fd t where e1: "emptyFd (e_empty refusing_env) (ps_fds init_service) = (fd, t)" by fastforce
  have eq: "ps_answers refused_service = [\<lparr>a_call = 7, a_word = ''unauthorized'', a_files = [fd_file t fd],
      a_sent = (fd \<ge> 0)\<rparr>]"
    by (simp add: refused_service_def answer_empty_def e1 answerSecret_def)
       (simp add: refusing_env_def init_service_def sample_wire_def sample_token_def)
  show "hd (ps_answers refused_service) \<in> set (ps_answers refused_service)" by (simp add: eq)
  show "a_word (hd (ps_answers refused_service)) \<noteq> replyStatusToken sample_wire RsOk"
    "a_word (hd (ps_answers refused_service)) \<noteq> replyStatusToken sample_wire RsOkMrz"
    by (simp_all add: eq sample_wire_def sample_token_def)
qed

subsection \<open>The switched answer\<close>

text \<open>
  Every window shows the form its kind names, and offers the switch exactly when its
  completion may report one; posted windows carry the same flag twice.
\<close>

definition form_ok :: "win \<Rightarrow> bool" where
  "form_ok i \<longleftrightarrow> form_kind (m_widget (w_dialog i)) = m_kind (w_dialog i) \<and>
     w_offer i = (d_switchText (w_dialog i) \<noteq> None)"

definition task_ok :: "gui_task \<Rightarrow> bool" where
  "task_ok t = (case t of
       Raise k opts _ _ offer _ _ _ \<Rightarrow> offer = offerMrzSwitch opts
     | RaiseChange opts _ _ _ _ \<Rightarrow> \<not> offerMrzSwitch opts
     | _ \<Rightarrow> True)"

definition forms_ok :: "service \<Rightarrow> bool" where
  "forms_ok s \<longleftrightarrow> (\<forall>w i. ps_windows s w = Some i \<longrightarrow> form_ok i) \<and> list_all task_ok (ps_queue s)"

text \<open>What every change of an open dialog keeps.\<close>

definition keeps :: "dialog \<Rightarrow> dialog \<Rightarrow> bool" where
  "keeps d d' \<longleftrightarrow> (form_kind (m_widget d) = m_kind d \<longrightarrow> form_kind (m_widget d') = m_kind d') \<and>
     (d_switchText d' \<noteq> None) = (d_switchText d \<noteq> None)"

lemma forms_ok_put:
  assumes "forms_ok s" "\<And>i. ps_windows s w = Some i \<Longrightarrow> keeps (w_dialog i) d"
  shows "forms_ok (put_dialog w d s)"
  using assms by (auto simp: forms_ok_def put_dialog_def form_ok_def keeps_def split: option.split if_splits)

lemma keeps_win_step: "win_step D d d' \<Longrightarrow> keeps d d'"
  by (erule win_stepE)
     (auto simp: keeps_def onCountdown_def announce_def edit_widget_def swapInputKind_def
        wireValidity_def clearRetryError_def Let_def)

lemma widget_capture_form:
  "widget_captureSecretFd L env w t = Some (fd, w', t') \<Longrightarrow> form_kind w' = form_kind w"
  by (cases w) auto

lemma keeps_capture:
  "dialog_captureSecretFd D today env d t = Some (fd, d', t') \<Longrightarrow> keeps d d'"
  by (auto simp: dialog_captureSecretFd_def keeps_def edit_widget_def wireValidity_def dest: widget_capture_form)

lemma keeps_accept: "dialog_accept D today e1 e2 d t = Some (b, d', t') \<Longrightarrow> keeps d d'"
  by (auto simp: dialog_accept_def keeps_def edit_widget_def wireValidity_def Let_def
        split: input_widget.splits if_splits option.splits)

lemma keeps_simple: "keeps d (onDeadline d)" "keeps d (snd (takeSecretFdPair d))"
  by (simp_all add: keeps_def onDeadline_def takeSecretFdPair_def)

lemma forms_ok_frame:
  "ps_windows s' = ps_windows s \<Longrightarrow> list_all task_ok (ps_queue s) \<longrightarrow> list_all task_ok (ps_queue s') \<Longrightarrow>
     forms_ok s \<Longrightarrow> forms_ok s'"
  by (simp add: forms_ok_def)

lemma forms_ok_simps [simp]:
  "forms_ok (s\<lparr>ps_fds := t\<rparr>) = forms_ok s" "forms_ok (s\<lparr>ps_registry := r\<rparr>) = forms_ok s"
  "forms_ok (s\<lparr>ps_next := n\<rparr>) = forms_ok s"
  "forms_ok (answerSecret E c st fd s) = forms_ok s" "forms_ok (answerSecrets E c st fd fd2 s) = forms_ok s"
  "forms_ok (answer_empty E c st s) = forms_ok s" "forms_ok (answer_empty2 E c st s) = forms_ok s"
  "forms_ok (deleteLater w s) = forms_ok s"
  "forms_ok (s\<lparr>ps_queue := ps_queue s @ [t2]\<rparr>) \<longleftrightarrow> forms_ok s \<and> task_ok t2"
  by (auto simp: forms_ok_def deleteLater_def task_ok_def)

lemma forms_ok_finished:
  assumes "forms_ok s" "finished E w c s = Some s'" shows "forms_ok s'"
proof -
  have put: "forms_ok (put_dialog w d (s\<lparr>ps_registry := r\<rparr>))"
    if "ps_windows s w = Some i" "keeps (w_dialog i) d" for i d r
    using that assms(1) by (intro forms_ok_put) simp_all
  have put2: "forms_ok (put_dialog w d (s\<lparr>ps_registry := r, ps_fds := t\<rparr>))"
    if "ps_windows s w = Some i" "keeps (w_dialog i) d" for i d r t
    using that assms(1) by (intro forms_ok_put) simp_all
  have pair: "keeps d (d\<lparr>m_captured := (- 1, - 1)\<rparr>)" for d by (simp add: keeps_def)
  from assms show ?thesis
    by (auto simp: finished_def finish_change_def finish_single_def takeSecretFdPair_def Let_def pair
          split: option.splits prod.splits if_splits intro!: put put2 dest: keeps_capture)
qed

lemma forms_ok_raise:
  assumes "forms_ok s"
  shows "offer = offerMrzSwitch opts \<Longrightarrow> forms_ok (raiseWindow E k opts ow pid offer B A c s)"
    and "\<not> offerMrzSwitch opts \<Longrightarrow> forms_ok (raiseChangePinWindow E opts ow pid B c s)"
proof -
  have new: "form_ok \<lparr>w_dialog = announce (showEvent now d), w_handle = h, w_offer = offerMrzSwitch opts, w_change = ch, w_call = c\<rparr>"
    if "m_kind d = k" "form_kind (m_widget d) = k" "(d_switchText d \<noteq> None) = offerMrzSwitch opts" for now d k h ch c
    using that by (simp add: form_ok_def announce_def)
  note defs = raiseWindow_def raiseChangePinWindow_def show_window_def Let_def setEntryDeadline_def
    setAlternateEntryDeadline_def PromptDialog_def wireValidity_def
  show "offer = offerMrzSwitch opts \<Longrightarrow> forms_ok (raiseWindow E k opts ow pid offer B A c s)"
    using assms by (auto simp: defs split: prod.split option.split) (auto simp: forms_ok_def form_ok_def announce_def)
  show "\<not> offerMrzSwitch opts \<Longrightarrow> forms_ok (raiseChangePinWindow E opts ow pid B c s)"
    using assms by (auto simp: defs split: prod.split option.split) (auto simp: forms_ok_def form_ok_def announce_def)
qed

lemma forms_ok_gui:
  assumes "forms_ok s" "task_ok task" "run_gui E task s = Some s'"
  shows "forms_ok s'"
proof (cases task)
  case DismissAll
  with assms show ?thesis
    by (auto simp: dismissEveryWindowOnGuiThread_def forms_ok_def list_all_iff task_ok_def split: option.splits)
next
  case (DismissNamed pid caller)
  with assms show ?thesis by (auto simp: dismissOnGuiThread_def task_ok_def split: option.splits)
next
  case (InvokeReject w)
  with assms show ?thesis by (simp add: forms_ok_finished)
next
  case (Delete w)
  with assms show ?thesis by (auto simp: delete_window_def forms_ok_def split: option.splits if_splits)
qed (use assms in \<open>auto simp: task_ok_def intro!: forms_ok_raise\<close>)

lemma task_ok_dismiss [simp]: "task_ok (DismissNamed p c)" "task_ok DismissAll"
  by (simp_all add: task_ok_def)

lemma forms_ok_dispatch:
  "forms_ok s \<Longrightarrow> task_ok task \<Longrightarrow> dispatch E th task s = Some s' \<Longrightarrow> forms_ok s'"
  by (auto simp: dispatch_def split: thread.splits if_splits dest: forms_ok_gui)

lemma forms_ok_request:
  assumes "forms_ok s"
  shows "RequestSecret E th call creds gate knd opts s = Some s' \<Longrightarrow> forms_ok s'"
    and "RequestSecrets E th call creds gate knd opts s = Some s' \<Longrightarrow> forms_ok s'"
proof -
  have "\<not> offerMrzSwitch (buildMultiOptions opts)"
    by (simp add: buildMultiOptions_def buildOptions_def default_options_def Let_def)
  then show "RequestSecrets E th call creds gate knd opts s = Some s' \<Longrightarrow> forms_ok s'"
    using assms
    by (auto simp: RequestSecrets_def Let_def task_ok_def split: if_splits thread.splits intro: forms_ok_raise)
  show "RequestSecret E th call creds gate knd opts s = Some s' \<Longrightarrow> forms_ok s'"
    using assms
    by (auto simp: RequestSecret_def Let_def task_ok_def split: if_splits option.splits thread.splits intro: forms_ok_raise)
qed

lemma reach_forms_ok: "reach W cs s \<Longrightarrow> forms_ok s"
proof (induction rule: reach.induct)
  case (Gui cs s task q E s')
  then have "forms_ok (s\<lparr>ps_queue := q\<rparr>)" "task_ok task" by (simp_all add: forms_ok_def)
  with Gui show ?case using forms_ok_gui by blast
next
  case (Accept cs s w info E s')
  then obtain b d t where acc: "dialog_accept (e_dialog E) (e_today E) (e_capture E) (e_capture2 E) (w_dialog info) (ps_fds s) =
      Some (b, d, t)" and s': "(if b then finished E w Accepted (put_dialog w d (s\<lparr>ps_fds := t\<rparr>))
        else Some (put_dialog w d (s\<lparr>ps_fds := t\<rparr>))) = Some s'"
    by (auto simp: user_accept_def Let_def split: option.splits)
  have "forms_ok (put_dialog w d (s\<lparr>ps_fds := t\<rparr>))"
    using Accept keeps_accept [OF acc] by (intro forms_ok_put) simp_all
  with s' show ?case by (auto split: if_splits dest: forms_ok_finished)
next
  case (Deadline cs s E w s')
  then show ?case
    by (auto simp: deadline_fires_def keeps_simple split: option.splits
          intro!: forms_ok_put elim!: forms_ok_finished [rotated])
next
  case (Window cs s w info D d)
  then show ?case by (intro forms_ok_put) (auto dest: keeps_win_step)
next
  case Init
  show ?case by (simp add: forms_ok_def init_service_def)
qed (auto simp: user_reject_def Cancel_def Reset_def Let_def
      split: if_splits dest: forms_ok_request forms_ok_finished
        forms_ok_dispatch [OF _ task_ok_dismiss(1)] forms_ok_dispatch [OF _ task_ok_dismiss(2)])


definition offer_dict :: options_dict where
  "offer_dict = [(kOptAltKinds, VStrings [''mrz''])]"

definition offer_opts :: options where
  "offer_opts = (buildOptions offer_dict)\<lparr>offerMrzSwitch := True\<rparr>"

definition raised_service :: service where
  "raised_service = raiseWindow refusing_env Can offer_opts 42 [] True 0 0 9 init_service"

definition raised_win :: win where
  "raised_win = \<lparr>w_dialog = announce (PromptDialog sample_dialog_lib 2460000 Can offer_opts), w_handle = 1,
     w_offer = True, w_change = False, w_call = 9\<rparr>"

definition switched_dialog :: dialog where
  "switched_dialog = swapInputKind sample_dialog_lib 2460000 500 (w_dialog raised_win)"

lemma raised_facts:
  "ps_windows raised_service = [0 \<mapsto> raised_win]" "ps_fds raised_service = Map.empty"
  "ps_registry raised_service = \<lparr>m_entries = [\<lparr>window = 0, ownerPid = 42, promptId = []\<rparr>], m_handles = [1], m_nextHandle = 2\<rparr>"
  by (simp_all add: raised_service_def raiseWindow_def init_service_def empty_registry_def registry_add_def
        show_window_def raised_win_def Let_def setEntryDeadline_def setAlternateEntryDeadline_def refusing_env_def
        showEvent_def PromptDialog_def wireValidity_def)

lemma reach_raised: "reach sample_wire [9] raised_service"
proof (rule reach.Secret [OF reach.Init])
  have "altKinds (buildOptions offer_dict) = [''mrz'']" "optionString offer_dict kOptPromptId = []"
    "optionUInt offer_dict kOptDeadlineMs 0 = 0" "optionUInt offer_dict kOptAltDeadlineMs 0 = 0"
    by (simp_all add: buildOptions_def optionStringList_def optionString_def optionUInt_def offer_dict_def
          smap_find_def opt_keys Let_def)
  then show "RequestSecret refusing_env Main 9 (Some 42) (\<lambda>_. True) ''can'' offer_dict init_service = Some raised_service"
    by (simp add: RequestSecret_def authorizeCaller_def raised_service_def parseKind_def offer_opts_def Let_def)
       (simp add: refusing_env_def sample_wire_def)
qed (simp_all add: refusing_env_def init_service_def)

lemma raised_switch: "win_step sample_dialog_lib (w_dialog raised_win) switched_dialog"
  unfolding switched_dialog_def
  by (rule Switch) (simp add: raised_win_def announce_def PromptDialog_def wireValidity_def offer_opts_def)

definition switched_service :: service where
  "switched_service = put_dialog 0 switched_dialog raised_service"

lemma reach_switched: "reach sample_wire [9] switched_service"
  unfolding switched_service_def
  by (rule reach.Window [OF reach_raised _ raised_switch]) (simp add: raised_facts)

lemma switched_widget: "m_widget switched_dialog = WMrz MrzInputWidget" "d_switchText switched_dialog \<noteq> None"
  by (simp_all add: switched_dialog_def swapInputKind_def raised_win_def announce_def PromptDialog_def
        wireValidity_def offer_opts_def clearRetryError_def buildLayout_def Let_def)


subsection \<open>Who may raise and who may dismiss\<close>

text \<open>
  A caller that does not pass the gate changes nothing but its own reply: no window,
  no posted work, no registration, and its call is answered at once.
\<close>

theorem unauthorized_call_is_inert:
  assumes "authorizeCaller creds gate = 0"
    and "RequestSecret E th call creds gate knd opts s = Some s' \<or>
      RequestSecrets E th call creds gate knd opts s = Some s' \<or>
      Cancel E th creds gate pid s = Some s' \<or> Reset E th creds gate s = Some s'"
  shows "ps_windows s' = ps_windows s \<and> ps_registry s' = ps_registry s \<and> ps_queue s' = ps_queue s \<and>
    answered_calls s' \<in> {answered_calls s, answered_calls s @ [call]}"
  using assms by (auto simp: RequestSecret_def RequestSecrets_def Cancel_def Reset_def)

theorem unauthorized_call_is_inert_witness:
  "ps_windows refused_service = ps_windows init_service \<and> ps_queue refused_service = ps_queue init_service"
  using unauthorized_call_is_inert [of None "\<lambda>_. True" refusing_env Main 7 "''pin''" "[]" init_service refused_service "[]"]
  by (simp add: RequestSecret_def authorizeCaller_def refused_service_def)

text \<open>
  C20: a dismissal reaches exactly the window it names, and only from the process that
  raised it. In every reachable state, running a dismissal posts a rejection of a window
  exactly when that window is registered under the given non-empty id with the caller as
  its owner; otherwise the state is unchanged.
\<close>

theorem dismissal_needs_owner:
  assumes "reach W cs s"
  shows "dismissOnGuiThread pid caller s =
    (if \<exists>h e. pid \<noteq> [] \<and> registry_find (ps_registry s) h = Some e \<and> promptId e = pid \<and>
             ownerPid e \<noteq> 0 \<and> ownerPid e = caller
     then s\<lparr>ps_queue := ps_queue s @ [InvokeReject (window (the (registry_find (ps_registry s)
            (the (findByPromptId (ps_registry s) pid)))))]\<rparr>
     else s)"
proof -
  have ok: "reg_ok (ps_registry s)" using reach_inv [OF assms] by (simp add: svc_inv_def)
  show ?thesis
  proof (cases "findByPromptId (ps_registry s) pid")
    case None
    then have "\<not> (\<exists>h e. pid \<noteq> [] \<and> registry_find (ps_registry s) h = Some e \<and> promptId e = pid)"
      using windows.by_id_iff [OF ok, of pid] by auto
    with None show ?thesis by (auto simp: dismissOnGuiThread_def)
  next
    case (Some h)
    then obtain e where e: "pid \<noteq> []" "registry_find (ps_registry s) h = Some e" "promptId e = pid"
      using windows.by_id_iff [OF ok, of pid h] by auto
    have "h' = h" if "registry_find (ps_registry s) h' = Some e'" "promptId e' = pid" for h' e'
      using windows.name_unique [OF ok that(1) e(2)] that(2) e(1,3) by simp
    with Some e have "(\<exists>h e. pid \<noteq> [] \<and> registry_find (ps_registry s) h = Some e \<and> promptId e = pid \<and>
        ownerPid e \<noteq> 0 \<and> ownerPid e = caller) \<longleftrightarrow> isActivePromptOwner (ownerPid e) caller"
      unfolding isActivePromptOwner_def by (metis option.inject)
    with Some e show ?thesis by (simp add: dismissOnGuiThread_def)
  qed
qed

theorem dismissal_needs_owner_witness:
  "dismissOnGuiThread ''p1'' 42 refused_service = refused_service"
  using dismissal_needs_owner [OF reach_refused, of "''p1''" 42]
  by (simp add: refused_service_def registry_find_def init_service_def empty_registry_def)

text \<open>A sweep posts a rejection for every registered window.\<close>

lemma reset_sweeps_all:
  assumes "reach W cs s" "registry_find (ps_registry s) h = Some e"
  shows "InvokeReject (window e) \<in> set (ps_queue (dismissEveryWindowOnGuiThread s))"
proof -
  have ok: "reg_ok (ps_registry s)" using reach_inv [OF assms(1)] by (simp add: svc_inv_def)
  have "h \<in> set (registry_handles (ps_registry s))" using windows.live_iff [OF ok, of h] assms(2) by simp
  then show ?thesis using assms(2) by (force simp: dismissEveryWindowOnGuiThread_def)
qed

text \<open>
  A refusal needs a descriptor of its own. When the kernel has none left, the answer is
  the sentinel the wire encoder cannot send: the reply handle is spent, nothing is sent, and
  the caller learns nothing until its own timeout.
\<close>

theorem refusal_lost_without_descriptor:
  assumes "authorizeCaller creds gate = 0" "env_memfd_create (e_empty E) = Inl err"
    and "RequestSecret E th call creds gate knd opts s = Some s'"
  shows "\<exists>a. ps_answers s' = ps_answers s @ [a] \<and> a_call a = call \<and> \<not> a_sent a"
  using assms
  by (auto simp: RequestSecret_def answer_empty_def emptyFd_def makeEmptySealedFd_def makeSealedSecretFd_def
        makeSealedMemfd_def answerSecret_def)

theorem refusal_lost_without_descriptor_witness:
  "\<exists>s' a. RequestSecret (refusing_env\<lparr>e_empty := sample_create_env\<lparr>env_memfd_create := Inl 24\<rparr>\<rparr>) Main 7 None
      (\<lambda>_. True) ''pin'' [] init_service = Some s' \<and> ps_answers s' = [a] \<and> a_call a = 7 \<and> \<not> a_sent a"
proof -
  let ?E = "refusing_env\<lparr>e_empty := sample_create_env\<lparr>env_memfd_create := Inl 24\<rparr>\<rparr>"
  obtain s' where s': "RequestSecret ?E Main 7 None (\<lambda>_. True) ''pin'' [] init_service = Some s'"
    by (simp add: RequestSecret_def authorizeCaller_def)
  from refusal_lost_without_descriptor [OF _ _ s', of 24] s' show ?thesis
    by (auto simp: authorizeCaller_def init_service_def)
qed

end
