(* ===== verification/Prompter_Client.thy ===== *)
theory Prompter_Client
  imports Prompter_Wire
begin

text \<open>
  The agent's side of a prompt, \<^verbatim>\<open>agent/src/PrompterClient.cpp\<close> with
  \<^verbatim>\<open>PrompterCapability.h\<close>: the option dictionary a request marshals, the capability gate in
  front of every prompt, and the reading of the reply. What the bus answers is an
  argument; the bus calls made are the client's log.
\<close>

text \<open>\<^verbatim>\<open>PromptOptions\<close> of the agent library, the fields this file reads.\<close>

record prompt_options =
  po_promptId :: string
  po_deadlineMs :: u32
  po_readerModel :: string
  po_readerIface :: reader_interface
  po_readerFull :: string
  po_title :: string
  po_description :: string
  po_requester :: string
  po_artifact :: string
  po_artifacts :: "string list"
  po_minLength :: u32
  po_maxLength :: u32
  po_attempt :: u32
  po_lastError :: string
  po_altKinds :: "string list"
  po_altDeadlineMs :: u32
  po_cardLabel :: string
  po_pinLabel :: string

subsection \<open>The option dictionaries\<close>

text \<open>A chain of conditional \<^verbatim>\<open>emplace\<close> calls, in the order of the source.\<close>

fun emplace_all :: "(bool \<times> string \<times> variant) list \<Rightarrow> options_dict \<Rightarrow> options_dict" where
  "emplace_all [] m = m"
| "emplace_all ((c, k, v) # es) m = emplace_all es (if c then smap_emplace k v m else m)"

definition emplaceReaderIdentity :: "wire_lib \<Rightarrow> prompt_options \<Rightarrow> (bool \<times> string \<times> variant) list" where
  "emplaceReaderIdentity W o1 =
     [(po_readerModel o1 \<noteq> [], kOptReaderModel, VString (po_readerModel o1)),
      (po_readerIface o1 \<noteq> Unknown, kOptReaderInterface, VString (readerInterfaceToken W (po_readerIface o1))),
      (po_readerFull o1 \<noteq> [], kOptReaderFull, VString (po_readerFull o1))]"

definition buildOptionsDict :: "wire_lib \<Rightarrow> prompt_options \<Rightarrow> options_dict" where
  "buildOptionsDict W o1 =
     emplace_all
       ([(po_promptId o1 \<noteq> [], kOptPromptId, VString (po_promptId o1)),
         (po_deadlineMs o1 > 0, kOptDeadlineMs, VUInt32 (po_deadlineMs o1))] @
        emplaceReaderIdentity W o1 @
        [(po_title o1 \<noteq> [], kOptTitle, VString (po_title o1)),
         (po_description o1 \<noteq> [], kOptDescription, VString (po_description o1)),
         (po_requester o1 \<noteq> [], kOptRequester, VString (po_requester o1)),
         (po_artifact o1 \<noteq> [], kOptArtifact, VString (po_artifact o1)),
         (po_artifacts o1 \<noteq> [], kOptArtifacts, VStrings (po_artifacts o1)),
         (po_minLength o1 > 0, kOptMinLength, VUInt32 (po_minLength o1)),
         (po_maxLength o1 > 0, kOptMaxLength, VUInt32 (po_maxLength o1)),
         (po_attempt o1 > 0, kOptAttempt, VUInt32 (po_attempt o1)),
         (po_lastError o1 \<noteq> [], kOptLastError, VString (po_lastError o1)),
         (po_altKinds o1 \<noteq> [], kOptAltKinds, VStrings (po_altKinds o1)),
         (po_altDeadlineMs o1 > 0, kOptAltDeadlineMs, VUInt32 (po_altDeadlineMs o1))]) []"

definition buildChangePinOptionsDict :: "wire_lib \<Rightarrow> prompt_options \<Rightarrow> options_dict" where
  "buildChangePinOptionsDict W o1 =
     emplace_all
       ([(po_promptId o1 \<noteq> [], kOptPromptId, VString (po_promptId o1)),
         (po_deadlineMs o1 > 0, kOptDeadlineMs, VUInt32 (po_deadlineMs o1))] @
        emplaceReaderIdentity W o1 @
        [(po_title o1 \<noteq> [], kOptTitle, VString (po_title o1)),
         (po_description o1 \<noteq> [], kOptDescription, VString (po_description o1)),
         (po_requester o1 \<noteq> [], kOptRequester, VString (po_requester o1)),
         (po_artifact o1 \<noteq> [], kOptArtifact, VString (po_artifact o1)),
         (po_cardLabel o1 \<noteq> [], kOptCardLabel, VString (po_cardLabel o1)),
         (po_pinLabel o1 \<noteq> [], kOptPinLabel, VString (po_pinLabel o1)),
         (po_minLength o1 > 0, kOptPrimaryMinLength, VUInt32 (po_minLength o1)),
         (po_minLength o1 > 0, kOptNewMinLength, VUInt32 (po_minLength o1)),
         (po_maxLength o1 > 0, kOptPrimaryMaxLength, VUInt32 (po_maxLength o1)),
         (po_maxLength o1 > 0, kOptNewMaxLength, VUInt32 (po_maxLength o1))]) []"

subsection \<open>Statuses\<close>

datatype pace_secret_kind = CanKind | MrzKind

definition replyStatusOf :: "wire_lib \<Rightarrow> string \<Rightarrow> reply_status" where
  "replyStatusOf W raw = (case replyStatusFromToken W raw of None \<Rightarrow> RsError | Some s \<Rightarrow> s)"

definition parseStatus :: "wire_lib \<Rightarrow> string \<Rightarrow> prompt_status" where
  "parseStatus W raw = promptStatusFor W (replyStatusOf W raw) False"

definition offeredMrzAlternative :: "wire_lib \<Rightarrow> string \<Rightarrow> prompt_options \<Rightarrow> bool" where
  "offeredMrzAlternative W knd o1 =
     (if knd \<noteq> kKindCan W then False
      else index_of (\<lambda>k. k = kKindMrz W) (po_altKinds o1) \<noteq> None)"

definition parseRequestSecretStatus ::
  "wire_lib \<Rightarrow> string \<Rightarrow> bool \<Rightarrow> prompt_status \<times> pace_secret_kind option" where
  "parseRequestSecretStatus W raw mrzAlternativeOffered =
     (let reply = replyStatusOf W raw;
          status = promptStatusFor W reply mrzAlternativeOffered
      in if status = PsOk \<and> reply = RsOkMrz then (status, Some MrzKind) else (status, None))"

subsection \<open>The client\<close>

datatype client_call =
    CallVersion
  | CallRequestSecret string options_dict int
  | CallRequestSecrets string options_dict int
  | CallCancel string
  | CallReset

record client =
  m_capability :: "bool option"
  m_interactiveBudget :: int
  pc_log :: "client_call list"

definition log_call :: "client_call \<Rightarrow> client \<Rightarrow> client" where
  "log_call k c = c\<lparr>pc_log := pc_log c @ [k]\<rparr>"

text \<open>Ten minutes, in microseconds.\<close>

definition kDefaultInteractiveBudget :: int where
  "kDefaultInteractiveBudget = 10 * 60 * 1000000"

definition new_client :: client where
  "new_client = \<lparr>m_capability = None, m_interactiveBudget = kDefaultInteractiveBudget, pc_log = []\<rparr>"

text \<open>
  The outcome of a bus call: its value, an \<^verbatim>\<open>sdbus::Error\<close> with a name and a message, or
  another exception.
\<close>

datatype 'a outcome = Returned 'a | BusError string string | Threw string

definition client_cancel :: "string \<Rightarrow> client \<Rightarrow> client" where
  "client_cancel pid c = log_call (CallCancel pid) c"

definition resetPrompter :: "client \<Rightarrow> client" where
  "resetPrompter c = log_call CallReset c"

definition usable :: "u32 option \<Rightarrow> bool" where
  "usable reported = (case reported of None \<Rightarrow> False | Some v \<Rightarrow> v \<ge> kProtocolVersion)"

datatype usability = Usable | TooOld | Unreachable

definition prompterUsability :: "u32 outcome \<Rightarrow> client \<Rightarrow> usability \<times> client" where
  "prompterUsability probe c =
     (case m_capability c of
        Some cap \<Rightarrow> (if cap then Usable else TooOld, c)
      | None \<Rightarrow>
          let c = log_call CallVersion c;
              decide = (\<lambda>reported.
                let cap = usable reported in
                (if cap then Usable else TooOld, c\<lparr>m_capability := Some cap\<rparr>))
          in (case probe of
                Returned v \<Rightarrow> decide (Some v)
              | BusError name msg \<Rightarrow>
                  if name \<noteq> ''org.freedesktop.DBus.Error.UnknownProperty'' \<and>
                     name \<noteq> ''org.freedesktop.DBus.Error.InvalidArgs''
                  then (Unreachable, c)
                  else decide None
              | Threw msg \<Rightarrow> (Unreachable, c)))"

record prompt_result =
  pr_status :: prompt_status
  pr_secret :: "bytes option"
  pr_chosenKind :: "pace_secret_kind option"
  pr_userMessage :: string

definition empty_result :: prompt_result where
  "empty_result = \<lparr>pr_status = PsError, pr_secret = None, pr_chosenKind = None, pr_userMessage = []\<rparr>"

record pin_change_result =
  pc_status :: prompt_status
  pc_current :: "bytes option"
  pc_newPin :: "bytes option"
  pc_userMessage :: string

definition empty_change_result :: pin_change_result where
  "empty_change_result = \<lparr>pc_status = PsError, pc_current = None, pc_newPin = None, pc_userMessage = []\<rparr>"

text \<open>The refusal's status and message, \<^const>\<open>None\<close> when the helper is usable.\<close>

fun refusal :: "usability \<Rightarrow> (prompt_status \<times> string) option" where
  "refusal Usable = None"
| "refusal TooOld = Some (PsHelperTooOld, ''the credential window helper is out of date'')"
| "refusal Unreachable = Some (PsError, ''the credential window helper could not be reached'')"

definition refuseUnlessUsable :: "u32 outcome \<Rightarrow> client \<Rightarrow> (prompt_status \<times> string) option \<times> client" where
  "refuseUnlessUsable probe c = (let (u, c') = prompterUsability probe c in (refusal u, c'))"

record client_env =
  ce_wire :: wire_lib
  ce_reader :: reader_lib
  ce_probe :: "u32 outcome"
  ce_read1 :: read_env
  ce_read2 :: read_env

definition request ::
  "client_env \<Rightarrow> (string \<times> fd_view \<times> string) outcome \<Rightarrow> string \<Rightarrow> prompt_options \<Rightarrow> client \<Rightarrow>
   (prompt_result \<times> client) option" where
  "request E reply knd o1 c =
     (let W = ce_wire E; (refused, c) = refuseUnlessUsable (ce_probe E) c in
      case refused of
        Some (st, msg) \<Rightarrow> Some (empty_result\<lparr>pr_status := st, pr_userMessage := msg\<rparr>, c)
      | None \<Rightarrow>
          let c = log_call (CallRequestSecret knd (buildOptionsDict W o1) (m_interactiveBudget c)) c in
          (case reply of
             BusError name msg \<Rightarrow>
               Some (empty_result\<lparr>pr_status := PsError, pr_userMessage := msg\<rparr>, client_cancel (po_promptId o1) c)
           | Threw msg \<Rightarrow> Some (empty_result\<lparr>pr_status := PsError, pr_userMessage := msg\<rparr>, c)
           | Returned (rawStatus, secretFd, userMessage) \<Rightarrow>
               let (st, chosen) = parseRequestSecretStatus W rawStatus (offeredMrzAlternative W knd o1);
                   result = empty_result\<lparr>pr_status := st, pr_chosenKind := chosen, pr_userMessage := userMessage\<rparr>
               in if st \<noteq> PsOk then Some (result, c)
                  else
                    (case SecretMemfdReader_read (ce_reader E) (ce_read1 E) secretFd of
                       None \<Rightarrow> None
                     | Some rr \<Rightarrow>
                         (case rr_secret rr of
                            None \<Rightarrow>
                              Some (result\<lparr>pr_status := PsError, pr_chosenKind := None,
                                pr_userMessage := (if userMessage = [] then rr_error rr else userMessage)\<rparr>, c)
                          | Some secret \<Rightarrow> Some (result\<lparr>pr_secret := Some secret\<rparr>, c)))))"

definition requestPin where "requestPin E reply o1 c = request E reply (kKindPin (ce_wire E)) o1 c"
definition requestCan where "requestCan E reply o1 c = request E reply (kKindCan (ce_wire E)) o1 c"
definition requestMrz where "requestMrz E reply o1 c = request E reply (kKindMrz (ce_wire E)) o1 c"

definition requestPinChange ::
  "client_env \<Rightarrow> (string \<times> fd_view \<times> fd_view \<times> string) outcome \<Rightarrow> prompt_options \<Rightarrow> client \<Rightarrow>
   (pin_change_result \<times> client) option" where
  "requestPinChange E reply o1 c =
     (let W = ce_wire E; (refused, c) = refuseUnlessUsable (ce_probe E) c in
      case refused of
        Some (st, msg) \<Rightarrow> Some (empty_change_result\<lparr>pc_status := st, pc_userMessage := msg\<rparr>, c)
      | None \<Rightarrow>
          let c = log_call (CallRequestSecrets (kKindChangePin W) (buildChangePinOptionsDict W o1)
                     (m_interactiveBudget c)) c in
          (case reply of
             BusError name msg \<Rightarrow>
               Some (empty_change_result\<lparr>pc_status := PsError, pc_userMessage := msg\<rparr>,
                     client_cancel (po_promptId o1) c)
           | Threw msg \<Rightarrow> Some (empty_change_result\<lparr>pc_status := PsError, pc_userMessage := msg\<rparr>, c)
           | Returned (rawStatus, primaryFd, secondaryFd, userMessage) \<Rightarrow>
               let st = parseStatus W rawStatus;
                   result = empty_change_result\<lparr>pc_status := st, pc_userMessage := userMessage\<rparr>
               in if st \<noteq> PsOk then Some (result, c)
                  else
                    (case SecretMemfdReader_read (ce_reader E) (ce_read1 E) primaryFd of
                       None \<Rightarrow> None
                     | Some r1 \<Rightarrow>
                         (case SecretMemfdReader_read (ce_reader E) (ce_read2 E) secondaryFd of
                            None \<Rightarrow> None
                          | Some r2 \<Rightarrow>
                              (case (rr_secret r1, rr_secret r2) of
                                 (Some current, Some newPin) \<Rightarrow>
                                   Some (result\<lparr>pc_current := Some current, pc_newPin := Some newPin\<rparr>, c)
                               | _ \<Rightarrow>
                                   Some (result\<lparr>pc_status := PsError,
                                     pc_userMessage :=
                                       (if userMessage = []
                                        then (if rr_error r1 \<noteq> [] then rr_error r1 else rr_error r2)
                                        else userMessage)\<rparr>, c))))))"

subsection \<open>The dictionary, read back\<close>

fun lookup_when :: "(bool \<times> string \<times> variant) list \<Rightarrow> string \<Rightarrow> variant option" where
  "lookup_when [] k = None"
| "lookup_when ((c, k', v) # es) k = (if c \<and> k = k' then Some v else lookup_when es k)"

lemma find_emplace_all:
  "smap_ok m \<Longrightarrow> smap_ok (emplace_all es m) \<and>
     smap_find (emplace_all es m) k = (case smap_find m k of Some v \<Rightarrow> Some v | None \<Rightarrow> lookup_when es k)"
proof (induction es m rule: emplace_all.induct)
  case (2 c k' v es m)
  then show ?case
    by (cases c) (auto simp: smap_ok_emplace smap_find_emplace split: option.splits)
qed (simp split: option.split)

lemma find_emplace_fresh: "smap_find (emplace_all es []) k = lookup_when es k"
  using find_emplace_all [of "[]" es k] by (simp add: smap_find_def [of "[]"])

declare emplace_all.simps [simp del]

lemma find_dict:
  "smap_find (buildOptionsDict W o1) kOptTitle = (if po_title o1 = [] then None else Some (VString (po_title o1)))"
  "smap_find (buildOptionsDict W o1) kOptDescription = (if po_description o1 = [] then None else Some (VString (po_description o1)))"
  "smap_find (buildOptionsDict W o1) kOptRequester = (if po_requester o1 = [] then None else Some (VString (po_requester o1)))"
  "smap_find (buildOptionsDict W o1) kOptArtifact = (if po_artifact o1 = [] then None else Some (VString (po_artifact o1)))"
  "smap_find (buildOptionsDict W o1) kOptLastError = (if po_lastError o1 = [] then None else Some (VString (po_lastError o1)))"
  "smap_find (buildOptionsDict W o1) kOptPromptId = (if po_promptId o1 = [] then None else Some (VString (po_promptId o1)))"
  "smap_find (buildOptionsDict W o1) kOptReaderModel = (if po_readerModel o1 = [] then None else Some (VString (po_readerModel o1)))"
  "smap_find (buildOptionsDict W o1) kOptReaderFull = (if po_readerFull o1 = [] then None else Some (VString (po_readerFull o1)))"
  "smap_find (buildOptionsDict W o1) kOptArtifacts = (if po_artifacts o1 = [] then None else Some (VStrings (po_artifacts o1)))"
  "smap_find (buildOptionsDict W o1) kOptAltKinds = (if po_altKinds o1 = [] then None else Some (VStrings (po_altKinds o1)))"
  "smap_find (buildOptionsDict W o1) kOptMinLength = (if po_minLength o1 = 0 then None else Some (VUInt32 (po_minLength o1)))"
  "smap_find (buildOptionsDict W o1) kOptMaxLength = (if po_maxLength o1 = 0 then None else Some (VUInt32 (po_maxLength o1)))"
  "smap_find (buildOptionsDict W o1) kOptAttempt = (if po_attempt o1 = 0 then None else Some (VUInt32 (po_attempt o1)))"
  "smap_find (buildOptionsDict W o1) kOptDeadlineMs = (if po_deadlineMs o1 = 0 then None else Some (VUInt32 (po_deadlineMs o1)))"
  "smap_find (buildOptionsDict W o1) kOptAltDeadlineMs = (if po_altDeadlineMs o1 = 0 then None else Some (VUInt32 (po_altDeadlineMs o1)))"
  "smap_find (buildOptionsDict W o1) kOptReaderInterface =
     (if po_readerIface o1 = Unknown then None else Some (VString (readerInterfaceToken W (po_readerIface o1))))"
  by (simp_all add: buildOptionsDict_def find_emplace_fresh emplaceReaderIdentity_def opt_keys word_gt_0)

lemma find_change_dict:
  "smap_find (buildChangePinOptionsDict W o1) kOptTitle = (if po_title o1 = [] then None else Some (VString (po_title o1)))"
  "smap_find (buildChangePinOptionsDict W o1) kOptDescription = (if po_description o1 = [] then None else Some (VString (po_description o1)))"
  "smap_find (buildChangePinOptionsDict W o1) kOptRequester = (if po_requester o1 = [] then None else Some (VString (po_requester o1)))"
  "smap_find (buildChangePinOptionsDict W o1) kOptArtifact = (if po_artifact o1 = [] then None else Some (VString (po_artifact o1)))"
  "smap_find (buildChangePinOptionsDict W o1) kOptPromptId = (if po_promptId o1 = [] then None else Some (VString (po_promptId o1)))"
  "smap_find (buildChangePinOptionsDict W o1) kOptReaderModel = (if po_readerModel o1 = [] then None else Some (VString (po_readerModel o1)))"
  "smap_find (buildChangePinOptionsDict W o1) kOptReaderFull = (if po_readerFull o1 = [] then None else Some (VString (po_readerFull o1)))"
  "smap_find (buildChangePinOptionsDict W o1) kOptCardLabel = (if po_cardLabel o1 = [] then None else Some (VString (po_cardLabel o1)))"
  "smap_find (buildChangePinOptionsDict W o1) kOptPinLabel = (if po_pinLabel o1 = [] then None else Some (VString (po_pinLabel o1)))"
  "smap_find (buildChangePinOptionsDict W o1) kOptPrimaryMinLength = (if po_minLength o1 = 0 then None else Some (VUInt32 (po_minLength o1)))"
  "smap_find (buildChangePinOptionsDict W o1) kOptNewMinLength = (if po_minLength o1 = 0 then None else Some (VUInt32 (po_minLength o1)))"
  "smap_find (buildChangePinOptionsDict W o1) kOptPrimaryMaxLength = (if po_maxLength o1 = 0 then None else Some (VUInt32 (po_maxLength o1)))"
  "smap_find (buildChangePinOptionsDict W o1) kOptNewMaxLength = (if po_maxLength o1 = 0 then None else Some (VUInt32 (po_maxLength o1)))"
  "smap_find (buildChangePinOptionsDict W o1) kOptDeadlineMs = (if po_deadlineMs o1 = 0 then None else Some (VUInt32 (po_deadlineMs o1)))"
  by (simp_all add: buildChangePinOptionsDict_def find_emplace_fresh emplaceReaderIdentity_def opt_keys word_gt_0)

lemmas option_lifts = optionString_def optionStringList_def optionUInt_def

text \<open>
  What the agent asks for is what the window shows. Marshalling the options of a
  request and lifting them on the prompter's side gives back every text, list and number,
  with the prompter's defaults exactly where the agent left a value unset; the routing id
  and the two entry budgets arrive unchanged.
\<close>

theorem prompt_options_roundtrip:
  "let d = buildOptionsDict W o1; out = buildOptions d in
     title out = po_title o1 \<and> description out = po_description o1 \<and> requester out = po_requester o1 \<and>
     artifact out = po_artifact o1 \<and> artifacts out = po_artifacts o1 \<and> lastError out = po_lastError o1 \<and>
     altKinds out = po_altKinds o1 \<and> attempt out = sint (po_attempt o1) \<and>
     minLength out = (if po_minLength o1 = 0 then 4 else sint (po_minLength o1)) \<and>
     maxLength out = max (minLength out) (if po_maxLength o1 = 0 then 8 else sint (po_maxLength o1)) \<and>
     readerModel out = po_readerModel o1 \<and> readerFull out = po_readerFull o1 \<and>
     readerInterface out = (if po_readerIface o1 = Unknown then [] else readerInterfaceToken W (po_readerIface o1)) \<and>
     optionString d kOptPromptId = po_promptId o1 \<and>
     optionUInt d kOptDeadlineMs 0 = po_deadlineMs o1 \<and> optionUInt d kOptAltDeadlineMs 0 = po_altDeadlineMs o1"
  by (simp add: buildOptions_def option_lifts find_dict Let_def max_def not_less)

text \<open>
  The same for a PIN change: the one range the agent carries bounds the current, the new
  and the confirmation field alike, and the two labels arrive unchanged.
\<close>

theorem change_pin_options_roundtrip:
  "let d = buildChangePinOptionsDict W o1; out = buildMultiOptions d;
       mn = (if po_minLength o1 = 0 then 4 else sint (po_minLength o1));
       mx = max mn (if po_maxLength o1 = 0 then 8 else sint (po_maxLength o1)) in
     primaryMinLength out = mn \<and> primaryMaxLength out = mx \<and> newMinLength out = mn \<and> newMaxLength out = mx \<and>
     cardLabel out = po_cardLabel o1 \<and> pinLabel out = po_pinLabel o1 \<and>
     title out = po_title o1 \<and> description out = po_description o1 \<and> requester out = po_requester o1 \<and>
     artifact out = po_artifact o1 \<and> optionString d kOptPromptId = po_promptId o1 \<and>
     optionUInt d kOptDeadlineMs 0 = po_deadlineMs o1"
  by (simp add: buildMultiOptions_def buildOptions_def option_lifts find_change_dict Let_def max_def not_less)

subsection \<open>The gate and the results\<close>

text \<open>A definite answer is remembered; anything else leaves the question open.\<close>

lemma capability_remembered:
  "prompterUsability probe c = (u, c') \<Longrightarrow>
     (u = Unreachable \<longleftrightarrow> m_capability c' = None) \<and>
     (u = Usable \<longleftrightarrow> m_capability c' = Some True) \<and>
     (m_capability c \<noteq> None \<longrightarrow> c' = c)"
  by (auto simp: prompterUsability_def log_call_def Let_def split: option.splits outcome.splits if_splits)

lemma probe_again_same:
  "prompterUsability probe c = (u, c') \<Longrightarrow> u \<noteq> Unreachable \<Longrightarrow> prompterUsability probe' c' = (u, c')"
  by (auto simp: prompterUsability_def log_call_def Let_def split: option.splits outcome.splits if_splits)

definition prompts :: "client \<Rightarrow> client_call list" where
  "prompts c = filter (\<lambda>k. case k of CallRequestSecret _ _ _ \<Rightarrow> True | CallRequestSecrets _ _ _ \<Rightarrow> True | _ \<Rightarrow> False) (pc_log c)"

lemma prompts_log [simp]:
  "prompts (log_call k c) = prompts c @
     (case k of CallRequestSecret _ _ _ \<Rightarrow> [k] | CallRequestSecrets _ _ _ \<Rightarrow> [k] | _ \<Rightarrow> [])"
  by (auto simp: prompts_def log_call_def split: client_call.split)

lemma refuse_prompts:
  "refuseUnlessUsable probe c = (r, c') \<Longrightarrow> prompts c' = prompts c \<and> (r = None \<longleftrightarrow> m_capability c' = Some True) \<and>
     m_interactiveBudget c' = m_interactiveBudget c"
proof -
  assume r: "refuseUnlessUsable probe c = (r, c')"
  then obtain u where u: "prompterUsability probe c = (u, c')" "r = refusal u"
    by (auto simp: refuseUnlessUsable_def split: prod.splits)
  have "prompts c' = prompts c \<and> m_interactiveBudget c' = m_interactiveBudget c"
    using u(1) by (auto simp: prompterUsability_def Let_def prompts_def log_call_def split: option.splits outcome.splits if_splits)
  with capability_remembered [OF u(1)] u(2) show ?thesis by (cases u) auto
qed


definition sample_client_env :: client_env where
  "sample_client_env = \<lparr>ce_wire = sample_wire, ce_reader = sample_reader_lib, ce_probe = Returned 2,
     ce_read1 = \<lparr>env_resize_ok = True, env_preads = [Moved 64]\<rparr>,
     ce_read2 = \<lparr>env_resize_ok = True, env_preads = [Moved 64]\<rparr>\<rparr>"

definition sample_prompt_options :: prompt_options where
  "sample_prompt_options =
     \<lparr>po_promptId = ''op-1'', po_deadlineMs = 120000, po_readerModel = ''OMNIKEY 5422'', po_readerIface = Contactless,
      po_readerFull = [], po_title = [], po_description = [], po_requester = ''firefox'', po_artifact = ''identity'',
      po_artifacts = [], po_minLength = 0, po_maxLength = 0, po_attempt = 0, po_lastError = [],
      po_altKinds = [''mrz''], po_altDeadlineMs = 300000, po_cardLabel = [], po_pinLabel = []\<rparr>"

definition sealed_view :: "bytes \<Rightarrow> fd_view" where
  "sealed_view b = view_of \<lparr>mf_name = ''librescrs-secret'', mf_data = b,
     mf_seals = F_SEAL_SHRINK OR F_SEAL_GROW OR F_SEAL_WRITE\<rparr>"

lemma client_sample_read: "SecretMemfdReader_read sample_reader_lib \<lparr>env_resize_ok = True, env_preads = [Moved 64]\<rparr>
    (sealed_view [49, 50]) = Some \<lparr>rr_secret = Some [49, 50], rr_error = [], rr_residue = [0, 0]\<rparr>"
  using required_seals_of_creator
  by (simp add: SecretMemfdReader_read_def sealed_view_def view_of_def sample_reader_lib_def Let_def)

lemma sample_request:
  "\<exists>r c'. request sample_client_env (Returned (''ok_mrz'', sealed_view [49, 50], [])) ''can'' sample_prompt_options
      new_client = Some (r, c') \<and> m_capability c' = Some True \<and> pr_status r = PsOk"
proof -
  have ref: "refuseUnlessUsable (Returned 2) new_client = (None, (log_call CallVersion new_client)\<lparr>m_capability := Some True\<rparr>)"
    by (simp add: refuseUnlessUsable_def prompterUsability_def new_client_def log_call_def usable_def kProtocolVersion_def)
  have parse: "parseRequestSecretStatus sample_wire ''ok_mrz'' (offeredMrzAlternative sample_wire ''can'' sample_prompt_options)
      = (PsOk, Some MrzKind)"
    by (simp add: parseRequestSecretStatus_def offeredMrzAlternative_def replyStatusOf_def sample_wire_def
          sample_from_token_def sample_token_def sample_prompt_options_def Let_def)
  show ?thesis
    by (simp add: request_def sample_client_env_def ref parse client_sample_read Let_def)
       (simp add: log_call_def empty_result_def)
qed


text \<open>
  A result holds a secret exactly when it is a success, and it names the MRZ kind only
  when the request offered that alternative and the secret is there; a failed or refused
  prompt never carries bytes. For a PIN change both secrets are there or neither is.
\<close>

theorem secret_iff_ok:
  assumes "wire_ok (ce_wire E)"
    and "request E reply knd o1 c = Some (r, c1)" "requestPinChange E reply2 o1 c = Some (r2, c2)"
  shows "(pr_secret r \<noteq> None \<longleftrightarrow> pr_status r = PsOk) \<and>
    (pr_chosenKind r \<noteq> None \<longrightarrow> pr_status r = PsOk \<and> offeredMrzAlternative (ce_wire E) knd o1) \<and>
    (pc_current r2 \<noteq> None \<longleftrightarrow> pc_status r2 = PsOk) \<and> (pc_newPin r2 \<noteq> None \<longleftrightarrow> pc_status r2 = PsOk)"
proof -
  have refusal_not_ok: "refusal u = Some (st, msg) \<Longrightarrow> st \<noteq> PsOk" for u st msg by (cases u) auto
  have ref: "fst (refuseUnlessUsable p c) = Some (st, msg) \<Longrightarrow> st \<noteq> PsOk" for p c st msg
    by (auto simp: refuseUnlessUsable_def refusal_not_ok split: prod.splits)
  have offered: "promptStatusFor (ce_wire E) RsOkMrz b = PsOk \<Longrightarrow> b" for b
    using assms(1) by (auto simp: wire_ok_def)
  have "(pr_secret r \<noteq> None \<longleftrightarrow> pr_status r = PsOk) \<and>
    (pr_chosenKind r \<noteq> None \<longrightarrow> pr_status r = PsOk \<and> offeredMrzAlternative (ce_wire E) knd o1)"
    using assms(2) ref [of "ce_probe E" c] offered
    by (auto simp: request_def empty_result_def parseRequestSecretStatus_def Let_def
          split: option.splits outcome.splits prod.splits if_splits)
  moreover have "(pc_current r2 \<noteq> None \<longleftrightarrow> pc_status r2 = PsOk) \<and> (pc_newPin r2 \<noteq> None \<longleftrightarrow> pc_status r2 = PsOk)"
    using assms(3) ref [of "ce_probe E" c]
    by (auto simp: requestPinChange_def empty_change_result_def Let_def
          split: option.splits outcome.splits prod.splits if_splits)
  ultimately show ?thesis by blast
qed

theorem secret_iff_ok_witness:
  "\<exists>r c1 r2 c2. request sample_client_env (Returned (''ok_mrz'', sealed_view [49, 50], [])) ''can'' sample_prompt_options
      new_client = Some (r, c1) \<and>
     requestPinChange sample_client_env (Threw ''down'') sample_prompt_options new_client = Some (r2, c2) \<and>
     pr_secret r \<noteq> None \<and> pc_current r2 = None"
proof -
  obtain r c1 where r: "request sample_client_env (Returned (''ok_mrz'', sealed_view [49, 50], [])) ''can''
      sample_prompt_options new_client = Some (r, c1)" "pr_status r = PsOk"
    using sample_request by blast
  obtain r2 c2 where r2: "requestPinChange sample_client_env (Threw ''down'') sample_prompt_options new_client = Some (r2, c2)"
    "pc_status r2 = PsError"
    by (simp add: requestPinChange_def sample_client_env_def refuseUnlessUsable_def prompterUsability_def new_client_def
          log_call_def usable_def kProtocolVersion_def empty_change_result_def Let_def)
  have "wire_ok (ce_wire sample_client_env)" by (simp add: sample_client_env_def sample_wire_ok)
  from secret_iff_ok [OF this r(1) r2(1)] r r2 show ?thesis by auto
qed

end
