(* ===== verification/Error_Names.thy ===== *)
theory Error_Names
  imports LL_Prelude
begin

text \<open>The agent's D-Bus error names, \<^verbatim>\<open>common/AgentErrorNames.h\<close>, and an error as a reply carries it.\<close>

definition kErrUnknownCard :: string where "kErrUnknownCard = ''org.librescrs.Agent.Error.UnknownCard''"
definition kErrKeyNotFound :: string where "kErrKeyNotFound = ''org.librescrs.Agent.Error.KeyNotFound''"
definition kErrNotAuthorized :: string where "kErrNotAuthorized = ''org.librescrs.Agent.Error.NotAuthorized''"
definition kErrRateLimited :: string where "kErrRateLimited = ''org.librescrs.Agent.Error.RateLimited''"
definition kErrUserNotLoggedIn :: string where "kErrUserNotLoggedIn = ''org.librescrs.Agent.Error.UserNotLoggedIn''"
definition kErrAuthFailed :: string where "kErrAuthFailed = ''org.librescrs.Agent.Error.AuthFailed''"
definition kErrNotSupported :: string where "kErrNotSupported = ''org.librescrs.Agent.Error.NotSupported''"
definition kErrCommunication :: string where "kErrCommunication = ''org.librescrs.Agent.Error.CommunicationError''"
definition kErrCancelled :: string where "kErrCancelled = ''org.librescrs.Agent.Error.Cancelled''"
definition kErrUnsupportedOnThisCard :: string where
  "kErrUnsupportedOnThisCard = ''org.librescrs.Agent.Error.UnsupportedOnThisCard''"
definition kErrInvalidRequest :: string where "kErrInvalidRequest = ''org.librescrs.Agent.Error.InvalidRequest''"

lemmas err_names = kErrUnknownCard_def kErrKeyNotFound_def kErrNotAuthorized_def kErrRateLimited_def
  kErrUserNotLoggedIn_def kErrAuthFailed_def kErrNotSupported_def kErrCommunication_def kErrCancelled_def
  kErrUnsupportedOnThisCard_def kErrInvalidRequest_def

text \<open>\<^verbatim>\<open>sdbus::Error\<close>: a name and a message.\<close>

datatype bus_error = BusErr (err_name: string) (err_message: string)

end
