(* ===== verification/Authorization.thy ===== *)
theory Authorization
  imports Error_Names Std_Map Proc_Pin
begin

text \<open>
  Authorization of a mutating call: the polkit subject and question of
  \<^verbatim>\<open>agent/src/PolkitAuthorizer.cpp\<close> and the deferred reply around them,
  \<^verbatim>\<open>agent/src/dbus/AuthorizedReply.h\<close> with its \<^verbatim>\<open>GrantGate\<close>. What the bus daemon and polkit
  answer are arguments. The locale \<open>authority\<close> is what the deferred reply relies on;
  \<^verbatim>\<open>PolkitAuthorizer\<close> interprets it.
\<close>

subsection \<open>The start time of a process\<close>

text \<open>\<^verbatim>\<open>std::isspace\<close> in the C locale.\<close>

definition is_space :: "char \<Rightarrow> bool" where
  "is_space c \<longleftrightarrow> of_char c \<in> {9 :: nat, 10, 11, 12, 13, 32}"

text \<open>Repeated extraction of whitespace-separated words.\<close>

fun ws_words :: "string \<Rightarrow> string \<Rightarrow> string list" where
  "ws_words acc [] = (if acc = [] then [] else [rev acc])"
| "ws_words acc (c # s) =
     (if is_space c then (if acc = [] then ws_words [] s else rev acc # ws_words [] s)
      else ws_words (c # acc) s)"

text \<open>
  \<^verbatim>\<open>std::stoull\<close>: the value and the number of characters consumed, \<^const>\<open>None\<close> for either
  exception. A sign is accepted, and a minus negates in 64 bits.
\<close>

definition stoull :: "string \<Rightarrow> (u64 \<times> nat) option" where
  "stoull s =
     (let blanks = length (takeWhile is_space s);
          s1 = drop blanks s;
          sign = (if s1 \<noteq> [] \<and> (hd s1 = CHR ''-'' \<or> hd s1 = CHR ''+'') then 1 else 0);
          ds = takeWhile is_digit (drop sign s1)
      in if ds = [] then None
         else if digits_value ds \<ge> 2 ^ 64 then None
         else
           let v = of_nat (digits_value ds)
           in Some (if sign = 1 \<and> hd s1 = CHR ''-'' then - v else v, blanks + sign + length ds))"

definition kStartTimeIndex :: nat where "kStartTimeIndex = 19"

definition parseProcStartTime :: "string \<Rightarrow> u64 option" where
  "parseProcStartTime statContent =
     (case rfind (CHR '')'') statContent of
        None \<Rightarrow> None
      | Some close \<Rightarrow>
          if close + 1 \<ge> length statContent then None
          else
            let fields = take 21 (ws_words [] (drop (close + 1) statContent)) in
            if length fields \<le> kStartTimeIndex then None
            else
              (case stoull (fields ! kStartTimeIndex) of
                 None \<Rightarrow> None
               | Some (v, consumed) \<Rightarrow>
                   if consumed \<noteq> length (fields ! kStartTimeIndex) then None else Some v))"

definition readStartTime ::
  "pin_env \<Rightarrow> kernel \<Rightarrow> kernel \<Rightarrow> kernel \<Rightarrow> kernel \<times> int list \<Rightarrow> u32 \<Rightarrow> u64 option" where
  "readStartTime env k0 k1 k2 k3 pid =
     (case readProcStatPinned env k0 k1 k2 k3 (sint pid) of
        None \<Rightarrow> None
      | Some stat \<Rightarrow> parseProcStartTime stat)"

subsection \<open>The subject\<close>

type_synonym details = "(string, variant) smap"

definition uidDetail :: "u32 \<Rightarrow> variant" where
  "uidDetail uid = VInt32 uid"

definition buildUnixProcessDetails :: "u32 \<Rightarrow> u64 \<Rightarrow> u32 option \<Rightarrow> details" where
  "buildUnixProcessDetails pid startTime uid =
     (let d = smap_emplace ''start-time'' (VUInt64 startTime) (smap_emplace ''pid'' (VUInt32 pid) []) in
      case uid of None \<Rightarrow> d | Some u \<Rightarrow> smap_emplace ''uid'' (uidDetail u) d)"

text \<open>Every \<^verbatim>\<open>get\<close> of a member with another type throws, and the throw means no subject.\<close>

definition unixProcessDetailsFrom :: "details \<Rightarrow> (u32 \<Rightarrow> u64 option) \<Rightarrow> details option" where
  "unixProcessDetailsFrom credentials startTimeOf =
     (let uid = (case smap_find credentials ''UnixUserID'' of
                   None \<Rightarrow> Some None | Some v \<Rightarrow> map_option Some (get_u32 v))
      in case uid of
           None \<Rightarrow> None
         | Some uid \<Rightarrow>
             (case (smap_find credentials ''ProcessFD'', uid) of
                (Some v, Some u) \<Rightarrow>
                  (case get_fd v of
                     None \<Rightarrow> None
                   | Some fd \<Rightarrow> Some (smap_emplace ''uid'' (uidDetail u) (smap_emplace ''pidfd'' (VFd fd) [])))
              | _ \<Rightarrow>
                  (case smap_find credentials ''ProcessID'' of
                     None \<Rightarrow> None
                   | Some v \<Rightarrow>
                       (case get_u32 v of
                          None \<Rightarrow> None
                        | Some pid \<Rightarrow>
                            (case startTimeOf pid of
                               None \<Rightarrow> None
                             | Some startTime \<Rightarrow> Some (buildUnixProcessDetails pid startTime uid))))))"

subsection \<open>The question\<close>

datatype outcome = Granted | Denied | Undecided

definition interpretReply :: "bool \<Rightarrow> bool \<Rightarrow> bool" where
  "interpretReply isAuthorized isChallenge = isAuthorized"

definition outcomeOf :: "bool \<times> bool \<Rightarrow> outcome" where
  "outcomeOf reply = (if interpretReply (fst reply) (snd reply) then Granted else Denied)"

text \<open>
  What one call meets: the bus daemon's credentials for the caller, \<^const>\<open>None\<close> for a failed
  call, and the start-time reader.
\<close>

record polkit_env =
  pe_credentials :: "string \<Rightarrow> details option"
  pe_startTime :: "u32 \<Rightarrow> u64 option"

definition subjectFor :: "polkit_env \<Rightarrow> string \<Rightarrow> (string \<times> details) option" where
  "subjectFor P busName =
     (if busName = [] then None
      else
        case pe_credentials P busName of
          None \<Rightarrow> None
        | Some credentials \<Rightarrow>
            (case unixProcessDetailsFrom credentials (pe_startTime P) of
               None \<Rightarrow> None
             | Some details \<Rightarrow> Some (''unix-process'', details)))"

record question =
  q_subject :: "string \<times> details"
  q_action :: string
  q_flags :: u32
  q_timeout :: int

definition kAllowUserInteraction :: u32 where "kAllowUserInteraction = 1"

text \<open>90 seconds, in milliseconds.\<close>

definition kAuthorizationBudget :: int where "kAuthorizationBudget = 90 * 1000"

definition polkit_question :: "string \<times> details \<Rightarrow> string \<Rightarrow> question" where
  "polkit_question subject actionId =
     \<lparr>q_subject = subject, q_action = actionId, q_flags = kAllowUserInteraction, q_timeout = kAuthorizationBudget\<rparr>"

text \<open>\<open>ask\<close> is polkit: its reply to a question, \<^const>\<open>None\<close> for an error.\<close>

definition authorize :: "polkit_env \<Rightarrow> (question \<Rightarrow> (bool \<times> bool) option) \<Rightarrow> string \<Rightarrow> string \<Rightarrow> outcome" where
  "authorize P ask actionId caller =
     (case subjectFor P caller of
        None \<Rightarrow> Undecided
      | Some subject \<Rightarrow>
          (case ask (polkit_question subject actionId) of
             None \<Rightarrow> Undecided
           | Some reply \<Rightarrow> outcomeOf reply))"

text \<open>
  The asynchronous form: an answer at once, or a question on its way (\<open>sent\<close> is whether the
  call could be sent at all), whose reply or error gives the answer later.
\<close>

definition authorizeAsync :: "polkit_env \<Rightarrow> bool \<Rightarrow> string \<Rightarrow> string \<Rightarrow> outcome + question" where
  "authorizeAsync P sent actionId caller =
     (case subjectFor P caller of
        None \<Rightarrow> Inl Undecided
      | Some subject \<Rightarrow> if sent then Inr (polkit_question subject actionId) else Inl Undecided)"

definition onCheckReply :: "question \<Rightarrow> (bool \<times> bool) option \<Rightarrow> outcome" where
  "onCheckReply q r = (case r of None \<Rightarrow> Undecided | Some reply \<Rightarrow> outcomeOf reply)"

subsection \<open>The deferred reply\<close>

text \<open>A granted body: its results, an \<^verbatim>\<open>sdbus::Error\<close> it throws, or another exception.\<close>

datatype 'r body = Results 'r | ThrowsBus bus_error | ThrowsStd string

datatype 'r reply = Ok 'r | Err bus_error

definition replyWith :: "'r body \<Rightarrow> 'r reply" where
  "replyWith b =
     (case b of
        Results r \<Rightarrow> Ok r
      | ThrowsBus e \<Rightarrow> Err e
      | ThrowsStd what \<Rightarrow> Err (BusErr ''org.freedesktop.DBus.Error.Failed'' what))"

text \<open>
  The state one deferred call shares: whether its completion ran, the replies sent, how
  often the body ran, and the gate of the object it runs on.
\<close>

record 'r pending =
  answered :: bool
  replies :: "'r reply list"
  body_runs :: nat
  m_closed :: bool

definition PendingReply :: "bool \<Rightarrow> 'r pending" where
  "PendingReply gate = \<lparr>answered = False, replies = [], body_runs = 0, m_closed = gate\<rparr>"

definition send :: "'r reply \<Rightarrow> 'r pending \<Rightarrow> 'r pending" where
  "send r p = p\<lparr>replies := replies p @ [r]\<rparr>"

definition drop_reply :: "'r pending \<Rightarrow> 'r pending" where
  "drop_reply p =
     (if answered p then p
      else send (Err (BusErr kErrCommunication
        ''The agent stopped before the authorization service answered; nothing was changed'')) p)"

definition runIfOpen :: "('r pending \<Rightarrow> 'r pending) \<Rightarrow> 'r pending \<Rightarrow> bool \<times> 'r pending" where
  "runIfOpen f p = (if m_closed p then (False, p) else (True, f p))"

definition close_gate :: "'r pending \<Rightarrow> 'r pending" where
  "close_gate p = p\<lparr>m_closed := True\<rparr>"

definition authorizeThenReply :: "string \<Rightarrow> 'r body \<Rightarrow> outcome \<Rightarrow> 'r pending \<Rightarrow> 'r pending" where
  "authorizeThenReply denied granted outcome p =
     (let p = p\<lparr>answered := True\<rparr> in
      case outcome of
        Denied \<Rightarrow> send (Err (BusErr kErrNotAuthorized denied)) p
      | Undecided \<Rightarrow>
          send (Err (BusErr kErrCommunication ''The authorization service did not answer; nothing was changed'')) p
      | Granted \<Rightarrow>
          (case runIfOpen (\<lambda>p. send (replyWith granted) (p\<lparr>body_runs := Suc (body_runs p)\<rparr>)) p of
             (True, p) \<Rightarrow> p
           | (False, p) \<Rightarrow>
               send (Err (BusErr kErrCommunication
                 ''The object went away while authorization was pending; nothing was changed'')) p))"

text \<open>
  The life of a deferred call: \<open>answer\<close> is what the authority does when asked, \<open>finish\<close> how it
  reads the reply \<open>r\<close> to its question, \<^const>\<open>None\<close> when the agent stops first. The object's
  gate may close before the answer and after it. The last holder of the reply handle then
  lets it go.
\<close>

definition lifetime ::
  "string \<Rightarrow> 'b body \<Rightarrow> outcome + 'q \<Rightarrow> ('q \<Rightarrow> 'r \<Rightarrow> outcome) \<Rightarrow> 'r option \<Rightarrow> bool \<Rightarrow> bool \<Rightarrow> 'b pending" where
  "lifetime denied granted answer finish r early late =
     (let p = PendingReply False; p1 = (if early then close_gate p else p) in
      drop_reply
        (case answer of
           Inl outc \<Rightarrow> authorizeThenReply denied granted outc p
         | Inr q \<Rightarrow>
             (case r of
                None \<Rightarrow> p1
              | Some r \<Rightarrow>
                  let p2 = authorizeThenReply denied granted (finish q r) p1 in
                  if late then close_gate p2 else p2)))"

subsection \<open>What the deferred reply relies on\<close>

text \<open>
  An authority answers at once without granting, or later from the reply to one question;
  it grants only what that reply authorizes.
\<close>

locale authority =
  fixes start :: "'c \<Rightarrow> outcome + 'q"
    and finish :: "'q \<Rightarrow> 'r \<Rightarrow> outcome"
    and authorized :: "'r \<Rightarrow> bool"
  assumes start_never_grants: "start c = Inl outc \<Longrightarrow> outc \<noteq> Granted"
    and finish_grants: "finish q r = Granted \<longleftrightarrow> authorized r"
begin

lemma replied_once: "length (replies (lifetime denied granted (start c) finish r early late)) = 1"
  by (simp add: lifetime_def PendingReply_def authorizeThenReply_def drop_reply_def send_def close_gate_def
        runIfOpen_def Let_def split: sum.split option.split outcome.split)

lemma body_runs_iff:
  "body_runs (lifetime denied granted (start c) finish r early late) =
     (if (\<exists>q r'. start c = Inr q \<and> r = Some r' \<and> authorized r') \<and> \<not> early then 1 else 0)"
proof (cases "start c")
  case (Inl outc)
  with start_never_grants have "outc \<noteq> Granted" by blast
  with Inl show ?thesis
    by (cases outc) (simp_all add: lifetime_def PendingReply_def authorizeThenReply_def drop_reply_def send_def Let_def)
next
  case (Inr q)
  show ?thesis
  proof (cases r)
    case None
    with Inr show ?thesis
      by (simp add: lifetime_def PendingReply_def drop_reply_def send_def close_gate_def Let_def)
  next
    case (Some r')
    with Inr finish_grants [of q r'] show ?thesis
      by (cases "finish q r'")
         (auto simp: lifetime_def PendingReply_def authorizeThenReply_def drop_reply_def send_def close_gate_def
           runIfOpen_def Let_def)
  qed
qed

end

interpretation polkit: authority "\<lambda>(P, sent, actionId, caller). authorizeAsync P sent actionId caller"
  onCheckReply "\<lambda>r. \<exists>b. r = Some (True, b)"
  by unfold_locales
     (auto simp: authorizeAsync_def onCheckReply_def outcomeOf_def interpretReply_def
       split: option.splits if_splits)

subsection \<open>Properties\<close>

text \<open>
  C9: a deferred call is answered exactly once, and its body runs at most once, exactly when
  polkit answered that the caller is authorized and the object was still there. A caller
  whose body did not run gets an error, and is told it was refused only when polkit
  decided so: an unreachable polkit, an unresolvable caller, an object that went away and
  an agent that stops all read as a communication error.
\<close>

theorem deferred_call_decided:
  "let p = lifetime denied granted (authorizeAsync P sent action caller) onCheckReply r early late in
     length (replies p) = 1 \<and>
     body_runs p =
       (if (\<exists>q b. authorizeAsync P sent action caller = Inr q \<and> r = Some (Some (True, b))) \<and> \<not> early then 1 else 0) \<and>
     (body_runs p = 0 \<longrightarrow>
        (\<exists>msg. replies p = [Err (BusErr kErrCommunication msg)]) \<or>
        replies p = [Err (BusErr kErrNotAuthorized denied)] \<and> (\<exists>b. r = Some (Some (False, b))))"
proof -
  let ?p = "lifetime denied granted (authorizeAsync P sent action caller) onCheckReply r early late"
  have once: "length (replies ?p) = 1"
    using polkit.replied_once [of denied granted "(P, sent, action, caller)" r early late] by simp
  have runs: "body_runs ?p =
      (if (\<exists>q b. authorizeAsync P sent action caller = Inr q \<and> r = Some (Some (True, b))) \<and> \<not> early then 1 else 0)"
    using polkit.body_runs_iff [of denied granted "(P, sent, action, caller)" r early late] by auto
  have "(\<exists>msg. replies ?p = [Err (BusErr kErrCommunication msg)]) \<or>
        replies ?p = [Err (BusErr kErrNotAuthorized denied)] \<and> (\<exists>b. r = Some (Some (False, b)))"
    if "body_runs ?p = 0"
  proof (cases "authorizeAsync P sent action caller")
    case (Inl outc)
    then have "outc = Undecided" by (auto simp: authorizeAsync_def split: option.splits if_splits)
    with Inl show ?thesis
      by (simp add: lifetime_def PendingReply_def authorizeThenReply_def drop_reply_def send_def Let_def)
  next
    case (Inr q)
    show ?thesis
    proof (cases r)
      case None
      with Inr show ?thesis
        by (simp add: lifetime_def PendingReply_def drop_reply_def send_def close_gate_def Let_def)
    next
      case (Some r')
      with Inr that runs show ?thesis
        by (cases r'; cases "fst (the r')")
           (auto simp: lifetime_def PendingReply_def authorizeThenReply_def drop_reply_def send_def close_gate_def
             runIfOpen_def onCheckReply_def outcomeOf_def interpretReply_def Let_def split: if_splits)
    qed
  qed
  with once runs show ?thesis by (simp add: Let_def)
qed

theorem deferred_call_decided_witness:
  "replies (lifetime ''no'' (Results True) (authorizeAsync
      \<lparr>pe_credentials = (\<lambda>_. None), pe_startTime = (\<lambda>_. None)\<rparr> True ''act'' '':1.7'') onCheckReply
      (Some (Some (True, False))) False False) \<noteq> [Ok True]"
  using deferred_call_decided [of "''no''" "Results True"
      "\<lparr>pe_credentials = (\<lambda>_. None), pe_startTime = (\<lambda>_. None)\<rparr>" True "''act''" "'':1.7''" "Some (Some (True, False))" False False]
  by (auto simp: authorizeAsync_def subjectFor_def Let_def)

lemma ws_words_word: "list_all (\<lambda>c. \<not> is_space c) w \<Longrightarrow> ws_words acc (w @ s) = ws_words (rev w @ acc) s"
  by (induction w arbitrary: acc) auto

lemma ws_words_spaces: "list_all is_space s \<Longrightarrow> ws_words acc s = (if acc = [] then [] else [rev acc])"
  by (induction s arbitrary: acc) auto

lemma space_is_space [simp]: "is_space (CHR '' '')"
  by (simp add: is_space_def)

lemma ws_words_fields:
  "list_all (\<lambda>f. f \<noteq> [] \<and> list_all (\<lambda>c. \<not> is_space c) f) fs \<Longrightarrow> list_all is_space t \<Longrightarrow>
     ws_words [] (concat (map (\<lambda>f. CHR '' '' # f) fs) @ t) = fs"
proof (induction fs)
  case Nil
  then show ?case by (simp add: ws_words_spaces)
next
  case (Cons f fs)
  let ?rest = "concat (map (\<lambda>f. CHR '' '' # f) fs) @ t"
  have IH: "ws_words [] ?rest = fs" using Cons by simp
  have "ws_words [] (CHR '' '' # f @ ?rest) = ws_words (rev f) ?rest"
    using Cons.prems ws_words_word [of f "[]" ?rest] by simp
  also have "\<dots> = f # ws_words [] ?rest"
  proof (cases fs)
    case Nil
    with Cons.prems show ?thesis by (simp add: ws_words_spaces)
  next
    case (Cons g gs)
    with \<open>list_all _ (f # fs)\<close> show ?thesis by simp
  qed
  finally show ?case using IH by simp
qed

lemma show_nat_hd: "is_digit (hd (show_nat n))"
  using show_nat_digits [of n] by (cases "show_nat n") auto

lemma digit_not_other: "is_digit c \<Longrightarrow> \<not> is_space c \<and> c \<noteq> CHR ''-'' \<and> c \<noteq> CHR ''+''"
  by (auto simp: is_digit_def is_space_def)

lemma stoull_show_nat: "n < 2 ^ 64 \<Longrightarrow> stoull (show_nat n) = Some (of_nat n, length (show_nat n))"
proof -
  assume "n < 2 ^ 64"
  moreover have "takeWhile is_space (show_nat n) = []"
    using show_nat_hd [of n] digit_not_other by (cases "show_nat n") auto
  ultimately show ?thesis
    using digit_not_other [OF show_nat_hd [of n]] by (simp add: stoull_def Let_def)
qed

lemma show_nat_field:
  "show_nat n \<noteq> [] \<and> list_all (\<lambda>c. \<not> is_space c) (show_nat n) \<and> CHR '')'' \<notin> set (show_nat n)"
proof -
  have "\<not> is_digit (CHR '')'')" by (simp add: is_digit_def)
  then show ?thesis using show_nat_digits [of n] digit_not_other unfolding list_all_iff by auto
qed

text \<open>
  The start time is read from the right field of a kernel status line, whatever the
  program is called. The command name may contain blanks and parentheses; the fields after
  it are counted from the last closing parenthesis.
\<close>

theorem start_time_of_stat_line:
  assumes "list_all (\<lambda>f. f \<noteq> [] \<and> list_all (\<lambda>c. \<not> is_space c) f \<and> CHR '')'' \<notin> set f) fs"
    and "length fs > 19" "fs ! 19 = show_nat ticks" "ticks < 2 ^ 64"
  shows "parseProcStartTime
    (pid_text @ '' ('' @ comm @ '')'' @ concat (map (\<lambda>f. CHR '' '' # f) fs) @ [CHR 0x0A]) = Some (of_nat ticks)"
proof -
  let ?post = "concat (map (\<lambda>f. CHR '' '' # f) fs) @ [CHR 0x0A]"
  let ?pre = "pid_text @ '' ('' @ comm"
  have nl: "is_space (CHR 0x0A)" by (simp add: is_space_def)
  have "CHR '')'' \<notin> set ?post" using assms(1) by (auto simp: list_all_iff)
  then have rf: "rfind (CHR '')'') (?pre @ CHR '')'' # ?post) = Some (length ?pre)" by (rule rfind_append_notin)
  have words: "ws_words [] ?post = fs"
    using assms(1) nl by (intro ws_words_fields) (auto simp: list_all_iff)
  have "drop (length xs + 1) (xs @ c # ys) = ys" for xs ys :: string and c by simp
  then have "drop (length ?pre + 1) (?pre @ CHR '')'' # ?post) = ?post" by blast
  moreover have "take 21 fs ! 19 = show_nat ticks" "\<not> length (take 21 fs) \<le> 19" using assms(2,3) by simp_all
  moreover have "parseProcStartTime (?pre @ CHR '')'' # ?post) = Some (of_nat ticks)"
    unfolding parseProcStartTime_def rf
    using calculation words stoull_show_nat [OF assms(4)]
    by (simp only: option.case if_False Let_def kStartTimeIndex_def) simp
  ultimately show ?thesis by simp
qed

theorem start_time_of_stat_line_witness:
  "parseProcStartTime (''42'' @ '' ('' @ ''a) (b'' @ '')'' @
      concat (map (\<lambda>f. CHR '' '' # f) (replicate 19 ''0'' @ [show_nat 777])) @ [CHR 0x0A]) = Some 777"
proof -
  have "list_all (\<lambda>f. f \<noteq> [] \<and> list_all (\<lambda>c. \<not> is_space c) f \<and> CHR '')'' \<notin> set f) (replicate 19 ''0'' @ [show_nat 777])"
    using show_nat_field [of 777] by (simp add: list_all_iff) (simp add: is_space_def)
  from start_time_of_stat_line [OF this, of 777 "''42''" "''a) (b''"] show ?thesis
    by (simp add: nth_append)
qed

text \<open>A signed field passes as well: a minus wraps around instead of being rejected.\<close>

lemma signed_start_time_accepted: "stoull ''-5'' = Some (- 5, 2)"
  by (simp add: stoull_def is_digit_def is_space_def digits_value_def digit_val_def)

text \<open>
  A polkit subject always pins its process: it is a process descriptor with the owner's
  uid, or a pid together with the start time read for that very pid; a credential of an
  unexpected type, a missing pid and an unreadable start time give no subject, so nothing
  is asked. The uid keeps all of its bits.
\<close>

theorem subject_pins_process:
  assumes "unixProcessDetailsFrom creds startTimeOf = Some d"
  shows "(\<exists>fd u. smap_find creds ''ProcessFD'' = Some (VFd fd) \<and> smap_find creds ''UnixUserID'' = Some (VUInt32 u) \<and>
       smap_find d ''pidfd'' = Some (VFd fd) \<and> smap_find d ''uid'' = Some (VInt32 u) \<and> smap_find d ''pid'' = None) \<or>
    (\<exists>pid t. smap_find creds ''ProcessID'' = Some (VUInt32 pid) \<and> startTimeOf pid = Some t \<and>
       smap_find d ''pid'' = Some (VUInt32 pid) \<and> smap_find d ''start-time'' = Some (VUInt64 t) \<and>
       smap_find d ''pidfd'' = None \<and>
       smap_find d ''uid'' = (case smap_find creds ''UnixUserID'' of Some (VUInt32 u) \<Rightarrow> Some (VInt32 u) | _ \<Rightarrow> None))"
proof -
  have uid: "get_u32 v = Some u \<longleftrightarrow> v = VUInt32 u" for v u by (cases v) auto
  have fd: "get_fd v = Some n \<longleftrightarrow> v = VFd n" for v n by (cases v) auto
  note look = smap_find_emplace smap_ok_emplace smap_find_def [of "[]"]
  from assms show ?thesis
    by (auto simp: unixProcessDetailsFrom_def buildUnixProcessDetails_def uidDetail_def uid fd look Let_def
          split: option.splits)
qed

theorem subject_pins_process_witness:
  "\<exists>d. unixProcessDetailsFrom [(''ProcessID'', VUInt32 42)] (\<lambda>_. Some 777) = Some d \<and>
     smap_find d ''start-time'' = Some (VUInt64 777)"
proof -
  obtain d where "unixProcessDetailsFrom [(''ProcessID'', VUInt32 42)] (\<lambda>_. Some 777) = Some d"
    by (simp add: unixProcessDetailsFrom_def smap_find_def)
  from subject_pins_process [OF this] this show ?thesis by (auto simp: smap_find_def [of "[(''ProcessID'', VUInt32 42)]"])
qed

end
