(* ===== verification/Result_Store.thy ===== *)
theory Result_Store
  imports Sealed_Memfd
begin

text \<open>
  The late-subscriber recovery store of a typed operation
  (\<^verbatim>\<open>agent/src/dbus/TypedResultStore.h\<close> and \<^verbatim>\<open>.cpp\<close>): publishing a result, reading it back,
  and the sealed descriptors minted on the way. Every write of a store happens in one locked
  section, so an operation on a store is a function of the store; the descriptor table, the
  answers of the seal primitive and the allocations that throw \<^verbatim>\<open>bad_alloc\<close> are the
  surrounding world. The row and metadata types of the agent library stay type variables.
\<close>

subsection \<open>The world of a call\<close>

text \<open>
  One answer of \<^verbatim>\<open>SealFn\<close>: a descriptor number the kernel had free, or \<open>-1\<close>. A script that
  has run out answers like a process with no descriptor left.
\<close>

datatype seal_answer = Sealed nat | SealFails

record seal_world =
  sw_fds :: fdtable
  sw_seals :: "seal_answer list"
  sw_allocs :: "bool list"

definition sealed_file :: "bytes \<Rightarrow> memfile" where
  "sealed_file bs = \<lparr>mf_name = ''librescrs-photo'', mf_data = bs,
                     mf_seals = F_SEAL_SHRINK OR F_SEAL_GROW OR F_SEAL_WRITE\<rparr>"

definition seal_step :: "seal_answer \<Rightarrow> bytes \<Rightarrow> fdtable \<Rightarrow> int \<times> fdtable" where
  "seal_step a bs t =
     (case a of
        SealFails \<Rightarrow> (- 1, t)
      | Sealed n \<Rightarrow> if t n = None then (int n, t(n \<mapsto> sealed_file bs)) else (- 1, t))"

definition seal :: "bytes \<Rightarrow> 'z seal_world_scheme \<Rightarrow> int \<times> 'z seal_world_scheme" where
  "seal bs w =
     (case sw_seals w of
        [] \<Rightarrow> (- 1, w)
      | a # as \<Rightarrow>
          let (fd, t) = seal_step a bs (sw_fds w) in (fd, w\<lparr>sw_fds := t, sw_seals := as\<rparr>))"

text \<open>Whether the next copy or \<^verbatim>\<open>reserve\<close> throws.\<close>

definition throws_alloc :: "'z seal_world_scheme \<Rightarrow> bool \<times> 'z seal_world_scheme" where
  "throws_alloc w =
     (case sw_allocs w of [] \<Rightarrow> (False, w) | b # bs \<Rightarrow> (b, w\<lparr>sw_allocs := bs\<rparr>))"

definition close_fd :: "int \<Rightarrow> 'z seal_world_scheme \<Rightarrow> 'z seal_world_scheme" where
  "close_fd fd w = (if 0 \<le> fd then w\<lparr>sw_fds := (sw_fds w)(nat fd := None)\<rparr> else w)"

primrec closeAll :: "int list \<Rightarrow> 'z seal_world_scheme \<Rightarrow> 'z seal_world_scheme" where
  "closeAll [] w = w"
| "closeAll (fd # fds) w = closeAll fds (close_fd fd w)"

subsection \<open>The store and its inline channels\<close>

record 'p result_state =
  rs_ready :: bool
  rs_payload :: 'p

text \<open>
  \<open>torn old new\<close> is what a copy assignment that throws leaves behind: the language promises
  nothing of it.
\<close>

definition publishResult ::
  "('p \<Rightarrow> 'p \<Rightarrow> 'p) \<Rightarrow> 'p result_state \<Rightarrow> 'p \<Rightarrow> 'z seal_world_scheme \<Rightarrow> bool \<times> 'p result_state \<times> 'z seal_world_scheme" where
  "publishResult torn st payload w =
     (let (threw, w) = throws_alloc w in
      if threw then (False, st\<lparr>rs_payload := torn (rs_payload st) payload\<rparr>, w)
      else (True, st\<lparr>rs_payload := payload, rs_ready := True\<rparr>, w))"

definition readStoredResult :: "'p result_state \<Rightarrow> 'z seal_world_scheme \<Rightarrow> 'p option \<times> 'z seal_world_scheme" where
  "readStoredResult st w =
     (if \<not> rs_ready st then (None, w)
      else let (threw, w) = throws_alloc w in
        if threw then (None, w) else (Some (rs_payload st), w))"

subsection \<open>The signed artifact\<close>

record 'm artifact =
  ar_bytes :: bytes
  ar_meta :: 'm

record 'm sealed_sign =
  ss_fd :: int
  ss_meta :: 'm

text \<open>A \<^verbatim>\<open>noexcept\<close> function that lets an exception escape ends the process.\<close>

datatype 'a noexcept = Returns 'a | Terminates

definition sealStoredResult ::
  "'m \<Rightarrow> 'm artifact result_state \<Rightarrow> 'z seal_world_scheme \<Rightarrow> 'm sealed_sign noexcept \<times> 'z seal_world_scheme" where
  "sealStoredResult noMeta st w =
     (if \<not> rs_ready st then (Returns \<lparr>ss_fd = - 1, ss_meta = noMeta\<rparr>, w)
      else
        let (fd, w) = seal (ar_bytes (rs_payload st)) w;
            (threw, w) = throws_alloc w in
        if threw then (Terminates, w)
        else (Returns \<lparr>ss_fd = fd, ss_meta = ar_meta (rs_payload st)\<rparr>, w))"

definition publishSealedResult ::
  "('m \<Rightarrow> 'm \<Rightarrow> 'm) \<Rightarrow> 'm artifact result_state \<Rightarrow> bytes \<Rightarrow> 'm \<Rightarrow> 'z seal_world_scheme \<Rightarrow>
     int \<times> 'm artifact result_state \<times> 'z seal_world_scheme" where
  "publishSealedResult torn st bs meta w =
     (let (fd, w) = seal bs w in
      if fd < 0 then (- 1, st, w)
      else
        let (threw, w) = throws_alloc w in
        if threw then (- 1, st, close_fd fd w)
        else
          let st = st\<lparr>rs_payload := (rs_payload st)\<lparr>ar_bytes := bs\<rparr>\<rparr>;
              (threw, w) = throws_alloc w in
          if threw
          then (- 1, st\<lparr>rs_payload := (rs_payload st)\<lparr>ar_meta := torn (ar_meta (rs_payload st)) meta\<rparr>\<rparr>,
                close_fd fd w)
          else (fd, st\<lparr>rs_payload := (rs_payload st)\<lparr>ar_meta := meta\<rparr>, rs_ready := True\<rparr>, w))"

text \<open>
  \<open>emit\<close> adopts the descriptor and marshals the signal; its flag says that it threw, which
  the caller only logs.
\<close>

definition sealPublishAndEmitSignResult ::
  "('m \<Rightarrow> 'm \<Rightarrow> 'm) \<Rightarrow> (int \<Rightarrow> 'z seal_world_scheme \<Rightarrow> bool \<times> 'z seal_world_scheme) \<Rightarrow> 'm artifact result_state \<Rightarrow> bytes \<Rightarrow> 'm \<Rightarrow>
     'z seal_world_scheme \<Rightarrow> bool \<times> 'm artifact result_state \<times> 'z seal_world_scheme" where
  "sealPublishAndEmitSignResult torn emit st bs meta w =
     (let (fd, st, w) = publishSealedResult torn st bs meta w in
      if fd < 0 then (False, st, w)
      else let (threw, w) = emit fd w in (True, st, w))"

subsection \<open>Photos\<close>

record photo =
  ph_key :: string
  ph_bytes :: bytes

record sealed_photo =
  sp_key :: string
  sp_fd :: int

primrec photo_loop ::
  "photo list \<Rightarrow> sealed_photo list \<Rightarrow> 'z seal_world_scheme \<Rightarrow> sealed_photo list option \<times> 'z seal_world_scheme" where
  "photo_loop [] sealed w = (Some sealed, w)"
| "photo_loop (p # ps) sealed w =
     (if ph_bytes p = [] then photo_loop ps sealed w
      else
        let (fd, w) = seal (ph_bytes p) w in
        if fd < 0 then (None, closeAll (map sp_fd sealed) w)
        else
          let (threw, w) = throws_alloc w in
          if threw then (None, closeAll (map sp_fd sealed) (close_fd fd w))
          else photo_loop ps (sealed @ [\<lparr>sp_key = ph_key p, sp_fd = fd\<rparr>]) w)"

definition sealStoredPhotos ::
  "photo list result_state \<Rightarrow> 'z seal_world_scheme \<Rightarrow> sealed_photo list option \<times> 'z seal_world_scheme" where
  "sealStoredPhotos st w =
     (if \<not> rs_ready st then (None, w)
      else
        let (threw, w) = throws_alloc w in
        if threw then (None, closeAll [] w) else photo_loop (rs_payload st) [] w)"

subsection \<open>A batch of signatures\<close>

record ('m, 'c) batch_row =
  br_displayName :: string
  br_bytes :: bytes
  br_meta :: 'm
  br_code :: 'c

record ('m, 'c) sealed_row =
  sr_displayName :: string
  sr_fd :: int
  sr_meta :: 'm
  sr_code :: 'c

text \<open>
  The loop both batch helpers run. A throw of the row's own copy or of \<^verbatim>\<open>push_back\<close> reaches the
  outer \<^verbatim>\<open>catch\<close>, whose \<^verbatim>\<open>closeAll\<close> sees the rows pushed so far.
\<close>

primrec batch_loop ::
  "('m, 'c) batch_row list \<Rightarrow> ('m, 'c) sealed_row list \<Rightarrow> 'z seal_world_scheme \<Rightarrow>
     ('m, 'c) sealed_row list option \<times> 'z seal_world_scheme" where
  "batch_loop [] sealed w = (Some sealed, w)"
| "batch_loop (r # rs) sealed w =
     (let (fd, w) = seal (br_bytes r) w in
      if fd < 0 then (None, closeAll (map sr_fd sealed) w)
      else
        let (threw, w) = throws_alloc w in
        if threw then (None, closeAll (map sr_fd sealed) w)
        else batch_loop rs
               (sealed @ [\<lparr>sr_displayName = br_displayName r, sr_fd = fd, sr_meta = br_meta r,
                           sr_code = br_code r\<rparr>]) w)"

definition publishSealedSignBatchResult ::
  "(('m, 'c) batch_row list \<Rightarrow> ('m, 'c) batch_row list \<Rightarrow> ('m, 'c) batch_row list) \<Rightarrow>
     ('m, 'c) batch_row list result_state \<Rightarrow> ('m, 'c) batch_row list \<Rightarrow> 'z seal_world_scheme \<Rightarrow>
     ('m, 'c) sealed_row list option \<times> ('m, 'c) batch_row list result_state \<times> 'z seal_world_scheme" where
  "publishSealedSignBatchResult torn st rows w =
     (let (threw, w) = throws_alloc w in
      if threw then (None, st, closeAll [] w)
      else
        let (r, w) = batch_loop rows [] w in
        (case r of
           None \<Rightarrow> (None, st, w)
         | Some sealed \<Rightarrow>
             let (threw, w) = throws_alloc w in
             if threw
             then (None, st\<lparr>rs_payload := torn (rs_payload st) rows\<rparr>, closeAll (map sr_fd sealed) w)
             else (Some sealed, st\<lparr>rs_payload := rows, rs_ready := True\<rparr>, w)))"

definition sealStoredSignBatchResult ::
  "('m, 'c) batch_row list result_state \<Rightarrow> 'z seal_world_scheme \<Rightarrow> ('m, 'c) sealed_row list option \<times> 'z seal_world_scheme" where
  "sealStoredSignBatchResult st w =
     (if \<not> rs_ready st then (None, w)
      else
        let (threw, w) = throws_alloc w in
        if threw then (None, closeAll [] w) else batch_loop (rs_payload st) [] w)"

subsection \<open>The seal primitive as an interface\<close>

text \<open>
  What the store relies on: a failed seal leaves no descriptor behind, a successful one adds
  exactly one, on a free number, holding the bytes. \<open>minted t0 rs t\<close> says that the table
  \<open>t\<close> is \<open>t0\<close> with one sealed file per element of \<open>rs\<close>.
\<close>

definition minted :: "fdtable \<Rightarrow> (int \<times> bytes) list \<Rightarrow> fdtable \<Rightarrow> bool" where
  "minted t0 rs t \<longleftrightarrow>
     distinct (map fst rs) \<and>
     (\<forall>(fd, bs) \<in> set rs. 0 \<le> fd \<and> t0 (nat fd) = None \<and> t (nat fd) = Some (sealed_file bs)) \<and>
     (\<forall>n. int n \<notin> fst ` set rs \<longrightarrow> t n = t0 n)"

locale seal_primitive =
  fixes mint :: "bytes \<Rightarrow> 'w \<Rightarrow> int \<times> 'w"
    and fds :: "'w \<Rightarrow> fdtable"
  assumes mint_fails: "mint bs w = (fd, w') \<Longrightarrow> fd < 0 \<Longrightarrow> fds w' = fds w"
    and mint_fresh: "mint bs w = (fd, w') \<Longrightarrow> 0 \<le> fd \<Longrightarrow> fds w (nat fd) = None"
    and mint_seals: "mint bs w = (fd, w') \<Longrightarrow> 0 \<le> fd \<Longrightarrow> fds w' = (fds w)(nat fd \<mapsto> sealed_file bs)"
begin

lemma minted_snoc:
  assumes "minted t0 rs (fds w)" and "mint bs w = (fd, w')" and "0 \<le> fd"
  shows "minted t0 (rs @ [(fd, bs)]) (fds w')"
proof -
  have free: "fds w (nat fd) = None" and upd: "fds w' = (fds w)(nat fd \<mapsto> sealed_file bs)"
    using assms(2,3) by (auto intro: mint_fresh mint_seals)
  have new: "fd \<notin> fst ` set rs" using assms(1) free by (force simp: minted_def)
  then have "fds w (nat fd) = t0 (nat fd)" using assms(1,3) by (simp add: minted_def)
  with free have free0: "t0 (nat fd) = None" by simp
  have other: "nat fd' \<noteq> nat fd" if "(fd', b) \<in> set rs" for fd' b
    using that new assms(1,3) by (force simp: minted_def)
  show ?thesis
    unfolding minted_def
  proof (intro conjI ballI allI impI)
    show "distinct (map fst (rs @ [(fd, bs)]))" using assms(1) new by (simp add: minted_def)
  next
    fix x assume "x \<in> set (rs @ [(fd, bs)])"
    then show "case x of (fd, bs) \<Rightarrow> 0 \<le> fd \<and> t0 (nat fd) = None \<and> fds w' (nat fd) = Some (sealed_file bs)"
      using assms(1,3) free0 upd other by (auto simp: minted_def)
  next
    fix n assume "int n \<notin> fst ` set (rs @ [(fd, bs)])"
    then show "fds w' n = t0 n" using assms(1,3) upd by (cases "n = nat fd") (auto simp: minted_def)
  qed
qed

lemma minted_kept:
  "minted t0 rs (fds w) \<Longrightarrow> mint bs w = (fd, w') \<Longrightarrow> fd < 0 \<Longrightarrow> minted t0 rs (fds w')"
  by (simp add: mint_fails)

end

interpretation store_seal: seal_primitive seal sw_fds
  by unfold_locales
     (auto simp: seal_def seal_step_def split: list.splits seal_answer.splits if_splits)

text \<open>
  The production primitive, \<^verbatim>\<open>SealedMemfd::create\<close>, is one step of the script: whatever its
  system calls answer, the kernel having handed out a free number.
\<close>

lemma create_is_seal_step:
  assumes "create_photo_fd env bs t = Some ((fd, err), t')"
    and "\<And>n. env_memfd_create env = Inr n \<Longrightarrow> t n = None"
  shows "\<exists>a. seal_step a bs t = (fd, t')"
proof (cases "fd < 0")
  case True
  then have "fd = - 1 \<and> t' = t"
    using assms
    by (auto simp: create_photo_fd_def makeSealedMemfd_def fun_upd_idem
        split: sum.splits option.splits)
  then have "seal_step SealFails bs t = (fd, t')" by (simp add: seal_step_def)
  then show ?thesis ..
next
  case False
  then obtain n where "env_memfd_create env = Inr n" "fd = int n" "t' = t(n \<mapsto> sealed_file bs)"
    using assms(1) write_loop_content [of "env_writes env" bs 0 "[]"]
    by (fastforce simp: create_photo_fd_def makeSealedMemfd_def sealed_file_def
        split: sum.splits option.splits)
  then have "seal_step (Sealed n) bs t = (fd, t')" using assms(2) by (simp add: seal_step_def)
  then show ?thesis ..
qed

lemma throws_alloc_fds [simp]: "throws_alloc w = (b, w') \<Longrightarrow> sw_fds w' = sw_fds w"
  by (auto simp: throws_alloc_def split: list.splits)

lemma seal_allocs [simp]: "seal bs w = (fd, w') \<Longrightarrow> sw_allocs w' = sw_allocs w"
  by (auto simp: seal_def Let_def split: list.splits prod.splits)

lemma throws_alloc_script:
  "throws_alloc w = (b, w') \<Longrightarrow>
     set (sw_allocs w') \<subseteq> set (sw_allocs w) \<and> (b \<longrightarrow> True \<in> set (sw_allocs w))"
  by (cases "sw_allocs w") (auto simp: throws_alloc_def)

lemma minted_Nil [simp]: "minted t0 [] t \<longleftrightarrow> t = t0"
  by (auto simp: minted_def)

lemma close_minted:
  assumes "minted t0 ((fd, bs) # rs) (sw_fds w)"
  shows "minted t0 rs (sw_fds (close_fd fd w))"
proof -
  have fd: "0 \<le> fd" "fd \<notin> fst ` set rs" "t0 (nat fd) = None" using assms by (auto simp: minted_def)
  have upd: "sw_fds (close_fd fd w) = (sw_fds w)(nat fd := None)" using fd by (simp add: close_fd_def)
  have other: "nat fd' \<noteq> nat fd" if "(fd', b) \<in> set rs" for fd' b
    using that fd(1,2) assms by (force simp: minted_def)
  show ?thesis
    unfolding minted_def
  proof (intro conjI ballI allI impI)
    show "distinct (map fst rs)" using assms by (simp add: minted_def)
  next
    fix x assume "x \<in> set rs"
    then show "case x of (fd', bs) \<Rightarrow>
        0 \<le> fd' \<and> t0 (nat fd') = None \<and> sw_fds (close_fd fd w) (nat fd') = Some (sealed_file bs)"
      using assms upd other by (auto simp: minted_def)
  next
    fix n assume "int n \<notin> fst ` set rs"
    then show "sw_fds (close_fd fd w) n = t0 n"
      using assms upd fd by (cases "n = nat fd") (auto simp: minted_def)
  qed
qed

lemma closeAll_minted: "minted t0 rs (sw_fds w) \<Longrightarrow> sw_fds (closeAll (map fst rs) w) = t0"
proof (induction rs arbitrary: w)
  case (Cons r rs)
  then show ?case by (cases r) (auto dest: close_minted)
qed simp

lemma closeAll_minted_prefix:
  "minted t0 (rs @ rs') (sw_fds w) \<Longrightarrow> minted t0 rs' (sw_fds (closeAll (map fst rs) w))"
proof (induction rs arbitrary: w)
  case (Cons r rs)
  then show ?case by (cases r) (auto dest: close_minted)
qed simp

lemma close_last_minted:
  fixes w w' w'' :: "'z seal_world_scheme"
  assumes "minted t0 rs (sw_fds w)" and "seal bs w = (fd, w')" and "0 \<le> fd"
    and "sw_fds w'' = sw_fds w'"
  shows "sw_fds (close_fd fd w'') = sw_fds w"
  using assms store_seal.mint_fresh [OF assms(2,3)] store_seal.mint_seals [OF assms(2,3)]
  by (simp add: close_fd_def fun_upd_idem)

subsection \<open>What the loops leave behind\<close>

definition kept_photos :: "photo list \<Rightarrow> photo list" where
  "kept_photos ps = filter (\<lambda>p. ph_bytes p \<noteq> []) ps"

lemma kept_photos_simps [simp]:
  "kept_photos [] = []"
  "kept_photos (p # ps) = (if ph_bytes p = [] then kept_photos ps else p # kept_photos ps)"
  by (simp_all add: kept_photos_def)

text \<open>The photo loop ends with every kept photo sealed, in order, or with the table it started from.\<close>

lemma photo_loop_spec:
  assumes "photo_loop ps sealed w = (r, w')"
    and "minted t0 (zip (map sp_fd sealed) bss) (sw_fds w)" and "length bss = length sealed"
  shows "case r of
           None \<Rightarrow> sw_fds w' = t0
         | Some out \<Rightarrow>
             map sp_key out = map sp_key sealed @ map ph_key (kept_photos ps) \<and>
             minted t0 (zip (map sp_fd out) (bss @ map ph_bytes (kept_photos ps))) (sw_fds w')"
  using assms
proof (induction ps arbitrary: sealed bss w)
  case Nil
  then show ?case by auto
next
  case (Cons p ps)
  obtain fd w1 where s: "seal (ph_bytes p) w = (fd, w1)" by force
  obtain threw w2 where a: "throws_alloc w1 = (threw, w2)" by force
  have fst_zip: "map fst (zip (map sp_fd sealed) bss) = map sp_fd sealed" using Cons.prems(3) by simp
  consider (skip) "ph_bytes p = []" | (fail) "ph_bytes p \<noteq> []" "fd < 0"
    | (throw) "ph_bytes p \<noteq> []" "0 \<le> fd" "threw" | (push) "ph_bytes p \<noteq> []" "0 \<le> fd" "\<not> threw"
    by linarith
  then show ?case
  proof cases
    case skip
    with Cons.prems Cons.IH [of sealed w bss] show ?thesis by (cases r) simp_all
  next
    case fail
    then have "minted t0 (zip (map sp_fd sealed) bss) (sw_fds w1)"
      using Cons.prems(2) s by (auto intro: store_seal.minted_kept)
    from closeAll_minted [OF this] fst_zip fail Cons.prems(1) s show ?thesis by auto
  next
    case throw
    then have "sw_fds (close_fd fd w2) = sw_fds w"
      using Cons.prems(2) s a by (auto intro: close_last_minted)
    with Cons.prems(2) closeAll_minted [of t0 "zip (map sp_fd sealed) bss" "close_fd fd w2"]
      fst_zip throw Cons.prems(1) s a show ?thesis by auto
  next
    case push
    let ?x = "\<lparr>sp_key = ph_key p, sp_fd = fd\<rparr>"
    have "minted t0 (zip (map sp_fd sealed) bss @ [(fd, ph_bytes p)]) (sw_fds w1)"
      using Cons.prems(2) s push by (auto intro: store_seal.minted_snoc)
    then have "minted t0 (zip (map sp_fd (sealed @ [?x])) (bss @ [ph_bytes p])) (sw_fds w2)"
      using Cons.prems(3) a by simp
    from Cons.IH [OF _ this] push Cons.prems s a show ?thesis by (cases r) auto
  qed
qed

definition row_of :: "('m, 'c) batch_row \<Rightarrow> string \<times> 'm \<times> 'c" where
  "row_of r = (br_displayName r, br_meta r, br_code r)"

definition sealed_row_of :: "('m, 'c) sealed_row \<Rightarrow> string \<times> 'm \<times> 'c" where
  "sealed_row_of r = (sr_displayName r, sr_meta r, sr_code r)"

text \<open>
  The batch loop ends with every row sealed, in order; or it fails, and then the table is the
  one it started from unless a row's copy threw: that row's descriptor stays open.
\<close>

lemma batch_loop_spec:
  assumes "batch_loop rows sealed w = (r, w')"
    and "minted t0 (zip (map sr_fd sealed) bss) (sw_fds w)" and "length bss = length sealed"
  shows "case r of
           None \<Rightarrow> sw_fds w' = t0 \<or> (\<exists>fd bs. minted t0 [(fd, bs)] (sw_fds w') \<and> True \<in> set (sw_allocs w))
         | Some out \<Rightarrow>
             map sealed_row_of out = map sealed_row_of sealed @ map row_of rows \<and>
             minted t0 (zip (map sr_fd out) (bss @ map br_bytes rows)) (sw_fds w')"
  using assms
proof (induction rows arbitrary: sealed bss w)
  case Nil
  then show ?case by auto
next
  case (Cons p ps)
  obtain fd w1 where s: "seal (br_bytes p) w = (fd, w1)" by force
  obtain threw w2 where a: "throws_alloc w1 = (threw, w2)" by force
  have fst_zip: "map fst (zip (map sr_fd sealed) bss) = map sr_fd sealed" using Cons.prems(3) by simp
  have sub: "set (sw_allocs w2) \<subseteq> set (sw_allocs w)" and thr: "threw \<Longrightarrow> True \<in> set (sw_allocs w)"
    using throws_alloc_script [OF a] seal_allocs [OF s] by auto
  consider (fail) "fd < 0" | (throw) "0 \<le> fd" "threw" | (push) "0 \<le> fd" "\<not> threw" by linarith
  then show ?case
  proof cases
    case fail
    then have "minted t0 (zip (map sr_fd sealed) bss) (sw_fds w1)"
      using Cons.prems(2) s by (auto intro: store_seal.minted_kept)
    from closeAll_minted [OF this] fst_zip fail Cons.prems(1) s show ?thesis by auto
  next
    case throw
    have "minted t0 (zip (map sr_fd sealed) bss @ [(fd, br_bytes p)]) (sw_fds w2)"
      using Cons.prems(2) s throw a by (auto intro: store_seal.minted_snoc)
    from closeAll_minted_prefix [OF this] fst_zip thr throw Cons.prems(1) s a show ?thesis by auto
  next
    case push
    let ?x = "\<lparr>sr_displayName = br_displayName p, sr_fd = fd, sr_meta = br_meta p, sr_code = br_code p\<rparr>"
    have "minted t0 (zip (map sr_fd sealed) bss @ [(fd, br_bytes p)]) (sw_fds w1)"
      using Cons.prems(2) s push by (auto intro: store_seal.minted_snoc)
    then have m: "minted t0 (zip (map sr_fd (sealed @ [?x])) (bss @ [br_bytes p])) (sw_fds w2)"
      using Cons.prems(3) a by simp
    from push Cons.prems(1) s a have run: "batch_loop ps (sealed @ [?x]) w2 = (r, w')" by simp
    from Cons.IH [OF run m] Cons.prems(3) sub show ?thesis
      by (cases r) (auto simp: sealed_row_of_def row_of_def)
  qed
qed

subsection \<open>Properties\<close>

lemma minted_single:
  "seal bs w = (fd, w') \<Longrightarrow> 0 \<le> fd \<Longrightarrow> minted (sw_fds w) [(fd, bs)] (sw_fds w')"
  using store_seal.minted_snoc [of "sw_fds w" "[]" w bs fd w'] by simp

lemma publishSealedResult_spec:
  assumes "publishSealedResult torn st bs meta w = (fd, st', w')"
  shows "if fd < 0 then rs_ready st' = rs_ready st \<and> sw_fds w' = sw_fds w
         else rs_ready st' \<and> rs_payload st' = \<lparr>ar_bytes = bs, ar_meta = meta\<rparr> \<and>
              minted (sw_fds w) [(fd, bs)] (sw_fds w')"
proof -
  obtain f w1 where s: "seal bs w = (f, w1)" by force
  obtain b1 w2 where a1: "throws_alloc w1 = (b1, w2)" by force
  obtain b2 w3 where a2: "throws_alloc w2 = (b2, w3)" by force
  show ?thesis
  proof (cases "f < 0")
    case True
    with assms s store_seal.mint_fails [OF s] show ?thesis by (auto simp: publishSealedResult_def)
  next
    case False
    then have undone: "sw_fds (close_fd f w2) = sw_fds w" "sw_fds (close_fd f w3) = sw_fds w"
      using a1 a2 close_last_minted [of "sw_fds w" "[]" w bs f w1] s by simp_all
    have kept: "minted (sw_fds w) [(f, bs)] (sw_fds w3)"
      using False minted_single [OF s] a1 a2 by simp
    show ?thesis
      using assms s a1 a2 undone kept False by (auto simp: publishSealedResult_def Let_def split: if_splits)
  qed
qed

text \<open>
  A signed artifact is published fail-closed. Starting from an unpublished store, the
  publication reports success exactly when the store has become ready; then the store holds
  the artifact and its metadata and exactly one new descriptor is open, sealed over the same
  bytes, which is the one handed to the emit. On failure, whichever seal or copy failed, no
  descriptor is left open. An emit that throws afterwards never turns the success back.
\<close>

theorem sign_publish_fail_closed:
  assumes "sealPublishAndEmitSignResult torn emit st bs meta w = (ok, st', w')" and "\<not> rs_ready st"
  shows "ok = rs_ready st' \<and> (\<not> ok \<longrightarrow> sw_fds w' = sw_fds w) \<and>
         (ok \<longrightarrow> rs_payload st' = \<lparr>ar_bytes = bs, ar_meta = meta\<rparr> \<and>
                (\<exists>fd w1. publishSealedResult torn st bs meta w = (fd, st', w1) \<and>
                         minted (sw_fds w) [(fd, bs)] (sw_fds w1) \<and> w' = snd (emit fd w1)))"
proof -
  obtain fd st1 w1 where p: "publishSealedResult torn st bs meta w = (fd, st1, w1)"
    by (cases "publishSealedResult torn st bs meta w") auto
  note spec = publishSealedResult_spec [OF p]
  have e: "sealPublishAndEmitSignResult torn emit st bs meta w =
      (if fd < 0 then (False, st1, w1) else (True, st1, snd (emit fd w1)))"
    by (simp add: sealPublishAndEmitSignResult_def p split: prod.split)
  show ?thesis
  proof (cases "fd < 0")
    case True
    with e assms spec show ?thesis by simp
  next
    case False
    with e assms have "ok" "st' = st1" "w' = snd (emit fd w1)" by simp_all
    with spec p False show ?thesis by auto
  qed
qed

definition demo_world :: seal_world where
  "demo_world = \<lparr>sw_fds = (\<lambda>_. None), sw_seals = [Sealed 5, Sealed 6, Sealed 7, Sealed 8], sw_allocs = []\<rparr>"

lemma seal_demo [simp]:
  "seal bs \<lparr>sw_fds = t, sw_seals = Sealed n # as, sw_allocs = al, \<dots> = z\<rparr> =
     (if t n = None then (int n, \<lparr>sw_fds = t(n \<mapsto> sealed_file bs), sw_seals = as, sw_allocs = al, \<dots> = z\<rparr>)
      else (- 1, \<lparr>sw_fds = t, sw_seals = as, sw_allocs = al, \<dots> = z\<rparr>))"
  by (simp add: seal_def seal_step_def)

lemma throws_alloc_demo [simp]:
  "throws_alloc \<lparr>sw_fds = t, sw_seals = s, sw_allocs = [], \<dots> = z\<rparr> = (False, \<lparr>sw_fds = t, sw_seals = s, sw_allocs = [], \<dots> = z\<rparr>)"
  "throws_alloc \<lparr>sw_fds = t, sw_seals = s, sw_allocs = b # bs, \<dots> = z\<rparr> = (b, \<lparr>sw_fds = t, sw_seals = s, sw_allocs = bs, \<dots> = z\<rparr>)"
  by (simp_all add: throws_alloc_def)

definition demo_sign_store :: "string artifact result_state" where
  "demo_sign_store = \<lparr>rs_ready = False, rs_payload = \<lparr>ar_bytes = [], ar_meta = ''none''\<rparr>\<rparr>"

theorem sign_publish_fail_closed_witness:
  "rs_ready (fst (snd (sealPublishAndEmitSignResult (\<lambda>a b. a) (\<lambda>fd w. (True, w))
      demo_sign_store [1, 2] ''PAdES'' demo_world)))"
proof -
  let ?r = "sealPublishAndEmitSignResult (\<lambda>a b. a) (\<lambda>fd w. (True, w)) demo_sign_store [1, 2] ''PAdES'' demo_world"
  have "fst ?r = rs_ready (fst (snd ?r))"
    using sign_publish_fail_closed [of "\<lambda>a b. a" "\<lambda>fd w. (True, w)" demo_sign_store "[1, 2]" "''PAdES''"
        demo_world "fst ?r" "fst (snd ?r)" "snd (snd ?r)"] by (simp add: demo_sign_store_def)
  moreover have "fst ?r"
    by (simp add: sealPublishAndEmitSignResult_def publishSealedResult_def demo_world_def)
  ultimately show ?thesis by simp
qed

text \<open>What a publication and a fetch of a batch come to, with the allocations still to come.\<close>

lemma closeAll_allocs [simp]: "sw_allocs (closeAll fds w) = sw_allocs w"
  by (induction fds arbitrary: w) (simp_all add: close_fd_def)

lemma batch_loop_allocs: "batch_loop rows sealed w = (r, w') \<Longrightarrow> set (sw_allocs w') \<subseteq> set (sw_allocs w)"
proof (induction rows arbitrary: sealed w)
  case (Cons p rows)
  obtain fd w1 where s: "seal (br_bytes p) w = (fd, w1)" by force
  obtain threw w2 where a: "throws_alloc w1 = (threw, w2)" by force
  let ?x = "\<lparr>sr_displayName = br_displayName p, sr_fd = fd, sr_meta = br_meta p, sr_code = br_code p\<rparr>"
  have sub: "set (sw_allocs w2) \<subseteq> set (sw_allocs w)" using throws_alloc_script [OF a] seal_allocs [OF s] by simp
  consider (fail) "fd < 0" | (throw) "\<not> fd < 0" "threw" | (push) "\<not> fd < 0" "\<not> threw" by blast
  then show ?case
  proof cases
    case push
    then have "batch_loop rows (sealed @ [?x]) w2 = (r, w')" using Cons.prems s a by simp
    from Cons.IH [OF this] sub show ?thesis by (rule subset_trans)
  qed (use Cons.prems s a sub seal_allocs [OF s] in auto)
qed simp

lemma publishBatch_spec:
  assumes "publishSealedSignBatchResult torn st rows w = (out, st', w')"
  shows "case out of
      None \<Rightarrow> rs_ready st' = rs_ready st \<and> (True \<notin> set (sw_allocs w) \<longrightarrow> sw_fds w' = sw_fds w)
    | Some sealed \<Rightarrow> rs_ready st' \<and> rs_payload st' = rows \<and> map sealed_row_of sealed = map row_of rows \<and>
        minted (sw_fds w) (zip (map sr_fd sealed) (map br_bytes rows)) (sw_fds w') \<and>
        set (sw_allocs w') \<subseteq> set (sw_allocs w)"
proof -
  obtain b1 w1 where a1: "throws_alloc w = (b1, w1)" by force
  obtain r w2 where l: "batch_loop rows [] w1 = (r, w2)" by force
  obtain b3 w3 where a3: "throws_alloc w2 = (b3, w3)" by force
  have sub: "set (sw_allocs w3) \<subseteq> set (sw_allocs w2)" "set (sw_allocs w2) \<subseteq> set (sw_allocs w1)"
      "set (sw_allocs w1) \<subseteq> set (sw_allocs w)" and thr: "b3 \<Longrightarrow> True \<in> set (sw_allocs w2)"
    using throws_alloc_script [OF a1] throws_alloc_script [OF a3] batch_loop_allocs [OF l] by auto
  note spec = batch_loop_spec [OF l, of "sw_fds w" "[]"]
  show ?thesis
  proof (cases r)
    case None
    then have "sw_fds w2 = sw_fds w \<or> True \<in> set (sw_allocs w1)" using spec a1 by auto
    then show ?thesis using assms a1 l None sub by (auto simp: publishSealedSignBatchResult_def split: if_splits)
  next
    case (Some sealed)
    then have "map sealed_row_of sealed = map row_of rows \<and>
        minted (sw_fds w) (zip (map sr_fd sealed) (map br_bytes rows)) (sw_fds w3)" using spec a1 a3 by simp
    then show ?thesis using assms a1 l a3 Some sub thr by (auto simp: publishSealedSignBatchResult_def split: if_splits)
  qed
qed

lemma fetchBatch_spec:
  assumes "sealStoredSignBatchResult st v = (got, v')"
  shows "case got of
      None \<Rightarrow> rs_ready st \<and> True \<notin> set (sw_allocs v) \<longrightarrow> sw_fds v' = sw_fds v
    | Some sealed \<Rightarrow> rs_ready st \<and> map sealed_row_of sealed = map row_of (rs_payload st) \<and>
        minted (sw_fds v) (zip (map sr_fd sealed) (map br_bytes (rs_payload st))) (sw_fds v') \<and>
        set (sw_allocs v') \<subseteq> set (sw_allocs v)"
proof -
  obtain b v1 where a: "throws_alloc v = (b, v1)" by force
  obtain r v2 where l: "batch_loop (rs_payload st) [] v1 = (r, v2)" by force
  have sub: "set (sw_allocs v2) \<subseteq> set (sw_allocs v1)" "set (sw_allocs v1) \<subseteq> set (sw_allocs v)"
    using throws_alloc_script [OF a] batch_loop_allocs [OF l] by auto
  note spec = batch_loop_spec [OF l, of "sw_fds v" "[]"]
  show ?thesis using assms a l spec sub
    by (cases r) (auto simp: sealStoredSignBatchResult_def split: if_splits)
qed

text \<open>
  A published batch is recovered as it was published: whatever the descriptors and the
  allocations do meanwhile, a fetch that answers delivers one row per requested document, in
  request order, with the row's name, metadata and code, each on a fresh descriptor sealed
  over that row's bytes, the empty bytes of a failed row included. A publication that
  answered nothing leaves the store unpublished and every later fetch without a result.
\<close>

theorem batch_recovery:
  assumes "publishSealedSignBatchResult torn st rows w = (out, st', w')" and "\<not> rs_ready st"
    and "sealStoredSignBatchResult st' v = (got, v')"
  shows "(out \<noteq> None \<longleftrightarrow> rs_ready st') \<and> (out = None \<longrightarrow> got = None) \<and>
         (\<forall>sealed. out = Some sealed \<longrightarrow>
            map sealed_row_of sealed = map row_of rows \<and>
            minted (sw_fds w) (zip (map sr_fd sealed) (map br_bytes rows)) (sw_fds w')) \<and>
         (\<forall>sealed. got = Some sealed \<longrightarrow>
            map sealed_row_of sealed = map row_of rows \<and>
            minted (sw_fds v) (zip (map sr_fd sealed) (map br_bytes rows)) (sw_fds v'))"
  using publishBatch_spec [OF assms(1)] fetchBatch_spec [OF assms(3)] assms(2,3)
  by (cases out; cases got) (auto simp: sealStoredSignBatchResult_def split: if_splits)

definition demo_rows :: "(bool, nat) batch_row list" where
  "demo_rows = [\<lparr>br_displayName = ''a.pdf'', br_bytes = [7], br_meta = True, br_code = 0\<rparr>,
                \<lparr>br_displayName = ''b.pdf'', br_bytes = [], br_meta = False, br_code = 3\<rparr>]"

definition demo_published :: "(bool, nat) sealed_row list option \<times> (bool, nat) batch_row list result_state \<times> seal_world" where
  "demo_published =
     publishSealedSignBatchResult (\<lambda>a b. a) \<lparr>rs_ready = False, rs_payload = []\<rparr> demo_rows demo_world"

theorem batch_recovery_witness:
  "\<exists>sealed. fst (sealStoredSignBatchResult (fst (snd demo_published)) demo_world) = Some sealed \<and>
     map sealed_row_of sealed = [(''a.pdf'', True, 0), (''b.pdf'', False, 3)]"
proof -
  obtain out st w where p: "demo_published = (out, st, w)" by (cases demo_published) auto
  obtain got v where g: "sealStoredSignBatchResult st demo_world = (got, v)" by force
  have "fst (sealStoredSignBatchResult (fst (snd demo_published)) demo_world) \<noteq> None"
    by (simp add: sealStoredSignBatchResult_def publishSealedSignBatchResult_def demo_world_def
        demo_published_def demo_rows_def)
  then have "got \<noteq> None" unfolding p fst_conv snd_conv g .
  moreover have "got = Some sealed \<Longrightarrow> map sealed_row_of sealed = map row_of demo_rows" for sealed
    using batch_recovery [OF p [unfolded demo_published_def] _ g] by simp
  ultimately show ?thesis unfolding p fst_conv snd_conv g by (auto simp: row_of_def demo_rows_def)
qed

text \<open>
  A photo fetch is all or nothing: it answers with every non-empty photo of the ready
  store, in order, each on its own fresh descriptor sealed over its bytes, or it answers
  nothing and leaves the descriptor table as it found it, whichever seal or allocation failed.
\<close>

theorem photo_fetch_all_or_nothing:
  assumes "sealStoredPhotos st w = (r, w')"
  shows "case r of
           None \<Rightarrow> sw_fds w' = sw_fds w
         | Some out \<Rightarrow> rs_ready st \<and> map sp_key out = map ph_key (kept_photos (rs_payload st)) \<and>
             minted (sw_fds w) (zip (map sp_fd out) (map ph_bytes (kept_photos (rs_payload st)))) (sw_fds w')"
proof -
  obtain b w1 where a: "throws_alloc w = (b, w1)" by force
  show ?thesis
  proof (cases "rs_ready st \<and> \<not> b")
    case True
    then have "photo_loop (rs_payload st) [] w1 = (r, w')" using assms a by (simp add: sealStoredPhotos_def)
    from photo_loop_spec [OF this, of "sw_fds w" "[]"] a True show ?thesis by (cases r) auto
  next
    case False
    with assms a show ?thesis by (auto simp: sealStoredPhotos_def split: if_splits)
  qed
qed

definition demo_photos :: "photo list result_state" where
  "demo_photos = \<lparr>rs_ready = True,
     rs_payload = [\<lparr>ph_key = ''a'', ph_bytes = [1]\<rparr>, \<lparr>ph_key = ''b'', ph_bytes = [2]\<rparr>]\<rparr>"

theorem photo_fetch_all_or_nothing_witness:
  "sw_fds (snd (sealStoredPhotos demo_photos (demo_world\<lparr>sw_seals := [Sealed 5, SealFails]\<rparr>))) = (\<lambda>_. None)"
proof -
  let ?w = "demo_world\<lparr>sw_seals := [Sealed 5, SealFails]\<rparr>"
  have "fst (sealStoredPhotos demo_photos ?w) = None"
    by (simp add: sealStoredPhotos_def demo_world_def demo_photos_def) (simp add: seal_def seal_step_def)
  then obtain w where "sealStoredPhotos demo_photos ?w = (None, w)" by (metis prod.collapse)
  with photo_fetch_all_or_nothing [OF this] show ?thesis by (simp add: demo_world_def)
qed

text \<open>
  A batch row whose copy throws leaks its descriptor: the seal of the row has answered,
  the throw reaches the outer handler, and that handler closes only the rows pushed before.
  The publication answers nothing, the store stays as it was, and the table has one sealed
  descriptor more than before.
\<close>

theorem batch_row_copy_leaks:
  assumes "sw_seals w = Sealed n # as" and "sw_fds w n = None" and "sw_allocs w = False # True # al"
  shows "fst (publishSealedSignBatchResult torn st (r # rows) w) = None \<and>
         fst (snd (publishSealedSignBatchResult torn st (r # rows) w)) = st \<and>
         sw_fds (snd (snd (publishSealedSignBatchResult torn st (r # rows) w))) =
           (sw_fds w)(n \<mapsto> sealed_file (br_bytes r))"
  using assms by (cases w) (simp add: publishSealedSignBatchResult_def)

theorem batch_row_copy_leaks_witness:
  "sw_fds (snd (snd (publishSealedSignBatchResult (\<lambda>a b. a) \<lparr>rs_ready = False, rs_payload = []\<rparr>
       (hd demo_rows # tl demo_rows) (demo_world\<lparr>sw_allocs := [False, True]\<rparr>)))) 5 = Some (sealed_file [7])"
  using batch_row_copy_leaks [of "demo_world\<lparr>sw_allocs := [False, True]\<rparr>" 5 "[Sealed 6, Sealed 7, Sealed 8]" "[]"
      "\<lambda>a b. a" "\<lparr>rs_ready = False, rs_payload = []\<rparr>" "hd demo_rows" "tl demo_rows"]
  by (simp add: demo_world_def) (simp add: demo_rows_def)

text \<open>The signed-artifact fetch has no handler: a metadata copy that throws ends the process.\<close>

lemma sealStoredResult_terminates:
  "rs_ready st \<Longrightarrow> sw_allocs w = True # al \<Longrightarrow> fst (sealStoredResult noMeta st w) = Terminates"
  by (auto simp: sealStoredResult_def throws_alloc_def split: prod.splits)

lemma publish_then_read:
  "publishResult torn st payload w = (True, st', w') \<Longrightarrow> readStoredResult st' v = (got, v') \<Longrightarrow>
     got = Some payload \<or> got = None \<and> fst (throws_alloc v)"
  by (auto simp: publishResult_def readStoredResult_def Let_def split: prod.splits if_splits)

end
