(* ===== verification/Pkcs11_Client.thy ===== *)
theory Pkcs11_Client
  imports Error_Names Std_Map
begin

text \<open>
  The agent client of the PKCS#11 module (\<^verbatim>\<open>pkcs11-module/src/DBusAgentClient.cpp\<close>, with
  \<^verbatim>\<open>CertificateRead.h\<close> and the wire tuple of \<^verbatim>\<open>CertResultWire.h\<close>): the cached snapshot of
  readers and certificates, the cards whose read is settled, the public-key cache, and the
  calls of \<^verbatim>\<open>Pkcs11_1\<close>. The signal handlers run on the connection's own thread: their steps
  are delivered between the steps of a call, in whatever order a script says. The agent library
  (status codes, mechanism tokens, how a certificate becomes an entry) is a parameter.
\<close>

subsection \<open>Interface names\<close>

definition kServiceName :: string where "kServiceName = ''org.librescrs.Agent''"
definition kReaderIface :: string where "kReaderIface = ''org.librescrs.Agent.Reader1''"
definition kCardIface :: string where "kCardIface = ''org.librescrs.Agent.Card1''"
definition kOperation1Iface :: string where "kOperation1Iface = ''org.librescrs.Agent.Operation1''"
definition kCertificatesIface :: string where
  "kCertificatesIface = ''org.librescrs.Agent.Operation.Certificates1''"
definition kPkcs11Iface :: string where "kPkcs11Iface = ''org.librescrs.Agent.Pkcs11_1''"
definition kObjectManagerIface :: string where "kObjectManagerIface = ''org.freedesktop.DBus.ObjectManager''"

subsection \<open>Failures and their statuses\<close>

text \<open>What a bus call throws: an \<^verbatim>\<open>sdbus::Error\<close> with its name, or anything else.\<close>

datatype thrown = BusError string | OtherException

datatype status =
    StatusOk | UserNotLoggedIn | NotAuthorized | AuthFailed | Cancelled | KeyNotFound | UnknownCard
  | NotSupported | RateLimited | Communication | InvalidInput | GeneralError | DeviceRemoved

definition mapErrorName :: "string \<Rightarrow> status" where
  "mapErrorName errorName =
     (if errorName = kErrUserNotLoggedIn then UserNotLoggedIn
      else if errorName = kErrNotAuthorized then NotAuthorized
      else if errorName = kErrAuthFailed then AuthFailed
      else if errorName = kErrCancelled then Cancelled
      else if errorName = kErrKeyNotFound then KeyNotFound
      else if errorName = kErrUnknownCard then UnknownCard
      else if errorName = kErrNotSupported then NotSupported
      else if errorName = kErrRateLimited then RateLimited
      else if errorName = kErrCommunication then Communication
      else if errorName = kErrInvalidRequest then InvalidInput
      else GeneralError)"

definition agentErrorPrefix :: string where "agentErrorPrefix = ''org.librescrs.Agent.Error.''"

definition statusFromException :: "thrown \<Rightarrow> status" where
  "statusFromException t =
     (case t of
        OtherException \<Rightarrow> DeviceRemoved
      | BusError name \<Rightarrow>
          if take (length agentErrorPrefix) name = agentErrorPrefix then mapErrorName name
          else if name = ''org.freedesktop.DBus.Error.ServiceUnknown'' \<or>
                  name = ''org.freedesktop.DBus.Error.NoReply'' \<or>
                  name = ''org.freedesktop.DBus.Error.Disconnected'' \<or>
                  name = ''org.freedesktop.DBus.Error.NameHasNoOwner'' then DeviceRemoved
          else GeneralError)"

subsection \<open>Reading a card's certificates\<close>

type_synonym cert_fields = "(string, (string, string \<times> string \<times> variant) smap) smap"

record cert_result =
  cr_certId :: string
  cr_signingCapable :: bool
  cr_fields :: cert_fields
  cr_keyUsageBits :: u32
  cr_ekuOids :: "string list"
  cr_chainSubjectCns :: "string list"
  cr_trustStatus :: u32
  cr_alwaysAuthenticate :: bool
  cr_keyId :: bytes
  cr_keyType :: string
  cr_keyBits :: u32
  cr_canDerive :: bool

datatype preread = PreReadNone | PreReadCan | PreReadMrz

definition preReadAuthFromToken :: "string \<Rightarrow> preread" where
  "preReadAuthFromToken token =
     (if token = ''None'' then PreReadNone else if token = ''Can'' then PreReadCan else PreReadMrz)"

record 'k neutral_cert =
  nc_certId :: string
  nc_signingCapable :: bool
  nc_keyUsageBits :: u32
  nc_alwaysAuthenticate :: bool
  nc_keyId :: bytes
  nc_keyType :: 'k
  nc_keyBits :: u32
  nc_canDerive :: bool
  nc_subjectCn :: string

text \<open>What the module takes from the agent library.\<close>

record ('k, 'e, 'm) module_lib =
  operationError :: u32
  codeCardRemoved :: u32
  codeCommunicationError :: u32
  codeWatchdogTimeout :: u32
  codeRateLimited :: u32
  keyTypeFromToken :: "string \<Rightarrow> 'k"
  keyTypeRsa :: 'k
  keyTypeEc :: 'k
  certEntryFrom :: "'k neutral_cert \<Rightarrow> preread \<Rightarrow> 'e option"
  tokenLabelFor :: "'e list \<Rightarrow> string \<Rightarrow> string"
  tokenSerialFor :: "string \<Rightarrow> string"
  mechanismToken :: "'m \<Rightarrow> string"
  signMechanismFromToken :: "string \<Rightarrow> 'm option"
  rsaPkcs1Decrypt :: 'm

record certificate_read =
  rd_operation :: string
  rd_timedOut :: bool
  rd_status :: u32
  rd_errorCode :: u32
  rd_message :: string
  rd_certificates :: "cert_result list"

definition read_ok :: "certificate_read \<Rightarrow> bool" where
  "read_ok r \<longleftrightarrow> \<not> rd_timedOut r \<and> rd_status r = 0"

definition settled :: "('k, 'e, 'm) module_lib \<Rightarrow> certificate_read \<Rightarrow> bool" where
  "settled L r =
     (if rd_timedOut r then False
      else if rd_status r \<noteq> operationError L then True
      else \<not> (rd_errorCode r = codeCardRemoved L \<or> rd_errorCode r = codeCommunicationError L \<or>
              rd_errorCode r = codeWatchdogTimeout L \<or> rd_errorCode r = codeRateLimited L))"

definition refusalSettles :: "string \<Rightarrow> bool" where
  "refusalSettles errorName \<longleftrightarrow> errorName = kErrUnsupportedOnThisCard"

text \<open>
  What one read meets on the bus: the answer to \<^verbatim>\<open>ReadCertificates\<close>, the operation's
  properties, its \<^verbatim>\<open>Finished\<close> signal (\<^const>\<open>None\<close>: not within the budget) and the answer to
  \<^verbatim>\<open>GetResult\<close>.
\<close>

record read_bus =
  rb_call :: "thrown + string"
  rb_completed :: "thrown + bool"
  rb_status :: "thrown + u32"
  rb_errorCode :: "thrown + u32"
  rb_finished :: "(u32 \<times> u32 \<times> string) option"
  rb_result :: "thrown + cert_result list"

text \<open>The flag says whether \<^verbatim>\<open>Cancel\<close> was sent.\<close>

definition readCertificates :: "read_bus \<Rightarrow> (thrown + certificate_read) \<times> bool" where
  "readCertificates B =
     (case rb_call B of
        Inl t \<Rightarrow> (Inl t, False)
      | Inr operation \<Rightarrow>
          let read = \<lparr>rd_operation = operation, rd_timedOut = False, rd_status = 2, rd_errorCode = 0,
                      rd_message = [], rd_certificates = []\<rparr>;
              getResult = (\<lambda>read.
                if rd_status read \<noteq> 0 then Inr read
                else case rb_result B of
                  Inl t \<Rightarrow> Inl t
                | Inr cs \<Rightarrow> Inr (read\<lparr>rd_certificates := cs\<rparr>)) in
          (case rb_completed B of
             Inl t \<Rightarrow> (Inl t, False)
           | Inr True \<Rightarrow>
               (case rb_status B of
                  Inl t \<Rightarrow> (Inl t, False)
                | Inr st \<Rightarrow>
                    (case rb_errorCode B of
                       Inl t \<Rightarrow> (Inl t, False)
                     | Inr code \<Rightarrow> (getResult (read\<lparr>rd_status := st, rd_errorCode := code\<rparr>), False)))
           | Inr False \<Rightarrow>
               (case rb_finished B of
                  None \<Rightarrow> (Inr (read\<lparr>rd_timedOut := True\<rparr>), True)
                | Some (st, code, msg) \<Rightarrow>
                    (getResult (read\<lparr>rd_status := st, rd_errorCode := code, rd_message := msg\<rparr>), False))))"

datatype read_outcome = Read | Settled | AskAgain

definition readCerts :: "('k, 'e, 'm) module_lib \<Rightarrow> read_bus \<Rightarrow> read_outcome \<times> cert_result list" where
  "readCerts L B =
     (case fst (readCertificates B) of
        Inr read \<Rightarrow>
          if read_ok read then (Read, rd_certificates read)
          else if settled L read then (Settled, []) else (AskAgain, [])
      | Inl (BusError name) \<Rightarrow> if refusalSettles name then (Settled, []) else (AskAgain, [])
      | Inl OtherException \<Rightarrow> (AskAgain, []))"

subsection \<open>The client's state and its signal handlers\<close>

record 'e reader_state =
  rs_readerPath :: string
  rs_hasCard :: bool
  rs_readerName :: string
  rs_certs :: "'e list"
  rs_tokenLabel :: string
  rs_tokenSerial :: string

datatype public_key = RsaKey bytes bytes | EcKey string bytes bytes

datatype budget = Interactive | PublicData | LoginStateBudget | DefaultBudget

record bus_call =
  bc_method :: string
  bc_budget :: budget
  bc_args :: "variant list"

text \<open>
  \<open>cl_reads\<close> logs the cards a read was started on and \<open>cl_calls\<close> the other calls sent; the
  code keeps no such logs.
\<close>

record 'e client =
  cl_ok :: bool
  cl_cached :: "'e reader_state list"
  cl_dirty :: bool
  cl_settledCards :: "string set"
  cl_generation :: u64
  cl_pubKeyCache :: "string \<rightharpoonup> public_key"
  cl_reads :: "string list"
  cl_calls :: "bus_call list"

definition client_init :: "bool \<Rightarrow> 'e client" where
  "client_init up =
     \<lparr>cl_ok = up, cl_cached = [], cl_dirty = True, cl_settledCards = {}, cl_generation = 0,
      cl_pubKeyCache = Map.empty, cl_reads = [], cl_calls = []\<rparr>"

definition forgetSettled :: "'e client \<Rightarrow> 'e client" where
  "forgetSettled c = c\<lparr>cl_settledCards := {}, cl_generation := cl_generation c + 1\<rparr>"

definition isSettled :: "'e client \<Rightarrow> string \<Rightarrow> bool" where
  "isSettled c cardPath \<longleftrightarrow> cardPath \<in> cl_settledCards c"

definition settle :: "string \<Rightarrow> u64 \<Rightarrow> 'e client \<Rightarrow> 'e client" where
  "settle cardPath readGeneration c =
     (if readGeneration = cl_generation c then c\<lparr>cl_settledCards := insert cardPath (cl_settledCards c)\<rparr> else c)"

text \<open>The steps of the two handlers, each taking its lock or storing its flag on its own.\<close>

datatype handler_step = Forget | MarkDirty | ClearKeys

definition onInterfacesAdded :: "handler_step list" where
  "onInterfacesAdded = [Forget, MarkDirty]"

definition onInterfacesRemoved :: "handler_step list" where
  "onInterfacesRemoved = [Forget, MarkDirty, ClearKeys]"

primrec handle :: "handler_step \<Rightarrow> 'e client \<Rightarrow> 'e client" where
  "handle Forget c = forgetSettled c"
| "handle MarkDirty c = c\<lparr>cl_dirty := True\<rparr>"
| "handle ClearKeys c = c\<lparr>cl_pubKeyCache := Map.empty\<rparr>"

definition deliver :: "handler_step list \<Rightarrow> 'e client \<Rightarrow> 'e client" where
  "deliver hs c = fold handle hs c"

subsection \<open>Enumeration\<close>

type_synonym ifaces = "(string, (string, variant) smap) smap"
type_synonym managed_objects = "(string, ifaces) smap"

text \<open>
  One enumeration's world: what \<^verbatim>\<open>GetManagedObjects\<close> answers, what the read of each cardPath
  meets, and the handler steps that run before the generation is taken, during the call, before
  and during each reader's certificate read, and after the last reader.
\<close>

record enum_env =
  en_managed :: "thrown + managed_objects"
  en_read :: "string \<Rightarrow> read_bus"
  en_before :: "handler_step list"
  en_call :: "handler_step list"
  en_pre :: "string \<Rightarrow> handler_step list"
  en_during :: "string \<Rightarrow> handler_step list"
  en_tail :: "handler_step list"

text \<open>A property that is missing keeps its default; one of another type throws.\<close>

definition prop_bool :: "(string, variant) smap \<Rightarrow> string \<Rightarrow> bool \<Rightarrow> thrown + bool" where
  "prop_bool props key dflt =
     (case smap_find props key of
        None \<Rightarrow> Inr dflt
      | Some (VBool b) \<Rightarrow> Inr b
      | Some _ \<Rightarrow> Inl (BusError ''System.Error.ENXIO''))"

definition prop_path :: "(string, variant) smap \<Rightarrow> string \<Rightarrow> thrown + string" where
  "prop_path props key =
     (case smap_find props key of
        None \<Rightarrow> Inr []
      | Some (VPath p) \<Rightarrow> Inr p
      | Some _ \<Rightarrow> Inl (BusError ''System.Error.ENXIO''))"

text \<open>A string read inside its own \<^verbatim>\<open>try\<close>: a wrong type keeps the default.\<close>

definition prop_string :: "(string, variant) smap \<Rightarrow> string \<Rightarrow> string \<Rightarrow> string" where
  "prop_string props key dflt =
     (case smap_find props key of Some (VString s) \<Rightarrow> s | _ \<Rightarrow> dflt)"

definition preReadOf :: "managed_objects \<Rightarrow> string \<Rightarrow> string" where
  "preReadOf managed cardPath =
     (case smap_find managed cardPath of
        None \<Rightarrow> ''None''
      | Some ifs \<Rightarrow>
          (case smap_find ifs kCardIface of
             None \<Rightarrow> ''None''
           | Some props \<Rightarrow> prop_string props ''PreReadAuthMethod'' ''None''))"

definition subjectCn :: "cert_fields \<Rightarrow> thrown + string" where
  "subjectCn groups =
     (case smap_find groups ''subject'' of
        None \<Rightarrow> Inr []
      | Some sg \<Rightarrow>
          (case smap_find sg ''cn'' of
             None \<Rightarrow> Inr []
           | Some (_, _, VString s) \<Rightarrow> Inr s
           | Some _ \<Rightarrow> Inl (BusError ''System.Error.ENXIO'')))"

primrec collectCerts ::
  "('k, 'e, 'm) module_lib \<Rightarrow> preread \<Rightarrow> cert_result list \<Rightarrow> 'e list \<Rightarrow> thrown + 'e list" where
  "collectCerts L preAuth [] acc = Inr acc"
| "collectCerts L preAuth (e # es) acc =
     (case subjectCn (cr_fields e) of
        Inl t \<Rightarrow> Inl t
      | Inr cn \<Rightarrow>
          let cert = \<lparr>nc_certId = cr_certId e, nc_signingCapable = cr_signingCapable e,
                      nc_keyUsageBits = cr_keyUsageBits e, nc_alwaysAuthenticate = cr_alwaysAuthenticate e,
                      nc_keyId = cr_keyId e, nc_keyType = keyTypeFromToken L (cr_keyType e),
                      nc_keyBits = cr_keyBits e, nc_canDerive = cr_canDerive e, nc_subjectCn = cn\<rparr> in
          (case certEntryFrom L cert preAuth of
             None \<Rightarrow> collectCerts L preAuth es acc
           | Some entry \<Rightarrow> collectCerts L preAuth es (acc @ [entry])))"

text \<open>The certificates of one present card: whether the snapshot stays complete, and the entries.\<close>

definition cardCerts ::
  "('k, 'e, 'm) module_lib \<Rightarrow> enum_env \<Rightarrow> u64 \<Rightarrow> managed_objects \<Rightarrow> string \<Rightarrow> string \<Rightarrow> 'e client \<Rightarrow>
     (thrown + (bool \<times> 'e list)) \<times> 'e client" where
  "cardCerts L env readGeneration managed path cardPath c =
     (let c = deliver (en_pre env path) c;
          asked = \<not> isSettled c cardPath;
          c = (if asked then c\<lparr>cl_reads := cl_reads c @ [cardPath]\<rparr> else c);
          (outcome, certs) = (if asked then readCerts L (en_read env cardPath) else (Settled, []));
          c = deliver (en_during env path) c in
      case outcome of
        AskAgain \<Rightarrow> (Inr (False, []), c)
      | Settled \<Rightarrow> (Inr (True, []), settle cardPath readGeneration c)
      | Read \<Rightarrow>
          (case collectCerts L (preReadAuthFromToken (preReadOf managed cardPath)) certs [] of
             Inl t \<Rightarrow> (Inl t, c)
           | Inr es \<Rightarrow> (Inr (True, es), c)))"

primrec enum_loop ::
  "('k, 'e, 'm) module_lib \<Rightarrow> enum_env \<Rightarrow> u64 \<Rightarrow> managed_objects \<Rightarrow> (string \<times> ifaces) list \<Rightarrow>
     'e reader_state list \<Rightarrow> bool \<Rightarrow> 'e client \<Rightarrow> (thrown + ('e reader_state list \<times> bool)) \<times> 'e client" where
  "enum_loop L env g managed [] snap isComplete c = (Inr (snap, isComplete), c)"
| "enum_loop L env g managed (obj # objs) snap isComplete c =
     (case smap_find (snd obj) kReaderIface of
        None \<Rightarrow> enum_loop L env g managed objs snap isComplete c
      | Some props \<Rightarrow>
          (case prop_bool props ''HasCard'' False of
             Inl t \<Rightarrow> (Inl t, c)
           | Inr hasCard \<Rightarrow>
               (case prop_path props ''Card'' of
                  Inl t \<Rightarrow> (Inl t, c)
                | Inr cardPath \<Rightarrow>
                    let name = prop_string props ''Name'' [];
                        reader = \<lparr>rs_readerPath = fst obj, rs_hasCard = hasCard, rs_readerName = name,
                                  rs_certs = [], rs_tokenLabel = [], rs_tokenSerial = []\<rparr> in
                    if hasCard \<and> cardPath \<noteq> [] then
                      (case cardCerts L env g managed (fst obj) cardPath c of
                         (Inl t, c) \<Rightarrow> (Inl t, c)
                       | (Inr (whole, es), c) \<Rightarrow>
                           enum_loop L env g managed objs
                             (snap @ [reader\<lparr>rs_certs := es, rs_tokenLabel := tokenLabelFor L es name,
                                             rs_tokenSerial := tokenSerialFor L cardPath\<rparr>])
                             (isComplete \<and> whole) c)
                    else enum_loop L env g managed objs (snap @ [reader]) isComplete c)))"

definition enumerate ::
  "('k, 'e, 'm) module_lib \<Rightarrow> enum_env \<Rightarrow> 'e client \<Rightarrow> (thrown + ('e reader_state list \<times> bool)) \<times> 'e client" where
  "enumerate L env c =
     (if \<not> cl_ok c then (Inr ([], False), c)
      else
        let c = deliver (en_before env) c;
            readGeneration = cl_generation c;
            c = deliver (en_call env) c in
        (case en_managed env of
           Inl _ \<Rightarrow> (Inr ([], False), c)
         | Inr managed \<Rightarrow> enum_loop L env readGeneration managed managed [] True c))"

definition snapshot ::
  "('k, 'e, 'm) module_lib \<Rightarrow> enum_env \<Rightarrow> 'e client \<Rightarrow> (thrown + 'e reader_state list) \<times> 'e client" where
  "snapshot L env c =
     (if \<not> cl_ok c then (Inr [], c)
      else if \<not> cl_dirty c then (Inr (cl_cached c), c)
      else
        (case enumerate L env (c\<lparr>cl_dirty := False\<rparr>) of
           (Inl t, c) \<Rightarrow> (Inl t, c)
         | (Inr (snap, isComplete), c) \<Rightarrow>
             let c = (deliver (en_tail env) c)\<lparr>cl_cached := snap\<rparr> in
             (Inr snap, if isComplete then c else c\<lparr>cl_dirty := True\<rparr>)))"

subsection \<open>The calls of Pkcs11_1\<close>

text \<open>What the bus answers to a call, by the type of its results; the timeouts are the library's.\<close>

record pkcs11_bus =
  pb_bytes :: "bus_call \<Rightarrow> thrown + bytes"
  pb_rsa :: "bus_call \<Rightarrow> thrown + (bytes \<times> bytes)"
  pb_ec :: "bus_call \<Rightarrow> thrown + (string \<times> bytes \<times> bytes)"
  pb_idle :: "bus_call \<Rightarrow> thrown + u32"
  pb_active :: "bus_call \<Rightarrow> thrown + bool"
  pb_none :: "bus_call \<Rightarrow> thrown + unit"

record bytes_result =
  by_status :: status
  by_bytes :: bytes

definition bytes_call :: "pkcs11_bus \<Rightarrow> bus_call \<Rightarrow> 'e client \<Rightarrow> bytes_result \<times> 'e client" where
  "bytes_call B q c =
     (if \<not> cl_ok c then (\<lparr>by_status = DeviceRemoved, by_bytes = []\<rparr>, c)
      else
        let c = c\<lparr>cl_calls := cl_calls c @ [q]\<rparr> in
        (case pb_bytes B q of
           Inl t \<Rightarrow> (\<lparr>by_status = statusFromException t, by_bytes = []\<rparr>, c)
         | Inr bs \<Rightarrow> (\<lparr>by_status = StatusOk, by_bytes = bs\<rparr>, c)))"

definition certDer :: "pkcs11_bus \<Rightarrow> string \<Rightarrow> string \<Rightarrow> 'e client \<Rightarrow> bytes_result \<times> 'e client" where
  "certDer B reader certId c =
     bytes_call B \<lparr>bc_method = ''CertDer'', bc_budget = PublicData, bc_args = [VPath reader, VString certId]\<rparr> c"

definition key_family :: "('k, 'e, 'm) module_lib \<Rightarrow> public_key \<Rightarrow> 'k" where
  "key_family L key = (case key of EcKey _ _ _ \<Rightarrow> keyTypeEc L | RsaKey _ _ \<Rightarrow> keyTypeRsa L)"

text \<open>\<open>meanwhile\<close>: the handler steps that run between the look-up and the insertion.\<close>

definition publicKey ::
  "('k, 'e, 'm) module_lib \<Rightarrow> pkcs11_bus \<Rightarrow> handler_step list \<Rightarrow> string \<Rightarrow> string \<Rightarrow> 'k \<Rightarrow> 'e client \<Rightarrow>
     (status + public_key) \<times> 'e client" where
  "publicKey L B meanwhile reader certId keyType c =
     (if \<not> cl_ok c then (Inl DeviceRemoved, c)
      else
        (case cl_pubKeyCache c certId of
           Some key \<Rightarrow>
             if key_family L key \<noteq> keyType then (Inl NotSupported, c) else (Inr key, c)
         | None \<Rightarrow>
             let args = [VPath reader, VString certId];
                 keep = (\<lambda>key c. (Inr key, c\<lparr>cl_pubKeyCache := (cl_pubKeyCache c)(certId \<mapsto> key)\<rparr>)) in
             if keyType = keyTypeRsa L then
               (let q = \<lparr>bc_method = ''PublicKey'', bc_budget = PublicData, bc_args = args\<rparr>;
                    c = deliver meanwhile (c\<lparr>cl_calls := cl_calls c @ [q]\<rparr>) in
                case pb_rsa B q of
                  Inl t \<Rightarrow> (Inl (statusFromException t), c)
                | Inr (m, e) \<Rightarrow> keep (RsaKey m e) c)
             else if keyType = keyTypeEc L then
               (let q = \<lparr>bc_method = ''EcPublicKey'', bc_budget = PublicData, bc_args = args\<rparr>;
                    c = deliver meanwhile (c\<lparr>cl_calls := cl_calls c @ [q]\<rparr>) in
                case pb_ec B q of
                  Inl t \<Rightarrow> (Inl (statusFromException t), c)
                | Inr (crv, x, y) \<Rightarrow> keep (EcKey crv x y) c)
             else (Inl NotSupported, c)))"

definition login :: "pkcs11_bus \<Rightarrow> string \<Rightarrow> 'e client \<Rightarrow> (status \<times> u32) \<times> 'e client" where
  "login B reader c =
     (if \<not> cl_ok c then ((DeviceRemoved, 0), c)
      else
        let q = \<lparr>bc_method = ''Login'', bc_budget = Interactive, bc_args = [VPath reader]\<rparr>;
            c = c\<lparr>cl_calls := cl_calls c @ [q]\<rparr> in
        (case pb_idle B q of
           Inl t \<Rightarrow> ((statusFromException t, 0), c)
         | Inr idle \<Rightarrow> ((StatusOk, idle), c)))"

definition loginActive :: "pkcs11_bus \<Rightarrow> string \<Rightarrow> 'e client \<Rightarrow> bool option \<times> 'e client" where
  "loginActive B reader c =
     (if \<not> cl_ok c then (None, c)
      else
        let q = \<lparr>bc_method = ''LoginState'', bc_budget = LoginStateBudget, bc_args = [VPath reader]\<rparr>;
            c = c\<lparr>cl_calls := cl_calls c @ [q]\<rparr> in
        (case pb_active B q of Inl _ \<Rightarrow> (None, c) | Inr active \<Rightarrow> (Some active, c)))"

definition logout :: "pkcs11_bus \<Rightarrow> string \<Rightarrow> 'e client \<Rightarrow> status \<times> 'e client" where
  "logout B reader c =
     (if \<not> cl_ok c then (DeviceRemoved, c)
      else
        let q = \<lparr>bc_method = ''Logout'', bc_budget = DefaultBudget, bc_args = [VPath reader]\<rparr>;
            c = c\<lparr>cl_calls := cl_calls c @ [q]\<rparr> in
        (case pb_none B q of Inl t \<Rightarrow> (statusFromException t, c) | Inr _ \<Rightarrow> (StatusOk, c)))"

definition signRaw ::
  "('k, 'e, 'm) module_lib \<Rightarrow> pkcs11_bus \<Rightarrow> string \<Rightarrow> string \<Rightarrow> 'm \<Rightarrow> bytes \<Rightarrow> 'e client \<Rightarrow>
     bytes_result \<times> 'e client" where
  "signRaw L B reader certId mechanism input c =
     (let token = mechanismToken L mechanism in
      if token = [] \<or> signMechanismFromToken L token \<noteq> Some mechanism
      then (\<lparr>by_status = NotSupported, by_bytes = []\<rparr>, c)
      else bytes_call B \<lparr>bc_method = ''SignRaw'', bc_budget = Interactive,
                         bc_args = [VPath reader, VString certId, VString token, VBytes input]\<rparr> c)"

definition decrypt ::
  "('k, 'e, 'm) module_lib \<Rightarrow> pkcs11_bus \<Rightarrow> string \<Rightarrow> string \<Rightarrow> bytes \<Rightarrow> 'e client \<Rightarrow> bytes_result \<times> 'e client" where
  "decrypt L B reader certId ciphertext c =
     bytes_call B \<lparr>bc_method = ''Decrypt'', bc_budget = Interactive,
                   bc_args = [VPath reader, VString certId, VString (mechanismToken L (rsaPkcs1Decrypt L)),
                              VBytes ciphertext]\<rparr> c"

definition derive :: "pkcs11_bus \<Rightarrow> string \<Rightarrow> string \<Rightarrow> bytes \<Rightarrow> 'e client \<Rightarrow> bytes_result \<times> 'e client" where
  "derive B reader certId peerPoint c =
     bytes_call B \<lparr>bc_method = ''Derive'', bc_budget = Interactive,
                   bc_args = [VPath reader, VString certId, VBytes peerPoint]\<rparr> c"

subsection \<open>A record guarded by a generation\<close>

text \<open>
  The contract between the reads and the handlers: what is noted under a generation taken
  earlier is kept only if nothing was forgotten since.
\<close>

locale generation_guard =
  fixes forget :: "'s \<Rightarrow> 's"
    and note_key :: "'k \<Rightarrow> u64 \<Rightarrow> 's \<Rightarrow> 's"
    and stamp :: "'s \<Rightarrow> u64"
    and noted :: "'s \<Rightarrow> 'k set"
  assumes stamp_forget: "stamp (forget s) = stamp s + 1"
    and noted_forget: "noted (forget s) = {}"
    and stamp_note: "stamp (note_key k g s) = stamp s"
    and noted_note: "noted (note_key k g s) = (if g = stamp s then insert k (noted s) else noted s)"
begin

lemma since_forget:
  "stamp s = g + of_nat n \<Longrightarrow> stamp (forget s) = g + of_nat (Suc n) \<and> noted (forget s) = {}"
  by (simp add: stamp_forget noted_forget)

lemma since_note:
  assumes "stamp s = g + of_nat n" and "n < 2 ^ 64" and "0 < n \<longrightarrow> noted s = {}"
  shows "0 < n \<longrightarrow> noted (note_key k g s) = {}"
proof
  assume "0 < n"
  then have "(of_nat n :: u64) \<noteq> 0" using assms(2) by (simp add: word_of_nat_eq_0_iff nat_dvd_not_less)
  then show "noted (note_key k g s) = {}" using assms \<open>0 < n\<close> by (simp add: noted_note)
qed

end

interpretation reads_guard: generation_guard forgetSettled settle cl_generation cl_settledCards
  by unfold_locales (simp_all add: forgetSettled_def settle_def)

subsection \<open>The handlers\<close>

definition forgets :: "handler_step list \<Rightarrow> nat" where
  "forgets hs = length (filter (\<lambda>h. h = Forget) hs)"

lemma forgets_simps [simp]:
  "forgets [] = 0" "forgets (h # hs) = (if h = Forget then Suc (forgets hs) else forgets hs)"
  "forgets (hs @ hs') = forgets hs + forgets hs'"
  by (simp_all add: forgets_def)

lemma forgets_0_iff: "forgets hs = 0 \<longleftrightarrow> Forget \<notin> set hs"
  by (induction hs) auto

lemma deliver_simps [simp]:
  "deliver [] c = c" "deliver (h # hs) c = deliver hs (handle h c)"
  by (simp_all add: deliver_def)

lemma deliver_frame [simp]:
  "cl_ok (deliver hs c) = cl_ok c" "cl_cached (deliver hs c) = cl_cached c"
  "cl_reads (deliver hs c) = cl_reads c" "cl_calls (deliver hs c) = cl_calls c"
  by (induction hs arbitrary: c; simp; case_tac a; simp add: forgetSettled_def)+

lemma deliver_dirty [simp]: "cl_dirty (deliver hs c) \<longleftrightarrow> cl_dirty c \<or> MarkDirty \<in> set hs"
  by (induction hs arbitrary: c; simp; case_tac a; simp add: forgetSettled_def)

lemma deliver_keys:
  "cl_pubKeyCache (deliver hs c) = (if ClearKeys \<in> set hs then Map.empty else cl_pubKeyCache c)"
  by (induction hs arbitrary: c; simp; case_tac a; simp add: forgetSettled_def)

lemma deliver_settled:
  "cl_settledCards (deliver hs c) = (if Forget \<in> set hs then {} else cl_settledCards c)"
  by (induction hs arbitrary: c; simp; case_tac a; simp add: forgetSettled_def)

lemma deliver_generation: "cl_generation (deliver hs c) = cl_generation c + of_nat (forgets hs)"
  by (induction hs arbitrary: c; simp; case_tac a; simp add: forgetSettled_def)

text \<open>
  \<open>since g n c\<close>: \<open>n\<close> forgets have run since the generation was \<open>g\<close>, and if any did, nothing is
  recorded as settled.
\<close>

definition since :: "u64 \<Rightarrow> nat \<Rightarrow> 'e client \<Rightarrow> bool" where
  "since g n c \<longleftrightarrow> cl_generation c = g + of_nat n \<and> (0 < n \<longrightarrow> cl_settledCards c = {})"

lemma since_deliver: "since g n c \<Longrightarrow> since g (n + forgets hs) (deliver hs c)"
  using forgets_0_iff [of hs] by (auto simp: since_def deliver_generation deliver_settled)

lemma since_settle: "since g n c \<Longrightarrow> n < 2 ^ 64 \<Longrightarrow> since g n (settle cardPath g c)"
  using reads_guard.since_note [of c g n] reads_guard.stamp_note [of cardPath g c]
  by (simp add: since_def)

subsection \<open>What the enumeration visits\<close>

definition reader_card :: "ifaces \<Rightarrow> string option" where
  "reader_card ifs =
     (case smap_find ifs kReaderIface of
        None \<Rightarrow> None
      | Some props \<Rightarrow>
          (case (prop_bool props ''HasCard'' False, prop_path props ''Card'') of
             (Inr hasCard, Inr p) \<Rightarrow> if hasCard \<and> p \<noteq> [] then Some p else None
           | _ \<Rightarrow> None))"

primrec visits :: "(string \<times> ifaces) list \<Rightarrow> (string \<times> string) list" where
  "visits [] = []"
| "visits (obj # objs) =
     (case reader_card (snd obj) of None \<Rightarrow> visits objs | Some p \<Rightarrow> (fst obj, p) # visits objs)"

definition steps_at :: "enum_env \<Rightarrow> string \<Rightarrow> handler_step list" where
  "steps_at env path = en_pre env path @ en_during env path"

lemma enum_loop_visit:
  assumes "reader_card (snd obj) = Some p"
  shows "\<exists>reader. enum_loop L env g managed (obj # objs) snap isComplete c =
     (case cardCerts L env g managed (fst obj) p c of
        (Inl t, c) \<Rightarrow> (Inl t, c)
      | (Inr (whole, es), c) \<Rightarrow> enum_loop L env g managed objs (snap @ [reader es]) (isComplete \<and> whole) c)"
proof -
  obtain props where "smap_find (snd obj) kReaderIface = Some props"
    "prop_bool props ''HasCard'' False = Inr True" "prop_path props ''Card'' = Inr p" "p \<noteq> []"
    using assms by (auto simp: reader_card_def split: option.splits sum.splits if_splits)
  then show ?thesis
    by (intro exI [of _ "\<lambda>es. \<lparr>rs_readerPath = fst obj, rs_hasCard = True,
          rs_readerName = prop_string props ''Name'' [], rs_certs = es,
          rs_tokenLabel = tokenLabelFor L es (prop_string props ''Name'' []),
          rs_tokenSerial = tokenSerialFor L p\<rparr>"]) (simp add: Let_def split: prod.split sum.split)
qed

lemma enum_loop_skip:
  assumes "reader_card (snd obj) = None"
    and "enum_loop L env g managed (obj # objs) snap isComplete c = (Inr r, c')"
  shows "\<exists>snap'. enum_loop L env g managed objs snap' isComplete c = (Inr r, c')"
  using assms by (auto simp: reader_card_def Let_def split: option.splits sum.splits if_splits)

declare enum_loop.simps(2) [simp del]

text \<open>Every fact about the enumeration is one about \<^const>\<open>cardCerts\<close>, chained over the visits.\<close>

primrec visited ::
  "('k, 'e, 'm) module_lib \<Rightarrow> enum_env \<Rightarrow> u64 \<Rightarrow> managed_objects \<Rightarrow> (string \<times> string) list \<Rightarrow> 'e client \<Rightarrow>
     (bool \<times> 'e client) option" where
  "visited L env g managed [] c = Some (True, c)"
| "visited L env g managed (v # vs) c =
     (case cardCerts L env g managed (fst v) (snd v) c of
        (Inl _, _) \<Rightarrow> None
      | (Inr (whole, _), c) \<Rightarrow> map_option (apfst ((\<and>) whole)) (visited L env g managed vs c))"

lemma enum_loop_visited:
  "enum_loop L env g managed objs snap isComplete c = (Inr (snap', done'), c') \<Longrightarrow>
     \<exists>whole. visited L env g managed (visits objs) c = Some (whole, c') \<and> done' = (isComplete \<and> whole)"
proof (induction objs arbitrary: snap isComplete c)
  case (Cons obj objs)
  show ?case
  proof (cases "reader_card (snd obj)")
    case None
    with Cons.prems obtain s where "enum_loop L env g managed objs s isComplete c = (Inr (snap', done'), c')"
      using enum_loop_skip by blast
    from Cons.IH [OF this] None show ?thesis by simp
  next
    case (Some p)
    obtain r c1 where cc: "cardCerts L env g managed (fst obj) p c = (r, c1)" by force
    obtain reader where step: "enum_loop L env g managed (obj # objs) snap isComplete c =
        (case (r, c1) of
           (Inl t, c) \<Rightarrow> (Inl t, c)
         | (Inr (whole, es), c) \<Rightarrow> enum_loop L env g managed objs (snap @ [reader es]) (isComplete \<and> whole) c)"
      using enum_loop_visit [OF Some, of L env g managed objs snap isComplete c] unfolding cc by blast
    obtain whole es where r: "r = Inr (whole, es)"
      and run: "enum_loop L env g managed objs (snap @ [reader es]) (isComplete \<and> whole) c1 = (Inr (snap', done'), c')"
      using Cons.prems unfolding step by (cases r) auto
    from Cons.IH [OF run] Some cc r show ?thesis by auto
  qed
qed (auto intro: exI [of _ True])

subsection \<open>One card\<close>

lemma cardCerts_cases:
  assumes "cardCerts L env g managed path p c = (Inr (whole, es), c')"
  defines "c1 \<equiv> deliver (en_pre env path) c"
  obtains (asked) "p \<notin> cl_settledCards c1" "whole = (fst (readCerts L (en_read env p)) \<noteq> AskAgain)"
      "c' = (if fst (readCerts L (en_read env p)) = Settled then settle p g else id)
              (deliver (en_during env path) (c1\<lparr>cl_reads := cl_reads c1 @ [p]\<rparr>))"
    | (known) "p \<in> cl_settledCards c1" "whole" "c' = settle p g (deliver (en_during env path) c1)"
proof (cases "p \<in> cl_settledCards c1")
  case True
  with assms have "whole" "c' = settle p g (deliver (en_during env path) c1)"
    by (auto simp: cardCerts_def isSettled_def)
  with True known show thesis by blast
next
  case False
  obtain oc certs where rc: "readCerts L (en_read env p) = (oc, certs)" by force
  from False assms rc show thesis
    by (intro asked) (cases oc; auto simp: cardCerts_def isSettled_def Let_def split: sum.splits)+
qed

lemma settle_frame [simp]:
  "cl_ok (settle p g c) = cl_ok c" "cl_dirty (settle p g c) = cl_dirty c"
  "cl_reads (settle p g c) = cl_reads c" "cl_cached (settle p g c) = cl_cached c"
  "cl_calls (settle p g c) = cl_calls c" "cl_pubKeyCache (settle p g c) = cl_pubKeyCache c"
  by (simp_all add: settle_def)

lemma settle_settled:
  "cl_settledCards (settle p g c) = (if g = cl_generation c then insert p (cl_settledCards c) else cl_settledCards c)"
  by (simp add: settle_def)

lemma cardCerts_dirty:
  "cardCerts L env g managed path p c = (Inr (whole, es), c') \<Longrightarrow>
     cl_dirty c' \<longleftrightarrow> cl_dirty c \<or> MarkDirty \<in> set (steps_at env path)"
  by (erule cardCerts_cases) (auto simp: steps_at_def)

lemma cardCerts_settled:
  "cardCerts L env g managed path p c = (Inr (whole, es), c') \<Longrightarrow>
     cl_settledCards c' \<subseteq> cl_settledCards c \<union> {q. fst (readCerts L (en_read env q)) = Settled} \<and>
     (whole \<longrightarrow> p \<in> cl_settledCards c \<or> fst (readCerts L (en_read env p)) \<noteq> AskAgain)"
  by (erule cardCerts_cases) (auto simp: deliver_settled settle_settled split: if_splits)

lemma cardCerts_since:
  assumes "cardCerts L env g managed path p c = (Inr (whole, es), c')"
    and "since g n c" and "n + forgets (steps_at env path) < 2 ^ 64"
  shows "since g (n + forgets (steps_at env path)) c'"
proof -
  let ?c1 = "deliver (en_pre env path) c"
  have pre: "since g (n + forgets (en_pre env path)) ?c1" using assms(2) by (rule since_deliver)
  then have "since g (n + forgets (en_pre env path)) (?c1\<lparr>cl_reads := rs\<rparr>)" for rs by (simp add: since_def)
  from since_deliver [OF this, of "en_during env path"] since_deliver [OF pre, of "en_during env path"]
  have both: "since g (n + forgets (steps_at env path)) (deliver (en_during env path) (?c1\<lparr>cl_reads := rs\<rparr>))"
    "since g (n + forgets (steps_at env path)) (deliver (en_during env path) ?c1)" for rs
    by (simp_all add: steps_at_def add.assoc)
  from assms(1) show ?thesis
    by (cases rule: cardCerts_cases) (use both assms(3) in \<open>auto intro: since_settle\<close>)
qed

lemma cardCerts_quiet:
  assumes "cardCerts L env g managed path p c = (Inr (whole, es), c')" and "Forget \<notin> set (steps_at env path)"
  shows "cl_settledCards c \<subseteq> cl_settledCards c' \<and>
         cl_reads c' = cl_reads c @ (if p \<in> cl_settledCards c then [] else [p])"
  using assms(1)
  by (cases rule: cardCerts_cases)
     (use assms(2) in \<open>auto simp: deliver_settled settle_settled steps_at_def\<close>)

subsection \<open>All cards\<close>

lemma visited_ConsE:
  assumes "visited L env g managed (v # vs) c = Some (whole, c')"
  obtains w1 es c1 w2 where "cardCerts L env g managed (fst v) (snd v) c = (Inr (w1, es), c1)"
    "visited L env g managed vs c1 = Some (w2, c')" "whole = (w1 \<and> w2)"
  using assms by (auto split: prod.splits sum.splits)

lemma visited_dirty:
  "visited L env g managed vs c = Some (whole, c') \<Longrightarrow>
     cl_dirty c' \<longleftrightarrow> cl_dirty c \<or> (\<exists>v \<in> set vs. MarkDirty \<in> set (steps_at env (fst v)))"
proof (induction vs arbitrary: c whole)
  case (Cons v vs)
  from Cons.prems show ?case
    by (rule visited_ConsE) (use Cons.IH in \<open>fastforce dest: cardCerts_dirty\<close>)
qed simp

lemma visited_whole:
  "visited L env g managed vs c = Some (True, c') \<Longrightarrow> v \<in> set vs \<Longrightarrow>
     snd v \<in> cl_settledCards c \<or> fst (readCerts L (en_read env (snd v))) \<noteq> AskAgain"
proof (induction vs arbitrary: c)
  case (Cons x vs)
  from Cons.prems(1) obtain es c1 where cc: "cardCerts L env g managed (fst x) (snd x) c = (Inr (True, es), c1)"
    and rest: "visited L env g managed vs c1 = Some (True, c')"
    by (rule visited_ConsE) auto
  note card = cardCerts_settled [OF cc]
  show ?case
  proof (cases "v = x")
    case True
    with card show ?thesis by simp
  next
    case False
    with Cons.prems(2) have "v \<in> set vs" by simp
    from Cons.IH [OF rest this] card show ?thesis by auto
  qed
qed simp

lemma cardCerts_frame:
  "cardCerts L env g managed path p c = (r, c') \<Longrightarrow>
     cl_ok c' = cl_ok c \<and> cl_cached c' = cl_cached c \<and>
     (MarkDirty \<notin> set (steps_at env path) \<longrightarrow> cl_dirty c' = cl_dirty c)"
  by (auto simp: cardCerts_def Let_def steps_at_def split: prod.splits read_outcome.splits sum.splits if_splits)

lemma visited_frame: "visited L env g managed vs c = Some (whole, c') \<Longrightarrow> cl_ok c' = cl_ok c"
proof (induction vs arbitrary: c whole)
  case (Cons v vs)
  from Cons.prems show ?case
    by (rule visited_ConsE) (use Cons.IH in \<open>fastforce dest: cardCerts_frame\<close>)
qed simp

primrec forgets_at :: "enum_env \<Rightarrow> (string \<times> string) list \<Rightarrow> nat" where
  "forgets_at env [] = 0"
| "forgets_at env (v # vs) = forgets (steps_at env (fst v)) + forgets_at env vs"

lemma visited_since:
  "visited L env g managed vs c = Some (whole, c') \<Longrightarrow> since g n c \<Longrightarrow> n + forgets_at env vs < 2 ^ 64 \<Longrightarrow>
     since g (n + forgets_at env vs) c'"
proof (induction vs arbitrary: c whole n)
  case (Cons v vs)
  from Cons.prems(1) obtain w1 es c1 w2 where cc: "cardCerts L env g managed (fst v) (snd v) c = (Inr (w1, es), c1)"
    and rest: "visited L env g managed vs c1 = Some (w2, c')"
    by (rule visited_ConsE)
  have "since g (n + forgets (steps_at env (fst v))) c1"
    using cardCerts_since [OF cc Cons.prems(2)] Cons.prems(3) by simp
  from Cons.IH [OF rest this] Cons.prems(3) show ?case by (simp add: add.assoc)
qed simp

lemma visited_quiet:
  "visited L env g managed vs c = Some (whole, c') \<Longrightarrow> forgets_at env vs = 0 \<Longrightarrow>
     cl_settledCards c \<subseteq> cl_settledCards c' \<and>
     (\<exists>rs. cl_reads c' = cl_reads c @ rs \<and> set rs \<inter> cl_settledCards c = {})"
proof (induction vs arbitrary: c whole)
  case (Cons v vs)
  from Cons.prems(1) obtain w1 es c1 w2 where cc: "cardCerts L env g managed (fst v) (snd v) c = (Inr (w1, es), c1)"
    and rest: "visited L env g managed vs c1 = Some (w2, c')"
    by (rule visited_ConsE)
  from Cons.prems(2) have none: "Forget \<notin> set (steps_at env (fst v))" "forgets_at env vs = 0"
    by (simp_all add: forgets_0_iff)
  from Cons.IH [OF rest none(2)] cardCerts_quiet [OF cc none(1)] show ?case by fastforce
qed simp

subsection \<open>Properties\<close>

lemma snapshot_enumerated:
  assumes "snapshot L env c = (Inr snap, c')" and "cl_ok c" and "cl_dirty c"
  defines "c1 \<equiv> deliver (en_before env) (c\<lparr>cl_dirty := False\<rparr>)"
  obtains (gone) t where "en_managed env = Inl t" "cl_dirty c'"
    | (answered) managed whole c2 where "en_managed env = Inr managed"
        "visited L env (cl_generation c1) managed (visits managed) (deliver (en_call env) c1) = Some (whole, c2)"
        "c' = (deliver (en_tail env) c2)\<lparr>cl_cached := snap, cl_dirty := (cl_dirty (deliver (en_tail env) c2) \<or> \<not> whole)\<rparr>"
proof (cases "en_managed env")
  case (Inl t)
  with assms gone show thesis by (auto simp: snapshot_def enumerate_def Let_def)
next
  case (Inr managed)
  obtain snap' isComplete c2 where run:
    "enum_loop L env (cl_generation c1) managed managed [] True (deliver (en_call env) c1) = (Inr (snap', isComplete), c2)"
    and res: "snap' = snap" "c' = (let x = (deliver (en_tail env) c2)\<lparr>cl_cached := snap\<rparr> in
        if isComplete then x else x\<lparr>cl_dirty := True\<rparr>)"
    using assms Inr by (auto simp: snapshot_def enumerate_def Let_def split: prod.splits sum.splits)
  from enum_loop_visited [OF run] res Inr show thesis
    by (intro answered [of managed isComplete c2]) (auto simp: Let_def)
qed



text \<open>A sample agent: one reader with one card, one certificate.\<close>

definition sample_lib :: "(nat, string, nat) module_lib" where
  "sample_lib =
     \<lparr>operationError = 2, codeCardRemoved = 1, codeCommunicationError = 2, codeWatchdogTimeout = 3,
      codeRateLimited = 4, keyTypeFromToken = (\<lambda>s. if s = ''rsa'' then 0 else 1), keyTypeRsa = 0, keyTypeEc = 1,
      certEntryFrom = (\<lambda>nc pre. Some (nc_certId nc)), tokenLabelFor = (\<lambda>es name. name),
      tokenSerialFor = (\<lambda>p. p), mechanismToken = (\<lambda>m. ''rsa-pkcs''), signMechanismFromToken = (\<lambda>t. Some 0),
      rsaPkcs1Decrypt = 1\<rparr>"

definition sample_cert :: cert_result where
  "sample_cert =
     \<lparr>cr_certId = ''c1'', cr_signingCapable = True, cr_fields = [], cr_keyUsageBits = 1, cr_ekuOids = [],
      cr_chainSubjectCns = [], cr_trustStatus = 0, cr_alwaysAuthenticate = False, cr_keyId = [1],
      cr_keyType = ''rsa'', cr_keyBits = 2048, cr_canDerive = False\<rparr>"

definition sample_read :: read_bus where
  "sample_read =
     \<lparr>rb_call = Inr ''/op/1'', rb_completed = Inr False, rb_status = Inr 0, rb_errorCode = Inr 0,
      rb_finished = Some (0, 0, ''done''), rb_result = Inr [sample_cert]\<rparr>"

definition sample_managed :: "variant \<Rightarrow> managed_objects" where
  "sample_managed hasCard =
     [(''/c'', [(kCardIface, [(''PreReadAuthMethod'', VString ''None'')])]),
      (''/r'', [(kReaderIface, [(''Card'', VPath ''/c''), (''HasCard'', hasCard)])])]"

definition sample_env :: "variant \<Rightarrow> handler_step list \<Rightarrow> enum_env" where
  "sample_env hasCard hs =
     \<lparr>en_managed = Inr (sample_managed hasCard), en_read = (\<lambda>_. sample_read), en_before = [], en_call = [],
      en_pre = (\<lambda>_. []), en_during = (\<lambda>_. hs), en_tail = []\<rparr>"

definition sample_reader :: "string reader_state" where
  "sample_reader = \<lparr>rs_readerPath = ''/r'', rs_hasCard = True, rs_readerName = [], rs_certs = [''c1''],
     rs_tokenLabel = [], rs_tokenSerial = ''/c''\<rparr>"

lemmas sample_defs = sample_lib_def sample_cert_def sample_read_def sample_managed_def sample_env_def
  sample_reader_def client_init_def kReaderIface_def kCardIface_def

lemma sample_cert_read:
  "readCerts sample_lib sample_read = (Read, [sample_cert])"
  by (simp add: sample_read_def readCerts_def readCertificates_def read_ok_def Let_def)

lemma sample_card_read:
  "cardCerts sample_lib (sample_env hc hs) g (sample_managed hc) ''/r'' ''/c'' c =
     (if ''/c'' \<in> cl_settledCards c then (Inr (True, []), settle ''/c'' g (deliver hs c))
      else (Inr (True, [''c1'']), deliver hs (c\<lparr>cl_reads := cl_reads c @ [''/c'']\<rparr>)))"
proof -
  have "collectCerts sample_lib pre [sample_cert] [] = Inr [''c1'']" for pre
    by (simp add: sample_cert_def sample_lib_def subjectCn_def smap_find_def Let_def)
  then show ?thesis
    by (simp add: cardCerts_def isSettled_def sample_env_def sample_cert_read Let_def)
qed

lemma sample_enumeration:
  "enum_loop sample_lib (sample_env (VBool True) hs) g (sample_managed (VBool True)) (sample_managed (VBool True))
     [] True c =
     (if ''/c'' \<in> cl_settledCards c
      then (Inr ([sample_reader\<lparr>rs_certs := []\<rparr>], True), settle ''/c'' g (deliver hs c))
      else (Inr ([sample_reader], True), deliver hs (c\<lparr>cl_reads := cl_reads c @ [''/c'']\<rparr>)))"
proof -
  have objs: "sample_managed (VBool True) = [(''/c'', [(kCardIface, [(''PreReadAuthMethod'', VString ''None'')])]),
      (''/r'', [(kReaderIface, [(''Card'', VPath ''/c''), (''HasCard'', VBool True)])])]"
    by (simp add: sample_managed_def)
  have "enum_loop sample_lib (sample_env (VBool True) hs) g (sample_managed (VBool True))
     [(''/c'', [(kCardIface, [(''PreReadAuthMethod'', VString ''None'')])]),
      (''/r'', [(kReaderIface, [(''Card'', VPath ''/c''), (''HasCard'', VBool True)])])] [] True c =
     (if ''/c'' \<in> cl_settledCards c
      then (Inr ([sample_reader\<lparr>rs_certs := []\<rparr>], True), settle ''/c'' g (deliver hs c))
      else (Inr ([sample_reader], True), deliver hs (c\<lparr>cl_reads := cl_reads c @ [''/c'']\<rparr>)))"
    by (simp add: enum_loop.simps(2) smap_find_def prop_bool_def prop_path_def prop_string_def sample_card_read
        Let_def kReaderIface_def kCardIface_def)
       (simp add: sample_reader_def sample_lib_def)
  then show ?thesis by (simp add: objs)
qed

lemma sample_snapshot:
  "snapshot sample_lib (sample_env (VBool True) hs) (client_init True) =
     (Inr [sample_reader], (deliver hs ((client_init True)\<lparr>cl_dirty := False, cl_reads := [''/c'']\<rparr>))
        \<lparr>cl_cached := [sample_reader]\<rparr>)"
proof -
  have "en_managed (sample_env (VBool True) hs) = Inr (sample_managed (VBool True))"
    "en_before (sample_env (VBool True) hs) = []" "en_call (sample_env (VBool True) hs) = []"
    "en_tail (sample_env (VBool True) hs) = []"
    by (simp_all add: sample_env_def)
  then show ?thesis by (simp add: snapshot_def enumerate_def sample_enumeration Let_def client_init_def)
qed



lemma enum_loop_frame:
  assumes "\<forall>path. MarkDirty \<notin> set (steps_at env path)"
  shows "enum_loop L env g managed objs snap isComplete c = (r, c') \<Longrightarrow>
     cl_ok c' = cl_ok c \<and> cl_cached c' = cl_cached c \<and> cl_dirty c' = cl_dirty c"
proof (induction objs arbitrary: snap isComplete c)
  case (Cons obj objs)
  have "cl_ok c' = cl_ok c \<and> cl_cached c' = cl_cached c \<and> cl_dirty c' = cl_dirty c"
    if visit: "reader_card (snd obj) = Some p" for p
  proof -
    obtain s c1 where cc: "cardCerts L env g managed (fst obj) p c = (s, c1)" by force
    note fr = cardCerts_frame [OF cc]
    obtain reader where step: "enum_loop L env g managed (obj # objs) snap isComplete c =
        (case (s, c1) of
           (Inl t, c) \<Rightarrow> (Inl t, c)
         | (Inr (whole, es), c) \<Rightarrow> enum_loop L env g managed objs (snap @ [reader es]) (isComplete \<and> whole) c)"
      using enum_loop_visit [OF visit, of L env g managed objs snap isComplete c] unfolding cc by blast
    have "c' = c1 \<or> (\<exists>snap' cm. enum_loop L env g managed objs snap' cm c1 = (r, c'))"
      using Cons.prems unfolding step by (cases s) auto
    with fr assms Cons.IH [of _ _ c1] show ?thesis by auto
  qed
  moreover have "c' = c \<or> (\<exists>snap'. enum_loop L env g managed objs snap' isComplete c = (r, c'))"
    if "reader_card (snd obj) = None"
    using Cons.prems that
    by (auto simp: enum_loop.simps(2) reader_card_def Let_def split: option.splits sum.splits if_splits)
  ultimately show ?case using Cons.IH [of _ _ c] by (cases "reader_card (snd obj)") auto
qed simp

text \<open>
  An enumeration that throws leaves its failure unrecorded. A property of the wrong type
  makes the enumeration throw out of \<^verbatim>\<open>snapshot()\<close> after the flag was taken, so the cache counts
  as current: unless a signal happens to arrive, every later snapshot serves what was cached
  before, on a fresh client no readers at all, and never asks again.
\<close>

theorem failed_enumeration_kept:
  assumes "snapshot L env c = (Inl t, c')" and "\<forall>path. MarkDirty \<notin> set (steps_at env path)"
    and "MarkDirty \<notin> set (en_before env @ en_call env)"
  shows "snapshot L env' c' = (Inr (cl_cached c), c')"
proof -
  from assms(1) have ok: "cl_ok c" "cl_dirty c" by (auto simp: snapshot_def split: if_splits)
  let ?c1 = "deliver (en_before env) (c\<lparr>cl_dirty := False\<rparr>)"
  obtain managed where
    run: "enum_loop L env (cl_generation ?c1) managed managed [] True (deliver (en_call env) ?c1) = (Inl t, c')"
    using assms(1) ok
    by (auto simp: snapshot_def enumerate_def Let_def split: prod.splits sum.splits)
  from enum_loop_frame [OF assms(2) run] assms(3) ok
  show ?thesis by (simp add: snapshot_def)
qed

theorem failed_enumeration_kept_witness:
  "snapshot sample_lib (sample_env (VBool True) [])
     (snd (snapshot sample_lib (sample_env (VString ''yes'') []) (client_init True))) =
   (Inr [], snd (snapshot sample_lib (sample_env (VString ''yes'') []) (client_init True)))"
proof -
  have "fst (snapshot sample_lib (sample_env (VString ''yes'') []) (client_init True)) =
      Inl (BusError ''System.Error.ENXIO'')"
    by (simp add: snapshot_def enumerate_def sample_env_def sample_managed_def enum_loop.simps(2) smap_find_def
        prop_bool_def client_init_def kReaderIface_def kCardIface_def Let_def)
  then obtain c' where s: "snapshot sample_lib (sample_env (VString ''yes'') []) (client_init True) =
      (Inl (BusError ''System.Error.ENXIO''), c')"
    by (metis prod.collapse)
  have "snapshot sample_lib (sample_env (VBool True) []) c' = (Inr (cl_cached (client_init True)), c')"
    by (rule failed_enumeration_kept [OF s]) (simp_all add: sample_env_def steps_at_def)
  then show ?thesis unfolding s by (simp add: client_init_def)
qed

text \<open>
  The public-key cache. A key that was fetched is of the family asked for and is served
  again for it with no further call, whatever handler steps ran while it was fetched: also
  when those cleared the cache because the card was removed. A request for another family is
  refused from the cache, and a failed fetch inserts nothing.
\<close>

theorem public_key_cache:
  assumes "publicKey L B meanwhile reader certId keyType c = (r, c')" and "cl_ok c"
    and "keyTypeRsa L \<noteq> keyTypeEc L"
  shows "case r of
           Inl _ \<Rightarrow> cl_pubKeyCache c' \<subseteq>\<^sub>m cl_pubKeyCache c
         | Inr key \<Rightarrow>
             key_family L key = keyType \<and>
             publicKey L B' meanwhile' reader' certId keyType c' = (Inr key, c') \<and>
             (\<forall>other. other \<noteq> keyType \<longrightarrow>
                publicKey L B' meanwhile' reader' certId other c' = (Inl NotSupported, c'))"
proof (cases "cl_pubKeyCache c certId")
  case (Some key)
  with assms show ?thesis
    by (cases "key_family L key = keyType") (auto simp: publicKey_def)
next
  case None
  consider (rsa) "keyType = keyTypeRsa L" | (ec) "keyType = keyTypeEc L" "keyType \<noteq> keyTypeRsa L"
    | (other) "keyType \<noteq> keyTypeRsa L" "keyType \<noteq> keyTypeEc L" by blast
  then show ?thesis
  proof cases
    case rsa
    with None assms show ?thesis
      by (auto simp: publicKey_def Let_def key_family_def deliver_keys map_le_def
          split: sum.splits prod.splits if_splits)
  next
    case ec
    with None assms show ?thesis
      by (auto simp: publicKey_def Let_def key_family_def deliver_keys map_le_def
          split: sum.splits prod.splits if_splits)
  next
    case other
    with None assms show ?thesis by (auto simp: publicKey_def)
  qed
qed

definition sample_bus :: pkcs11_bus where
  "sample_bus =
     \<lparr>pb_bytes = (\<lambda>_. Inr [9]), pb_rsa = (\<lambda>_. Inr ([1, 2], [3])), pb_ec = (\<lambda>_. Inl OtherException),
      pb_idle = (\<lambda>_. Inr 300), pb_active = (\<lambda>_. Inr True), pb_none = (\<lambda>_. Inr ())\<rparr>"

theorem public_key_cache_witness:
  "\<exists>c' :: string client.
     publicKey sample_lib sample_bus onInterfacesRemoved ''/r'' ''c1'' 0 (client_init True) = (Inr (RsaKey [1, 2] [3]), c') \<and>
     publicKey sample_lib (sample_bus\<lparr>pb_rsa := (\<lambda>_. Inl OtherException)\<rparr>) [] ''/r'' ''c1'' 0 c' =
       (Inr (RsaKey [1, 2] [3]), c')"
proof -
  let ?c = "client_init True :: string client"
  obtain c' where c': "publicKey sample_lib sample_bus onInterfacesRemoved ''/r'' ''c1'' 0 ?c =
      (Inr (RsaKey [1, 2] [3]), c')"
    by (simp add: publicKey_def sample_lib_def sample_bus_def client_init_def Let_def)
  from public_key_cache [OF c'] c' show ?thesis by (auto simp: sample_lib_def client_init_def)
qed

text \<open>
  Further facts: a read that timed out is the one that was cancelled, certificates come with
  an Ok read only, and a signature is sent only for a mechanism the wire reads back as itself.
\<close>

lemma readCertificates_cancel:
  "readCertificates B = (Inr r, cancelled) \<Longrightarrow>
     cancelled = rd_timedOut r \<and> (rd_certificates r \<noteq> [] \<longrightarrow> read_ok r) \<and> (cancelled \<longrightarrow> \<not> settled L r)"
  by (auto simp: readCertificates_def read_ok_def settled_def Let_def
      split: sum.splits bool.splits option.splits prod.splits if_splits)

lemma signRaw_sent:
  "signRaw L B reader certId m input c = (r, c') \<Longrightarrow> cl_calls c' \<noteq> cl_calls c \<Longrightarrow>
     signMechanismFromToken L (mechanismToken L m) = Some m \<and> cl_ok c"
  by (auto simp: signRaw_def bytes_call_def Let_def split: if_splits)

lemma agent_errors_mapped:
  "mapErrorName n = mapErrorName n' \<Longrightarrow> mapErrorName n \<noteq> GeneralError \<Longrightarrow> n = n'"
  by (auto simp: mapErrorName_def split: if_splits)

end
