(* ===== verification/Bus_Exporter.thy ===== *)
theory Bus_Exporter
  imports Object_Paths Std_Map
begin

text \<open>
  The transport between the agent library's presence model and the exported tree
  (\<^verbatim>\<open>agent/src/BusExporter.cpp\<close>): the presence snapshot of the readers, the deltas forwarded to
  whatever materializer is registered, and the client-liveness watch. A callback is a function on
  the state \<open>'f\<close> of its owner; an empty \<^verbatim>\<open>std::function\<close> is \<^const>\<open>None\<close>.
\<close>

subsection \<open>The presence deltas\<close>

record reader_st =
  rst_id :: u64
  rst_name :: string
  rst_hasCard :: bool
  rst_card :: u64
  rst_model :: string
  rst_iface :: string

datatype auth_method = AuthNone | AuthMrz | AuthCan

record card_st =
  cst_id :: u64
  cst_reader :: u64
  cst_capabilities :: u32
  cst_preReadAuth :: auth_method
  cst_cardType :: string
  cst_atrHex :: string

record property_delta =
  dl_hasCard :: bool
  dl_card :: u64

definition authMethodName :: "auth_method \<Rightarrow> string" where
  "authMethodName m = (case m of AuthNone \<Rightarrow> ''None'' | AuthMrz \<Rightarrow> ''Mrz'' | AuthCan \<Rightarrow> ''Can'')"

text \<open>The path of a reader's card, the no-card sentinel for an invalid id.\<close>

definition card_path_or_root :: "oid_lib \<Rightarrow> u64 \<Rightarrow> string" where
  "card_path_or_root L i = (if oid_valid L i then agentObjectPath ''card'' i else ''/'')"

subsection \<open>The exporter\<close>

record presence_entry =
  pe_name :: string
  pe_hasCard :: bool
  pe_cardPath :: string

record 'f materializer =
  onReader :: "(reader_st \<Rightarrow> 'f \<Rightarrow> 'f) option"
  onCard :: "(card_st \<Rightarrow> 'f \<Rightarrow> 'f) option"
  onWithdraw :: "(u64 \<Rightarrow> 'f \<Rightarrow> 'f) option"
  onUpdate :: "(u64 \<Rightarrow> property_delta \<Rightarrow> 'f \<Rightarrow> 'f) option"
  onRelabel :: "(reader_st \<Rightarrow> 'f \<Rightarrow> 'f) option"

type_synonym presence = "(string, presence_entry) smap"

definition clearMaterializer :: "'f materializer" where
  "clearMaterializer = \<lparr>onReader = None, onCard = None, onWithdraw = None, onUpdate = None, onRelabel = None\<rparr>"

definition fire :: "('f \<Rightarrow> 'f) option \<Rightarrow> 'f \<Rightarrow> 'f" where
  "fire cb f = (case cb of None \<Rightarrow> f | Some g \<Rightarrow> g f)"

definition publishReader :: "oid_lib \<Rightarrow> 'f materializer \<Rightarrow> reader_st \<Rightarrow> presence \<times> 'f \<Rightarrow> presence \<times> 'f" where
  "publishReader L M reader xf =
     (smap_assign (agentObjectPath ''reader'' (rst_id reader))
        \<lparr>pe_name = rst_name reader, pe_hasCard = rst_hasCard reader,
         pe_cardPath = card_path_or_root L (rst_card reader)\<rparr> (fst xf),
      fire (map_option (\<lambda>g. g reader) (onReader M)) (snd xf))"

definition publishCard :: "'f materializer \<Rightarrow> card_st \<Rightarrow> presence \<times> 'f \<Rightarrow> presence \<times> 'f" where
  "publishCard M c xf = (fst xf, fire (map_option (\<lambda>g. g c) (onCard M)) (snd xf))"

definition updateProperties ::
  "oid_lib \<Rightarrow> 'f materializer \<Rightarrow> u64 \<Rightarrow> property_delta \<Rightarrow> presence \<times> 'f \<Rightarrow> presence \<times> 'f" where
  "updateProperties L M reader delta xf =
     (let path = agentObjectPath ''reader'' reader in
      (case smap_find (fst xf) path of
         None \<Rightarrow> fst xf
       | Some e \<Rightarrow> smap_assign path (e\<lparr>pe_hasCard := dl_hasCard delta, pe_cardPath := card_path_or_root L (dl_card delta)\<rparr>)
                     (fst xf),
       fire (map_option (\<lambda>g. g reader delta) (onUpdate M)) (snd xf)))"

definition relabel :: "'f materializer \<Rightarrow> reader_st \<Rightarrow> presence \<times> 'f \<Rightarrow> presence \<times> 'f" where
  "relabel M reader xf = (fst xf, fire (map_option (\<lambda>g. g reader) (onRelabel M)) (snd xf))"

definition withdraw :: "'f materializer \<Rightarrow> u64 \<Rightarrow> presence \<times> 'f \<Rightarrow> presence \<times> 'f" where
  "withdraw M i xf =
     (smap_erase (agentObjectPath ''reader'' i) (fst xf), fire (map_option (\<lambda>g. g i) (onWithdraw M)) (snd xf))"

definition holds_card :: "presence_entry \<Rightarrow> bool" where
  "holds_card e \<longleftrightarrow> pe_hasCard e \<and> pe_cardPath e \<noteq> [] \<and> pe_cardPath e \<noteq> ''/''"

definition resolveReaderCard :: "presence \<Rightarrow> string \<Rightarrow> (string \<times> string) option" where
  "resolveReaderCard x path =
     (case smap_find x path of
        None \<Rightarrow> None
      | Some e \<Rightarrow> if holds_card e then Some (pe_name e, pe_cardPath e) else None)"

text \<open>The roster: reader names and card keys, position by position, in path order.\<close>

definition presenceRoster :: "presence \<Rightarrow> string list \<times> string list" where
  "presenceRoster x =
     (map (\<lambda>e. pe_name (snd e)) x, map (\<lambda>e. if holds_card (snd e) then pe_cardPath (snd e) else []) x)"

subsection \<open>The client-liveness watch\<close>

text \<open>
  A unique name that lost its owner fires every handler, in registration order; anything else
  fires none.
\<close>

definition onNameOwnerChanged :: "(string \<Rightarrow> 'f \<Rightarrow> 'f) list \<Rightarrow> string \<Rightarrow> string \<Rightarrow> 'f \<Rightarrow> 'f" where
  "onNameOwnerChanged handlers name newOwner f =
     (if name = [] \<or> hd name \<noteq> CHR '':'' \<or> newOwner \<noteq> [] then f
      else fold (\<lambda>h. h name) handlers f)"

definition onClientDisconnect :: "('h) \<Rightarrow> 'h list \<Rightarrow> 'h list" where
  "onClientDisconnect handler handlers = handlers @ [handler]"

subsection \<open>Facts\<close>

lemma card_path_or_root_nonempty [simp]: "card_path_or_root L i \<noteq> []"
  by (simp add: card_path_or_root_def agentObjectPath_def kRootPath_def)

lemma withdraw_then_resolve: "resolveReaderCard (fst (withdraw M i xf)) (agentObjectPath ''reader'' i) = None"
  by (simp add: withdraw_def resolveReaderCard_def smap_find_erase)

lemma update_then_resolve:
  assumes "smap_ok (fst xf)" and "smap_find (fst xf) (agentObjectPath ''reader'' i) = Some e"
  shows "resolveReaderCard (fst (updateProperties L M i d xf)) (agentObjectPath ''reader'' i) =
           (if dl_hasCard d \<and> oid_valid L (dl_card d) then Some (pe_name e, agentObjectPath ''card'' (dl_card d)) else None)"
  using assms agentObjectPath_not_root
  by (auto simp: updateProperties_def resolveReaderCard_def Let_def smap_find_assign holds_card_def
      card_path_or_root_def agentObjectPath_def kRootPath_def)

text \<open>A name in the roster stands beside its own card, and only a card \<^const>\<open>resolveReaderCard\<close> finds.\<close>

lemma roster_pairs:
  assumes "smap_ok x" and "j < length x"
  shows "fst (presenceRoster x) ! j = pe_name (snd (x ! j)) \<and>
         (snd (presenceRoster x) ! j \<noteq> [] \<longleftrightarrow>
            resolveReaderCard x (fst (x ! j)) = Some (fst (presenceRoster x) ! j, snd (presenceRoster x) ! j))"
proof -
  have "smap_find x (fst (x ! j)) = Some (snd (x ! j))"
    using assms by (simp add: smap_find_iff)
  then show ?thesis using assms(2)
    by (auto simp: presenceRoster_def resolveReaderCard_def holds_card_def)
qed

end
