(* ===== verification/Sign_Options.thy ===== *)
theory Sign_Options
  imports Error_Names Std_Map
begin

text \<open>
  How \<^verbatim>\<open>Card1.Sign\<close> and \<^verbatim>\<open>Card1.SignBatch\<close> lift and validate their options
  (\<^verbatim>\<open>agent/src/dbus/CardObject.cpp\<close>, the helpers of its first anonymous namespace). The
  vocabulary of formats, levels and packagings, the configuration store and the arithmetic of
  floating-point conversion are parameters: the agent library's and the machine's.
\<close>

definition kInvalidRequestErrName :: string where "kInvalidRequestErrName = kErrInvalidRequest"
definition kUnsupportedErrName :: string where "kUnsupportedErrName = kErrUnsupportedOnThisCard"
definition kInternalErrName :: string where "kInternalErrName = ''org.librescrs.Agent.Error.Internal''"
definition kBadParamErrName :: string where
  "kBadParamErrName = ''org.librescrs.Agent.Error.UnsupportedSignatureParameter''"
definition kInputTooLargeErrName :: string where
  "kInputTooLargeErrName = ''org.librescrs.Agent.Error.InputTooLarge''"

type_synonym opt_dict = "(string, variant) smap"

subsection \<open>One option\<close>

definition optString :: "opt_dict \<Rightarrow> string \<Rightarrow> string \<Rightarrow> string" where
  "optString options key fallback =
     (case smap_find options key of
        None \<Rightarrow> fallback
      | Some v \<Rightarrow> (case get_string v of Some s \<Rightarrow> s | None \<Rightarrow> fallback))"

definition optBool :: "opt_dict \<Rightarrow> string \<Rightarrow> bool \<Rightarrow> bool" where
  "optBool options key fallback =
     (case smap_find options key of
        None \<Rightarrow> fallback
      | Some v \<Rightarrow> (case get_bool v of Some b \<Rightarrow> b | None \<Rightarrow> fallback))"

definition optNestedMap :: "opt_dict \<Rightarrow> string \<Rightarrow> opt_dict option" where
  "optNestedMap options key =
     (case smap_find options key of None \<Rightarrow> None | Some v \<Rightarrow> get_dict v)"

text \<open>
  The conversions of the machine: a 64-bit integer rounded to a double, and a double cut to a
  64-bit or 32-bit integer or rounded to a float. What a cut gives outside the target's range
  the language leaves open.
\<close>

record casts =
  int_to_double :: "int \<Rightarrow> double"
  double_to_int64 :: "double \<Rightarrow> 64 word"
  double_to_int :: "double \<Rightarrow> 32 word"
  double_to_float :: "double \<Rightarrow> double"

definition optNestedNumber :: "casts \<Rightarrow> opt_dict \<Rightarrow> string \<Rightarrow> double option" where
  "optNestedNumber K m key =
     (case smap_find m key of
        Some (VDouble d) \<Rightarrow> Some d
      | Some (VInt32 w) \<Rightarrow> Some (Finite (of_int (sint w)))
      | Some (VUInt32 w) \<Rightarrow> Some (Finite (of_int (uint w)))
      | Some (VInt64 w) \<Rightarrow> Some (int_to_double K (sint w))
      | Some (VUInt64 w) \<Rightarrow> Some (int_to_double K (uint w))
      | _ \<Rightarrow> None)"

subsection \<open>The vocabulary and the configuration\<close>

record sign_lib =
  requestedFormatFrom :: "string \<Rightarrow> string option"
  sniffFormat :: "bytes \<Rightarrow> string option"
  isKnownFormat :: "string \<Rightarrow> bool"
  isValidTsaUrl :: "string \<Rightarrow> bool"
  requestedLevelFrom :: "string \<Rightarrow> string option"
  resolveSignLevel :: "string option \<Rightarrow> string \<Rightarrow> bool \<Rightarrow> string"
  isKnownLevel :: "string \<Rightarrow> bool"
  isImplementedSignLevel :: "string \<Rightarrow> bool"
  implementedSignLevelsDisplay :: string
  requestedPackagingFrom :: "string \<Rightarrow> string option"
  defaultPackagingFor :: "string \<Rightarrow> string"
  isKnownPackaging :: "string \<Rightarrow> bool"
  isValidVisualGeometry :: "64 word \<Rightarrow> double \<Rightarrow> double \<Rightarrow> double \<Rightarrow> double \<Rightarrow> bool"
  sign_casts :: casts

record config_store =
  tsaUrls :: "string list"
  defaultLevel :: string
  defaultReason :: string
  defaultLocation :: string

record visual_params =
  vp_page :: "32 word"
  vp_x :: double
  vp_y :: double
  vp_width :: double
  vp_height :: double
  vp_text :: string

record resolved_options =
  ro_format :: string
  ro_level :: string
  ro_packaging :: string
  ro_allowExpired :: bool
  ro_reason :: string
  ro_location :: string
  ro_tsaUrl :: string
  ro_visual :: "visual_params option"

definition badParam :: "string \<Rightarrow> bus_error + 'a" where
  "badParam msg = Inl (BusErr kBadParamErrName msg)"

subsection \<open>The steps of resolveSignOptions, in its order\<close>

definition resolveFormat :: "sign_lib \<Rightarrow> opt_dict \<Rightarrow> bytes \<Rightarrow> bus_error + string" where
  "resolveFormat L options sniffSource =
     (let chosen = (case requestedFormatFrom L (optString options ''format'' []) of
                      Some f \<Rightarrow> Some f
                    | None \<Rightarrow> sniffFormat L sniffSource) in
      case chosen of
        None \<Rightarrow> badParam ''Could not infer the signature format''
      | Some format \<Rightarrow>
          if isKnownFormat L format then Inr format else badParam ''Unsupported signature format'')"

definition resolveTsaUrl :: "sign_lib \<Rightarrow> opt_dict \<Rightarrow> bus_error + string" where
  "resolveTsaUrl L options =
     (case smap_find options ''tsaUrl'' of
        None \<Rightarrow> Inr []
      | Some v \<Rightarrow>
          (case get_string v of
             None \<Rightarrow> badParam ''tsaUrl must be a string''
           | Some url \<Rightarrow>
               if isValidTsaUrl L url then Inr url
               else badParam ''tsaUrl must be an https URL with a non-empty host''))"

definition resolveLevel :: "sign_lib \<Rightarrow> config_store \<Rightarrow> opt_dict \<Rightarrow> string \<Rightarrow> bus_error + string" where
  "resolveLevel L cfg options tsaUrl =
     (let requested =
        (case smap_find options ''level'' of
           None \<Rightarrow> Inr None
         | Some v \<Rightarrow>
             (case get_string v of
                None \<Rightarrow> badParam ''level must be a string''
              | Some s \<Rightarrow> Inr (requestedLevelFrom L s))) in
      case requested of
        Inl e \<Rightarrow> Inl e
      | Inr requestedLevel \<Rightarrow>
          let hasTsa = (tsaUrls cfg \<noteq> [] \<or> tsaUrl \<noteq> []);
              level = resolveSignLevel L requestedLevel (defaultLevel cfg) hasTsa in
          if \<not> isKnownLevel L level then badParam ''Unsupported signature level''
          else if \<not> isImplementedSignLevel L level
          then badParam (''Only the '' @ implementedSignLevelsDisplay L @
                         '' signature levels are supported in this release'')
          else if tsaUrl \<noteq> [] \<and> level = ''b-b''
          then badParam ''tsaUrl is only meaningful for the timestamped/long-term family (b-t/b-lt/b-lta)''
          else Inr level)"

definition resolvePackaging :: "sign_lib \<Rightarrow> opt_dict \<Rightarrow> string \<Rightarrow> bus_error + string" where
  "resolvePackaging L options format =
     (let packaging = (case requestedPackagingFrom L (optString options ''packaging'' []) of
                         Some p \<Rightarrow> p | None \<Rightarrow> defaultPackagingFor L format) in
      if isKnownPackaging L packaging then Inr packaging else badParam ''Unsupported packaging mode'')"

definition resolveVisual :: "sign_lib \<Rightarrow> opt_dict \<Rightarrow> string \<Rightarrow> bus_error + visual_params option" where
  "resolveVisual L options format =
     (case optNestedMap options ''visualSignature'' of
        None \<Rightarrow> Inr None
      | Some nested \<Rightarrow>
          if format \<noteq> ''pades'' then badParam ''visualSignature is only supported for the pades format''
          else
            let K = sign_casts L;
                refuse = badParam (''visualSignature requires page/x/y/width/height/text, a non-negative page, '' @
                                   ''and a positive width/height'') in
            (case (optNestedNumber K nested ''page'', optNestedNumber K nested ''x'', optNestedNumber K nested ''y'',
                   optNestedNumber K nested ''width'', optNestedNumber K nested ''height'',
                   Option.bind (smap_find nested ''text'') get_string) of
               (Some page, Some x, Some y, Some width, Some height, Some txt) \<Rightarrow>
                 if isValidVisualGeometry L (double_to_int64 K page) x y width height
                 then Inr (Some \<lparr>vp_page = double_to_int K page, vp_x = double_to_float K x,
                                 vp_y = double_to_float K y, vp_width = double_to_float K width,
                                 vp_height = double_to_float K height, vp_text = txt\<rparr>)
                 else refuse
             | _ \<Rightarrow> refuse))"

definition resolveSignOptions ::
  "sign_lib \<Rightarrow> config_store \<Rightarrow> opt_dict \<Rightarrow> bytes \<Rightarrow> bus_error + resolved_options" where
  "resolveSignOptions L cfg options sniffSource =
     (case resolveFormat L options sniffSource of
        Inl e \<Rightarrow> Inl e
      | Inr format \<Rightarrow>
          (case resolveTsaUrl L options of
             Inl e \<Rightarrow> Inl e
           | Inr tsaUrl \<Rightarrow>
               (case resolveLevel L cfg options tsaUrl of
                  Inl e \<Rightarrow> Inl e
                | Inr level \<Rightarrow>
                    (case resolvePackaging L options format of
                       Inl e \<Rightarrow> Inl e
                     | Inr packaging \<Rightarrow>
                         (case resolveVisual L options format of
                            Inl e \<Rightarrow> Inl e
                          | Inr visual \<Rightarrow>
                              Inr \<lparr>ro_format = format, ro_level = level, ro_packaging = packaging,
                                   ro_allowExpired = optBool options ''allowExpired'' False,
                                   ro_reason = optString options ''reason'' (defaultReason cfg),
                                   ro_location = optString options ''location'' (defaultLocation cfg),
                                   ro_tsaUrl = tsaUrl, ro_visual = visual\<rparr>)))))"

lemmas resolve_defs = resolveFormat_def resolveTsaUrl_def resolveLevel_def resolvePackaging_def
  resolveVisual_def badParam_def

subsection \<open>Properties\<close>

lemma resolveFormat_ok: "resolveFormat L options src = Inr f \<Longrightarrow> isKnownFormat L f"
  by (auto simp: resolve_defs Let_def split: option.splits if_splits)

lemma resolveTsaUrl_ok:
  "resolveTsaUrl L options = Inr u \<Longrightarrow>
     (case smap_find options ''tsaUrl'' of None \<Rightarrow> u = [] | Some v \<Rightarrow> v = VString u \<and> isValidTsaUrl L u)"
  by (auto simp: resolve_defs elim!: get_string_SomeE split: option.splits if_splits)

lemma resolveLevel_ok:
  "resolveLevel L cfg options u = Inr lv \<Longrightarrow>
     isKnownLevel L lv \<and> isImplementedSignLevel L lv \<and> (u \<noteq> [] \<longrightarrow> lv \<noteq> ''b-b'')"
  by (auto simp: resolve_defs Let_def split: option.splits sum.splits if_splits)

lemma resolvePackaging_ok: "resolvePackaging L options f = Inr p \<Longrightarrow> isKnownPackaging L p"
  by (auto simp: resolve_defs Let_def split: option.splits if_splits)

lemma resolveVisual_ok:
  "resolveVisual L options f = Inr v \<Longrightarrow>
     (case optNestedMap options ''visualSignature'' of
        None \<Rightarrow> v = None
      | Some nested \<Rightarrow> f = ''pades'' \<and>
          (\<exists>page x y width height txt.
             optNestedNumber (sign_casts L) nested ''page'' = Some page \<and>
             optNestedNumber (sign_casts L) nested ''x'' = Some x \<and>
             optNestedNumber (sign_casts L) nested ''y'' = Some y \<and>
             optNestedNumber (sign_casts L) nested ''width'' = Some width \<and>
             optNestedNumber (sign_casts L) nested ''height'' = Some height \<and>
             smap_find nested ''text'' = Some (VString txt) \<and>
             isValidVisualGeometry L (double_to_int64 (sign_casts L) page) x y width height \<and>
             v = Some \<lparr>vp_page = double_to_int (sign_casts L) page, vp_x = double_to_float (sign_casts L) x,
                       vp_y = double_to_float (sign_casts L) y, vp_width = double_to_float (sign_casts L) width,
                       vp_height = double_to_float (sign_casts L) height, vp_text = txt\<rparr>))"
  by (auto simp: resolve_defs Let_def bind_eq_Some_conv elim!: get_string_SomeE
      split: option.splits if_splits prod.splits)

lemma step_refusals:
  "resolveFormat L options src = Inl e \<Longrightarrow> err_name e = kBadParamErrName"
  "resolveTsaUrl L options = Inl e \<Longrightarrow> err_name e = kBadParamErrName"
  "resolveLevel L cfg options u = Inl e \<Longrightarrow> err_name e = kBadParamErrName"
  "resolvePackaging L options f = Inl e \<Longrightarrow> err_name e = kBadParamErrName"
  "resolveVisual L options f = Inl e \<Longrightarrow> err_name e = kBadParamErrName"
proof -
  show "resolveFormat L options src = Inl e \<Longrightarrow> err_name e = kBadParamErrName"
    by (auto simp: resolveFormat_def badParam_def Let_def split: option.splits if_splits)
  show "resolveTsaUrl L options = Inl e \<Longrightarrow> err_name e = kBadParamErrName"
    by (auto simp: resolveTsaUrl_def badParam_def split: option.splits if_splits)
  show "resolveLevel L cfg options u = Inl e \<Longrightarrow> err_name e = kBadParamErrName"
    by (auto simp: resolveLevel_def badParam_def Let_def split: option.splits if_splits sum.splits)
  show "resolvePackaging L options f = Inl e \<Longrightarrow> err_name e = kBadParamErrName"
    by (auto simp: resolvePackaging_def badParam_def Let_def split: option.splits if_splits)
  show "resolveVisual L options f = Inl e \<Longrightarrow> err_name e = kBadParamErrName"
    by (auto simp: resolveVisual_def badParam_def Let_def split: option.splits if_splits prod.splits)
qed

lemma resolveSignOptions_InrE:
  assumes "resolveSignOptions L cfg options src = Inr r"
  obtains "resolveFormat L options src = Inr (ro_format r)" "resolveTsaUrl L options = Inr (ro_tsaUrl r)"
    "resolveLevel L cfg options (ro_tsaUrl r) = Inr (ro_level r)"
    "resolvePackaging L options (ro_format r) = Inr (ro_packaging r)"
    "resolveVisual L options (ro_format r) = Inr (ro_visual r)"
  using assms by (auto simp: resolveSignOptions_def split: sum.splits)


text \<open>
  A visible-signature option that is not a dictionary is dropped, not refused: the request
  resolves exactly as if the key had not been sent, and the document is signed without the
  appearance that was asked for.
\<close>

theorem mistyped_visual_signature_dropped:
  assumes "smap_ok options" and "smap_find options ''visualSignature'' = Some v" and "get_dict v = None"
  shows "resolveSignOptions L cfg options src =
         resolveSignOptions L cfg (smap_erase ''visualSignature'' options) src"
proof -
  have find: "smap_find (smap_erase ''visualSignature'' options) k = smap_find options k"
    if "k \<noteq> ''visualSignature''" for k
    using that by (simp add: smap_find_erase)
  let ?o = "smap_erase ''visualSignature'' options"
  have visual: "resolveVisual L ?o f = resolveVisual L options f" for f
    using assms by (simp add: resolveVisual_def optNestedMap_def smap_find_erase)
  have str: "optString ?o k d = optString options k d" if "k \<noteq> ''visualSignature''" for k d
    using find [OF that] by (simp add: optString_def)
  have steps: "resolveFormat L ?o src = resolveFormat L options src" "resolveTsaUrl L ?o = resolveTsaUrl L options"
    "resolveLevel L cfg ?o u = resolveLevel L cfg options u"
    "resolvePackaging L ?o f = resolvePackaging L options f" for u f
    by (simp_all add: resolveFormat_def resolveTsaUrl_def resolveLevel_def resolvePackaging_def str find)
  have flag: "optBool ?o ''allowExpired'' False = optBool options ''allowExpired'' False"
    by (simp add: optBool_def find)
  have texts: "optString ?o ''reason'' d = optString options ''reason'' d"
    "optString ?o ''location'' d = optString options ''location'' d" for d
    by (simp_all add: str)
  show ?thesis unfolding resolveSignOptions_def visual steps flag texts ..
qed

definition sample_sign_lib :: sign_lib where
  "sample_sign_lib =
     \<lparr>requestedFormatFrom = (\<lambda>s. if s = [] then None else Some s), sniffFormat = (\<lambda>b. Some ''pades''),
      isKnownFormat = (\<lambda>f. f = ''pades'' \<or> f = ''xades''), isValidTsaUrl = (\<lambda>u. u \<noteq> []),
      requestedLevelFrom = Some, resolveSignLevel = (\<lambda>r d t. case r of Some l \<Rightarrow> l | None \<Rightarrow> if t then ''b-t'' else d),
      isKnownLevel = (\<lambda>l. l \<in> {''b-b'', ''b-t''}), isImplementedSignLevel = (\<lambda>l. True),
      implementedSignLevelsDisplay = ''b-b, b-t'', requestedPackagingFrom = (\<lambda>s. None),
      defaultPackagingFor = (\<lambda>f. ''enveloped''), isKnownPackaging = (\<lambda>p. True),
      isValidVisualGeometry = (\<lambda>p x y w h. True),
      sign_casts = \<lparr>int_to_double = (\<lambda>i. Finite (of_int i)), double_to_int64 = (\<lambda>d. 0), double_to_int = (\<lambda>d. 0),
                    double_to_float = (\<lambda>d. d)\<rparr>\<rparr>"

definition sample_config :: config_store where
  "sample_config = \<lparr>tsaUrls = [], defaultLevel = ''b-b'', defaultReason = [], defaultLocation = []\<rparr>"

theorem mistyped_visual_signature_dropped_witness:
  "\<exists>r. resolveSignOptions sample_sign_lib sample_config [(''visualSignature'', VString ''x=1'')] [1] = Inr r \<and>
       ro_visual r = None"
proof -
  have e: "smap_erase ''visualSignature'' [(''visualSignature'', VString ''x=1'')] = []"
    by (simp add: smap_erase_def)
  have "resolveSignOptions sample_sign_lib sample_config [(''visualSignature'', VString ''x=1'')] [1] =
        resolveSignOptions sample_sign_lib sample_config [] [1]"
    using mistyped_visual_signature_dropped [of "[(''visualSignature'', VString ''x=1'')]" "VString ''x=1''"
        sample_sign_lib sample_config "[1]"]
    unfolding e by (simp add: smap_find_def)
  then show ?thesis
    by (simp add: resolveSignOptions_def resolve_defs optString_def optNestedMap_def smap_find_def
        sample_sign_lib_def sample_config_def)
qed

end
