(* ===== verification/Card_Object.thy ===== *)
theory Card_Object
  imports Sign_Options Authorization Object_Paths
begin

text \<open>
  The exported card (\<^verbatim>\<open>agent/src/dbus/CardObject.cpp\<close>): every method of \<^verbatim>\<open>Card1\<close> and
  \<^verbatim>\<open>Credentials1\<close> with its entry gates, the deferred ones split at the authorization as the code
  splits them. What a method does beyond its reply is recorded in a log of effects: charges of
  the rate limiter, descriptors read, credential listings consulted, operations launched. The
  rate limiter, the launcher, the bounded read and the request validation are the agent
  library's: functions of that log and of their arguments.
\<close>

subsection \<open>What the card relies on\<close>

datatype read_status = ReadOk | NotRegular | TooLarge | ReadError

datatype entry_error = UnknownCredential | AmbiguousCredential | UnknownVerb | UnknownOption | InvalidCombination

record sign_params =
  sg_certId :: string
  sg_inputDocument :: bytes
  sg_format :: string
  sg_level :: string
  sg_packaging :: string
  sg_allowExpired :: bool
  sg_displayName :: string
  sg_reason :: string
  sg_location :: string
  sg_tsaUrl :: string
  sg_visual :: "visual_params option"

record pin_request =
  pr_cardKey :: string
  pr_pinId :: string
  pr_verb :: string
  pr_activateKey :: bool

datatype 'snap operation =
    OpReadIdentity | OpGetPhoto | OpReadCertificates | OpReadTokenInfo
  | OpSign sign_params
  | OpSignBatch sign_params "(string \<times> bytes) list"
  | OpManagePin pin_request "'snap option"
  | OpActivateSigningKey | OpListCredentials

datatype channel =
  IdentityChannel | PhotoChannel | CertificatesChannel | SignChannel | SignBatchChannel | CredentialsChannel

record 'snap launched_op =
  lo_channel :: channel
  lo_operation :: "'snap operation"
  lo_readerId :: u64
  lo_readerName :: string
  lo_cardKey :: string
  lo_caller :: string
  lo_requester :: string

record 'snap effects =
  ef_charges :: "string list"
  ef_fd_reads :: "nat list"
  ef_listings :: "string list"
  ef_launched :: "'snap launched_op list"

text \<open>A \<^verbatim>\<open>Wire::SyncError\<close> is represented by the token \<^verbatim>\<open>syncErrorName\<close> gives it.\<close>

record 'snap card_lib =
  identityBit :: u32
  pkiBit :: u32
  pinManagementBit :: u32
  oids :: oid_lib
  rate_allows :: "string list \<Rightarrow> string \<Rightarrow> bool"
  launch_answer :: "'snap launched_op list \<Rightarrow> 'snap launched_op \<Rightarrow> string + u64"
  readBoundedRegularFd :: "nat \<Rightarrow> read_status \<times> bytes"
  isValidBatchDocumentCount :: "nat \<Rightarrow> bool"
  kMinBatchDocuments :: nat
  kMaxBatchDocuments :: nat
  sanitizeLabel :: "string \<Rightarrow> string"
  credentialSnapshot :: "string \<Rightarrow> 'snap option"
  validatePinManageRequest :: "pin_request \<Rightarrow> 'snap option \<Rightarrow> entry_error + unit"
  toSyncError :: "entry_error \<Rightarrow> string"
  signing :: sign_lib
  signConfig :: config_store

text \<open>
  What the code rests on: an empty batch is no valid batch (the first document is read
  without a check), and a request is never valid without a listing (the listing is dereferenced
  after the validation).
\<close>

definition card_lib_ok :: "'snap card_lib \<Rightarrow> bool" where
  "card_lib_ok L \<longleftrightarrow>
     \<not> isValidBatchDocumentCount L 0 \<and> (\<forall>r. validatePinManageRequest L r None \<noteq> Inr ())"

record card_object =
  m_capabilities :: u32
  m_reader :: string
  m_readerName :: string
  m_cardKey :: string
  m_preReadAuth :: string
  m_atrHex :: string
  m_cardType :: string
  m_signals :: "string list"

subsection \<open>Properties of the object\<close>


definition PreReadAuthMethod :: "card_object \<Rightarrow> string" where
  "PreReadAuthMethod c = (if m_preReadAuth c = [] then ''None'' else m_preReadAuth c)"

definition updateCardType :: "string \<Rightarrow> card_object \<Rightarrow> card_object" where
  "updateCardType cardType c =
     (if m_cardType c = cardType then c
      else c\<lparr>m_cardType := cardType, m_signals := m_signals c @ [''CardType'']\<rparr>)"

definition hasIdentityCapability :: "'snap card_lib \<Rightarrow> card_object \<Rightarrow> bool" where
  "hasIdentityCapability L c \<longleftrightarrow> and (m_capabilities c) (identityBit L) \<noteq> 0"

definition hasPkiCapability :: "'snap card_lib \<Rightarrow> card_object \<Rightarrow> bool" where
  "hasPkiCapability L c \<longleftrightarrow> and (m_capabilities c) (pkiBit L) \<noteq> 0"

definition hasPinManagementCapability :: "'snap card_lib \<Rightarrow> card_object \<Rightarrow> bool" where
  "hasPinManagementCapability L c \<longleftrightarrow> and (m_capabilities c) (pinManagementBit L) \<noteq> 0"

definition kSyncErrorBusPrefix :: string where "kSyncErrorBusPrefix = ''org.librescrs.Agent.Error.''"

definition syncErrorBusName :: "string \<Rightarrow> string" where
  "syncErrorBusName e = kSyncErrorBusPrefix @ e"

subsection \<open>Launching\<close>

type_synonym 'snap granted = "(bus_error + string) \<times> 'snap effects"

definition launch ::
  "'snap card_lib \<Rightarrow> card_object \<Rightarrow> channel \<Rightarrow> 'snap operation \<Rightarrow> string \<Rightarrow> string \<Rightarrow> 'snap effects \<Rightarrow> 'snap granted" where
  "launch L c ch op sender requester w =
     (let l = \<lparr>lo_channel = ch, lo_operation = op, lo_readerId = objectIdFromPath (oids L) (m_reader c),
               lo_readerName = m_readerName c, lo_cardKey = m_cardKey c, lo_caller = sender,
               lo_requester = requester\<rparr> in
      case launch_answer L (ef_launched w) l of
        Inl e \<Rightarrow> (Inl (BusErr (syncErrorBusName e) ''reader operation backlog full; retry shortly''), w)
      | Inr i \<Rightarrow> (Inr (opObjectPath i), w\<lparr>ef_launched := ef_launched w @ [l]\<rparr>))"

definition unsupported :: "string \<Rightarrow> bus_error" where
  "unsupported capability = BusErr kUnsupportedErrName (''Card does not advertise '' @ capability @ '' capability'')"

definition ReadIdentity :: "'snap card_lib \<Rightarrow> card_object \<Rightarrow> string \<Rightarrow> string \<Rightarrow> 'snap effects \<Rightarrow> 'snap granted" where
  "ReadIdentity L c sender requester w =
     (if \<not> hasIdentityCapability L c then (Inl (unsupported ''IdentityData''), w)
      else launch L c IdentityChannel OpReadIdentity sender requester w)"

definition GetPhoto :: "'snap card_lib \<Rightarrow> card_object \<Rightarrow> string \<Rightarrow> string \<Rightarrow> 'snap effects \<Rightarrow> 'snap granted" where
  "GetPhoto L c sender requester w =
     (if \<not> hasIdentityCapability L c then (Inl (unsupported ''IdentityData''), w)
      else launch L c PhotoChannel OpGetPhoto sender requester w)"

definition ReadCertificates :: "'snap card_lib \<Rightarrow> card_object \<Rightarrow> string \<Rightarrow> string \<Rightarrow> 'snap effects \<Rightarrow> 'snap granted" where
  "ReadCertificates L c sender requester w =
     (if \<not> hasPkiCapability L c then (Inl (unsupported ''PKI''), w)
      else launch L c CertificatesChannel OpReadCertificates sender requester w)"

definition ReadTokenInfo :: "'snap card_lib \<Rightarrow> card_object \<Rightarrow> string \<Rightarrow> string \<Rightarrow> 'snap effects \<Rightarrow> 'snap granted" where
  "ReadTokenInfo L c sender requester w =
     (if \<not> hasPkiCapability L c then (Inl (unsupported ''PKI''), w)
      else launch L c IdentityChannel OpReadTokenInfo sender requester w)"

definition ListCredentials :: "'snap card_lib \<Rightarrow> card_object \<Rightarrow> string \<Rightarrow> string \<Rightarrow> 'snap effects \<Rightarrow> 'snap granted" where
  "ListCredentials L c sender requester w =
     (if \<not> hasPinManagementCapability L c then (Inl (unsupported ''PinManagement''), w)
      else launch L c CredentialsChannel OpListCredentials sender requester w)"

subsection \<open>Signing\<close>

definition charge :: "'snap card_lib \<Rightarrow> string \<Rightarrow> 'snap effects \<Rightarrow> bool \<times> 'snap effects" where
  "charge L sender w = (rate_allows L (ef_charges w) sender, w\<lparr>ef_charges := ef_charges w @ [sender]\<rparr>)"

definition read_fd :: "'snap card_lib \<Rightarrow> nat \<Rightarrow> 'snap effects \<Rightarrow> (read_status \<times> bytes) \<times> 'snap effects" where
  "read_fd L fd w = (readBoundedRegularFd L fd, w\<lparr>ef_fd_reads := ef_fd_reads w @ [fd]\<rparr>)"

definition params_of :: "string \<Rightarrow> bytes \<Rightarrow> string \<Rightarrow> resolved_options \<Rightarrow> sign_params" where
  "params_of certId doc displayName r =
     \<lparr>sg_certId = certId, sg_inputDocument = doc, sg_format = ro_format r, sg_level = ro_level r,
      sg_packaging = ro_packaging r, sg_allowExpired = ro_allowExpired r, sg_displayName = displayName,
      sg_reason = ro_reason r, sg_location = ro_location r, sg_tsaUrl = ro_tsaUrl r, sg_visual = ro_visual r\<rparr>"

definition signGranted ::
  "'snap card_lib \<Rightarrow> card_object \<Rightarrow> string \<Rightarrow> nat \<Rightarrow> opt_dict \<Rightarrow> string \<Rightarrow> string \<Rightarrow> 'snap effects \<Rightarrow> 'snap granted" where
  "signGranted L c certId inputFd options sender requester w =
     (let (allowed, w) = charge L sender w in
      if \<not> allowed then (Inl (BusErr kErrRateLimited ''Too many signing requests; try again shortly''), w)
      else
        let ((st, doc), w) = read_fd L inputFd w in
        if st = NotRegular
        then (Inl (BusErr kBadParamErrName ''Input must be a regular file or memfd (no pipes/sockets)''), w)
        else if st = TooLarge
        then (Inl (BusErr kInputTooLargeErrName ''Input document exceeds the 256 MiB limit''), w)
        else if st = ReadError then (Inl (BusErr kInternalErrName ''Failed to read the input document''), w)
        else if doc = [] then (Inl (BusErr kBadParamErrName ''Input document is empty''), w)
        else
          (case resolveSignOptions (signing L) (signConfig L) options doc of
             Inl e \<Rightarrow> (Inl e, w)
           | Inr resolved \<Rightarrow>
               launch L c SignChannel
                 (OpSign (params_of certId doc (sanitizeLabel L (optString options ''displayName'' [])) resolved))
                 sender requester w))"

text \<open>The documents of a batch, read in request order; the first bad one ends the call.\<close>

primrec readBatch ::
  "'snap card_lib \<Rightarrow> (string \<times> nat) list \<Rightarrow> (string \<times> bytes) list \<Rightarrow> 'snap effects \<Rightarrow>
     (bus_error + (string \<times> bytes) list) \<times> 'snap effects" where
  "readBatch L [] inputs w = (Inr inputs, w)"
| "readBatch L (d # ds) inputs w =
     (let ((st, doc), w) = read_fd L (snd d) w in
      if st = NotRegular
      then (Inl (BusErr kBadParamErrName ''Every batch document must be a regular file or memfd (no pipes/sockets)''), w)
      else if st = TooLarge
      then (Inl (BusErr kInputTooLargeErrName ''A batch document exceeds the 256 MiB limit''), w)
      else if st = ReadError then (Inl (BusErr kInternalErrName ''Failed to read a batch input document''), w)
      else if doc = [] then (Inl (BusErr kBadParamErrName ''A batch document is empty''), w)
      else readBatch L ds (inputs @ [(sanitizeLabel L (fst d), doc)]) w)"

definition signBatchGranted ::
  "'snap card_lib \<Rightarrow> card_object \<Rightarrow> (string \<times> nat) list \<Rightarrow> string \<Rightarrow> opt_dict \<Rightarrow> string \<Rightarrow> string \<Rightarrow> 'snap effects \<Rightarrow>
     'snap granted" where
  "signBatchGranted L c documents certId options sender requester w =
     (let (allowed, w) = charge L sender w in
      if \<not> allowed then (Inl (BusErr kErrRateLimited ''Too many signing requests; try again shortly''), w)
      else if \<not> isValidBatchDocumentCount L (length documents)
      then (Inl (BusErr kInvalidRequestErrName
             (''Batch document count must be between '' @ show_nat (kMinBatchDocuments L) @ '' and '' @
              show_nat (kMaxBatchDocuments L))), w)
      else
        (case readBatch L documents [] w of
           (Inl e, w) \<Rightarrow> (Inl e, w)
         | (Inr inputs, w) \<Rightarrow>
             (case resolveSignOptions (signing L) (signConfig L) options (snd (hd inputs)) of
                Inl e \<Rightarrow> (Inl e, w)
              | Inr resolved \<Rightarrow>
                  launch L c SignBatchChannel (OpSignBatch (params_of certId [] [] resolved) inputs)
                    sender requester w)))"

subsection \<open>Credentials\<close>

definition kOptionActivateKey :: string where "kOptionActivateKey = ''activateKey''"

definition entryErrorMessage :: "entry_error \<Rightarrow> string" where
  "entryErrorMessage err =
     (case err of
        UnknownCredential \<Rightarrow> ''pinId does not match any credential from the latest ListCredentials''
      | AmbiguousCredential \<Rightarrow> ''pinId addresses a credential label that is not unique on this card''
      | _ \<Rightarrow> ''malformed credential-management request'')"

definition throwEntryError :: "'snap card_lib \<Rightarrow> entry_error \<Rightarrow> bus_error" where
  "throwEntryError L err = BusErr (syncErrorBusName (toSyncError L err)) (entryErrorMessage err)"

definition rateLimitCredentialMutation :: "'snap card_lib \<Rightarrow> string \<Rightarrow> 'snap effects \<Rightarrow> bus_error option \<times> 'snap effects" where
  "rateLimitCredentialMutation L sender w =
     (let (allowed, w) = charge L sender w in
      (if allowed then None else Some (BusErr kErrRateLimited ''Too many credential requests; try again shortly''), w))"

definition managePinGranted ::
  "'snap card_lib \<Rightarrow> card_object \<Rightarrow> string \<Rightarrow> string \<Rightarrow> opt_dict \<Rightarrow> string \<Rightarrow> string \<Rightarrow> 'snap effects \<Rightarrow> 'snap granted" where
  "managePinGranted L c pinId verb options sender requester w =
     (let (refused, w) = rateLimitCredentialMutation L sender w in
      case refused of
        Some e \<Rightarrow> (Inl e, w)
      | None \<Rightarrow>
          if \<not> list_all (\<lambda>k. k = kOptionActivateKey) (smap_keys options)
          then (Inl (BusErr kInvalidRequestErrName ''undefined ManagePin options key''), w)
          else
            (case (case smap_find options kOptionActivateKey of None \<Rightarrow> Some False | Some v \<Rightarrow> get_bool v) of
               None \<Rightarrow> (Inl (BusErr kInvalidRequestErrName ''activateKey must be a boolean''), w)
             | Some activateKey \<Rightarrow>
                 let request = \<lparr>pr_cardKey = m_cardKey c, pr_pinId = pinId, pr_verb = verb,
                                pr_activateKey = activateKey\<rparr>;
                     snapshot = credentialSnapshot L (m_cardKey c);
                     w = w\<lparr>ef_listings := ef_listings w @ [m_cardKey c]\<rparr> in
                 (case validatePinManageRequest L request snapshot of
                    Inl err \<Rightarrow> (Inl (throwEntryError L err), w)
                  | Inr _ \<Rightarrow> launch L c CredentialsChannel (OpManagePin request snapshot) sender requester w)))"

definition activateSigningKeyGranted ::
  "'snap card_lib \<Rightarrow> card_object \<Rightarrow> string \<Rightarrow> string \<Rightarrow> 'snap effects \<Rightarrow> 'snap granted" where
  "activateSigningKeyGranted L c sender requester w =
     (let (refused, w) = rateLimitCredentialMutation L sender w in
      case refused of
        Some e \<Rightarrow> (Inl e, w)
      | None \<Rightarrow> launch L c CredentialsChannel OpActivateSigningKey sender requester w)"

subsection \<open>The deferred methods\<close>

text \<open>
  A deferred method answers at its entry, or leaves the reply to the authority's answer: the
  action asked for, the words of a denial and the body that runs on a grant.
\<close>

datatype 'snap entry =
    Refused bus_error
  | Deferred string string "'snap effects \<Rightarrow> 'snap granted"

definition Sign :: "'snap card_lib \<Rightarrow> card_object \<Rightarrow> string \<Rightarrow> string \<Rightarrow> nat \<Rightarrow> opt_dict \<Rightarrow> string \<Rightarrow> string \<Rightarrow> 'snap entry" where
  "Sign L c kActionSign certId inputFd options sender requester =
     (if \<not> hasPkiCapability L c then Refused (unsupported ''PKI'')
      else if certId = [] then Refused (BusErr kBadParamErrName ''certId is required (no auto-select)'')
      else Deferred kActionSign ''Not authorized to sign'' (signGranted L c certId inputFd options sender requester))"

definition SignBatch ::
  "'snap card_lib \<Rightarrow> card_object \<Rightarrow> string \<Rightarrow> (string \<times> nat) list \<Rightarrow> string \<Rightarrow> opt_dict \<Rightarrow> string \<Rightarrow> string \<Rightarrow> 'snap entry" where
  "SignBatch L c kActionSign documents certId options sender requester =
     (if \<not> hasPkiCapability L c then Refused (unsupported ''PKI'')
      else if certId = [] then Refused (BusErr kBadParamErrName ''certId is required (no auto-select)'')
      else Deferred kActionSign ''Not authorized to sign''
             (signBatchGranted L c documents certId options sender requester))"

definition ManagePin ::
  "'snap card_lib \<Rightarrow> card_object \<Rightarrow> string \<Rightarrow> string \<Rightarrow> string \<Rightarrow> opt_dict \<Rightarrow> string \<Rightarrow> string \<Rightarrow> 'snap entry" where
  "ManagePin L c kActionCredentialsManage pinId verb options sender requester =
     (if \<not> hasPinManagementCapability L c then Refused (unsupported ''PinManagement'')
      else Deferred kActionCredentialsManage ''Not authorized to manage credentials''
             (managePinGranted L c pinId verb options sender requester))"

definition ActivateSigningKey ::
  "'snap card_lib \<Rightarrow> card_object \<Rightarrow> string \<Rightarrow> string \<Rightarrow> string \<Rightarrow> 'snap entry" where
  "ActivateSigningKey L c kActionCredentialsManage sender requester =
     (if \<not> hasPinManagementCapability L c then Refused (unsupported ''PinManagement'')
      else Deferred kActionCredentialsManage ''Not authorized to manage credentials''
             (activateSigningKeyGranted L c sender requester))"

definition body_of :: "bus_error + string \<Rightarrow> string body" where
  "body_of r = (case r of Inl e \<Rightarrow> ThrowsBus e | Inr p \<Rightarrow> Results p)"

text \<open>
  The completion of a deferred method: the body's effects happen exactly when it runs, which
  \<^const>\<open>authorizeThenReply\<close> counts.
\<close>

definition answer_entry ::
  "'snap entry \<Rightarrow> outcome \<Rightarrow> string pending \<Rightarrow> 'snap effects \<Rightarrow> string pending \<times> 'snap effects" where
  "answer_entry e outc p w =
     (case e of
        Refused err \<Rightarrow> (send (Err err) (p\<lparr>answered := True\<rparr>), w)
      | Deferred action denied granted \<Rightarrow>
          (authorizeThenReply denied (body_of (fst (granted w))) outc p,
           if outc = Granted \<and> \<not> m_closed p then snd (granted w) else w))"

subsection \<open>A launch and its log\<close>

lemma launch_cases:
  assumes "launch L c ch op sender requester w = (r, w')"
  obtains (full) e where "r = Inl e" "w' = w"
    | (started) i l where "r = Inr (opObjectPath i)" "w' = w\<lparr>ef_launched := ef_launched w @ [l]\<rparr>"
        "lo_channel l = ch" "lo_operation l = op" "lo_caller l = sender" "lo_requester l = requester"
        "lo_readerId l = objectIdFromPath (oids L) (m_reader c)" "lo_cardKey l = m_cardKey c"
        "lo_readerName l = m_readerName c"
proof -
  let ?l = "\<lparr>lo_channel = ch, lo_operation = op, lo_readerId = objectIdFromPath (oids L) (m_reader c),
     lo_readerName = m_readerName c, lo_cardKey = m_cardKey c, lo_caller = sender, lo_requester = requester\<rparr>"
  show thesis
  proof (cases "launch_answer L (ef_launched w) ?l")
    case (Inl e)
    with assms show thesis by (intro full) (auto simp: launch_def Let_def)
  next
    case (Inr i)
    with assms show thesis by (intro started [of i ?l]) (auto simp: launch_def Let_def)
  qed
qed

lemma closed_keys_shape:
  assumes "smap_ok m" and "list_all (\<lambda>x. x = k) (smap_keys m)"
  shows "m = [] \<or> (\<exists>v. m = [(k, v)])"
proof (cases m)
  case (Cons kv rest)
  then have "rest = []"
    using assms by (cases rest) (auto simp: smap_ok_def smap_keys_def)
  with Cons assms(2) show ?thesis by (cases kv) (simp add: smap_keys_def)
qed simp

lemma readBatch_spec:
  assumes "readBatch L ds inputs w = (r, w')"
  shows "ef_charges w' = ef_charges w \<and> ef_launched w' = ef_launched w \<and> ef_listings w' = ef_listings w \<and>
    (case r of
       Inl _ \<Rightarrow> True
     | Inr out \<Rightarrow>
         ef_fd_reads w' = ef_fd_reads w @ map snd ds \<and>
         out = inputs @ map (\<lambda>d. (sanitizeLabel L (fst d), snd (readBoundedRegularFd L (snd d)))) ds \<and>
         list_all (\<lambda>d. fst (readBoundedRegularFd L (snd d)) = ReadOk \<and> snd (readBoundedRegularFd L (snd d)) \<noteq> []) ds)"
  using assms
proof (induction ds arbitrary: inputs w)
  case (Cons d ds)
  obtain st doc where rd: "readBoundedRegularFd L (snd d) = (st, doc)" by force
  let ?w = "w\<lparr>ef_fd_reads := ef_fd_reads w @ [snd d]\<rparr>"
  show ?case
  proof (cases "st = ReadOk \<and> doc \<noteq> []")
    case True
    with Cons.prems rd have "readBatch L ds (inputs @ [(sanitizeLabel L (fst d), doc)]) ?w = (r, w')"
      by (simp add: read_fd_def)
    from Cons.IH [OF this] True rd show ?thesis by (cases r) auto
  next
    case False
    with Cons.prems rd show ?thesis by (cases st) (auto simp: read_fd_def)
  qed
qed auto

subsection \<open>Properties\<close>

text \<open>
  C17: A batch signature passes its gates in order and whole. Once granted, a call costs exactly
  one charge of the rate limiter, whatever its size. A document is read only after the limiter
  allowed the caller and the count was valid. An operation is launched at most once, and exactly
  when the call answers its path: then every document was read, in request order, from a regular
  source and not empty, and the operation carries those bytes under the sanitized names and
  options that resolved, in the caller's name.
\<close>

theorem batch_gates_in_order:
  assumes "signBatchGranted L c documents certId options sender requester w = (r, w')" and "card_lib_ok L"
  shows "ef_charges w' = ef_charges w @ [sender] \<and>
    (ef_fd_reads w' \<noteq> ef_fd_reads w \<longrightarrow>
       rate_allows L (ef_charges w) sender \<and> isValidBatchDocumentCount L (length documents)) \<and>
    (case r of
       Inl _ \<Rightarrow> ef_launched w' = ef_launched w
     | Inr path \<Rightarrow>
         documents \<noteq> [] \<and> ef_fd_reads w' = ef_fd_reads w @ map snd documents \<and>
         list_all (\<lambda>d. fst (readBoundedRegularFd L (snd d)) = ReadOk \<and> snd (readBoundedRegularFd L (snd d)) \<noteq> []) documents \<and>
         (\<exists>i l resolved. path = opObjectPath i \<and> ef_launched w' = ef_launched w @ [l] \<and>
            lo_caller l = sender \<and> lo_cardKey l = m_cardKey c \<and>
            resolveSignOptions (signing L) (signConfig L) options
              (snd (readBoundedRegularFd L (snd (hd documents)))) = Inr resolved \<and>
            lo_operation l = OpSignBatch (params_of certId [] [] resolved)
              (map (\<lambda>d. (sanitizeLabel L (fst d), snd (readBoundedRegularFd L (snd d)))) documents)))"
proof -
  let ?w = "w\<lparr>ef_charges := ef_charges w @ [sender]\<rparr>"
  obtain rb wb where b: "readBatch L documents [] ?w = (rb, wb)" by force
  note spec = readBatch_spec [OF b]
  show ?thesis
  proof (cases "rate_allows L (ef_charges w) sender \<and> isValidBatchDocumentCount L (length documents)")
    case False
    with assms(1) show ?thesis
      by (auto simp: signBatchGranted_def charge_def Let_def split: if_splits)
  next
    case True
    then have ne: "documents \<noteq> []" using assms(2) by (auto simp: card_lib_ok_def)
    show ?thesis
    proof (cases rb)
      case (Inl e)
      with True assms(1) b spec show ?thesis by (auto simp: signBatchGranted_def charge_def Let_def)
    next
      case (Inr inputs)
      with spec ne have hd_inputs: "snd (hd inputs) = snd (readBoundedRegularFd L (snd (hd documents)))"
        by (cases documents) auto
      show ?thesis
      proof (cases "resolveSignOptions (signing L) (signConfig L) options (snd (hd inputs))")
        case (Inl e)
        with True assms(1) b Inr spec show ?thesis by (auto simp: signBatchGranted_def charge_def Let_def)
      next
        case res: (Inr resolved)
        with True assms(1) b Inr
        have run: "launch L c SignBatchChannel (OpSignBatch (params_of certId [] [] resolved) inputs) sender requester wb = (r, w')"
          by (simp add: signBatchGranted_def charge_def)
        then show ?thesis
          by (cases rule: launch_cases) (use True Inr spec ne res hd_inputs in auto)
      qed
    qed
  qed
qed


text \<open>
  A credential change is launched exactly as asked. The options are a closed set: any other
  key, or an \<^verbatim>\<open>activateKey\<close> that is not a boolean, is refused before the listing is consulted.
  What is launched addresses this card, names the PIN and the verb of the call, carries the
  caller's own flag (absent means false) and the listing the request was validated against.
\<close>

theorem manage_pin_as_asked:
  assumes "managePinGranted L c pinId verb options sender requester w = (r, w')" and "card_lib_ok L"
    and "smap_ok options"
  shows "ef_charges w' = ef_charges w @ [sender] \<and>
    (ef_listings w' \<noteq> ef_listings w \<longrightarrow>
       rate_allows L (ef_charges w) sender \<and> (options = [] \<or> (\<exists>b. options = [(kOptionActivateKey, VBool b)]))) \<and>
    (case r of
       Inl _ \<Rightarrow> ef_launched w' = ef_launched w
     | Inr _ \<Rightarrow>
         (\<exists>l s flag. ef_launched w' = ef_launched w @ [l] \<and> lo_cardKey l = m_cardKey c \<and> lo_caller l = sender \<and>
            credentialSnapshot L (m_cardKey c) = Some s \<and>
            lo_operation l = OpManagePin \<lparr>pr_cardKey = m_cardKey c, pr_pinId = pinId, pr_verb = verb,
                                          pr_activateKey = flag\<rparr> (Some s) \<and>
            validatePinManageRequest L \<lparr>pr_cardKey = m_cardKey c, pr_pinId = pinId, pr_verb = verb,
                                        pr_activateKey = flag\<rparr> (Some s) = Inr () \<and>
            options = (if smap_find options kOptionActivateKey = None then [] else [(kOptionActivateKey, VBool flag)]) \<and>
            (options = [] \<longrightarrow> \<not> flag)))"
proof -
  let ?w = "w\<lparr>ef_charges := ef_charges w @ [sender]\<rparr>"
  let ?keys = "list_all (\<lambda>k. k = kOptionActivateKey) (smap_keys options)"
  have shape: "options = [] \<or> (\<exists>v. options = [(kOptionActivateKey, v)])" if ?keys
    using closed_keys_shape [OF assms(3) that] .
  let ?flag = "case smap_find options kOptionActivateKey of None \<Rightarrow> Some False | Some v \<Rightarrow> get_bool v"
  consider (limited) "\<not> rate_allows L (ef_charges w) sender"
    | (keys) "rate_allows L (ef_charges w) sender" "\<not> ?keys"
    | (typed) "rate_allows L (ef_charges w) sender" ?keys "?flag = None"
    | (valid) flag where "rate_allows L (ef_charges w) sender" ?keys "?flag = Some flag"
    by (cases ?flag) auto
  then show ?thesis
  proof cases
    case limited
    with assms(1) show ?thesis by (auto simp: managePinGranted_def rateLimitCredentialMutation_def charge_def)
  next
    case keys
    with assms(1) show ?thesis by (auto simp: managePinGranted_def rateLimitCredentialMutation_def charge_def)
  next
    case typed
    with assms(1) show ?thesis by (auto simp: managePinGranted_def rateLimitCredentialMutation_def charge_def)
  next
    case valid
    have opts: "options = (if smap_find options kOptionActivateKey = None then [] else [(kOptionActivateKey, VBool flag)])"
      and none: "options = [] \<longrightarrow> \<not> flag"
      using shape [OF valid(2)] valid(3) by (auto simp: smap_find_def elim!: get_bool_SomeE)
    have two: "options = [] \<or> (\<exists>b. options = [(kOptionActivateKey, VBool b)])"
      using shape [OF valid(2)] valid(3) by (auto simp: smap_find_def elim!: get_bool_SomeE)
    let ?req = "\<lparr>pr_cardKey = m_cardKey c, pr_pinId = pinId, pr_verb = verb, pr_activateKey = flag\<rparr>"
    let ?w2 = "?w\<lparr>ef_listings := ef_listings w @ [m_cardKey c]\<rparr>"
    show ?thesis
    proof (cases "validatePinManageRequest L ?req (credentialSnapshot L (m_cardKey c))")
      case (Inl err)
      with valid assms(1) have "r = Inl (throwEntryError L err)" "w' = ?w2"
        by (simp_all add: managePinGranted_def rateLimitCredentialMutation_def charge_def)
      with two valid(1) show ?thesis by simp
    next
      case (Inr u)
      then obtain s where s: "credentialSnapshot L (m_cardKey c) = Some s"
        using assms(2) by (cases "credentialSnapshot L (m_cardKey c)") (auto simp: card_lib_ok_def)
      from Inr valid assms(1) s
      have "launch L c CredentialsChannel (OpManagePin ?req (Some s)) sender requester ?w2 = (r, w')"
        by (simp add: managePinGranted_def rateLimitCredentialMutation_def charge_def)
      then show ?thesis
        by (cases rule: launch_cases) (use valid(1) Inr s two opts none in auto)
    qed
  qed
qed

definition sample_card_lib :: "nat card_lib" where
  "sample_card_lib =
     \<lparr>identityBit = 1, pkiBit = 2, pinManagementBit = 8, oids = \<lparr>oid_none = 0, oid_valid = (\<lambda>i. i \<noteq> 0)\<rparr>,
      rate_allows = (\<lambda>past sender. length past < 5), launch_answer = (\<lambda>past l. Inr 7),
      readBoundedRegularFd = (\<lambda>fd. (ReadOk, [1, 2])), isValidBatchDocumentCount = (\<lambda>n. 1 \<le> n \<and> n \<le> 12),
      kMinBatchDocuments = 1, kMaxBatchDocuments = 12, sanitizeLabel = (\<lambda>s. s), credentialSnapshot = (\<lambda>k. Some 3),
      validatePinManageRequest = (\<lambda>r s. if s = None then Inl UnknownCredential else Inr ()),
      toSyncError = (\<lambda>e. ''UnknownCredential''), signing = sample_sign_lib, signConfig = sample_config\<rparr>"

definition sample_card :: card_object where
  "sample_card = \<lparr>m_capabilities = 11, m_reader = ''/org/librescrs/Agent/reader/4'', m_readerName = ''ACR'',
     m_cardKey = ''k'', m_preReadAuth = [], m_atrHex = [], m_cardType = [], m_signals = []\<rparr>"

definition no_effects :: "nat effects" where
  "no_effects = \<lparr>ef_charges = [], ef_fd_reads = [], ef_listings = [], ef_launched = []\<rparr>"

lemma sample_card_lib_ok: "card_lib_ok sample_card_lib"
  by (simp add: card_lib_ok_def sample_card_lib_def)

lemma sample_resolve:
  "resolveSignOptions sample_sign_lib sample_config [] b =
     Inr \<lparr>ro_format = ''pades'', ro_level = ''b-b'', ro_packaging = ''enveloped'', ro_allowExpired = False,
          ro_reason = [], ro_location = [], ro_tsaUrl = [], ro_visual = None\<rparr>"
  by (simp add: resolveSignOptions_def resolve_defs optString_def optBool_def optNestedMap_def smap_find_def
      sample_sign_lib_def sample_config_def)

theorem batch_gates_in_order_witness:
  "\<exists>path. fst (signBatchGranted sample_card_lib sample_card [(''a'', 3), (''b'', 4)] ''c1'' [] '':1.9'' ''app'' no_effects) = Inr path \<and>
     ef_fd_reads (snd (signBatchGranted sample_card_lib sample_card [(''a'', 3), (''b'', 4)] ''c1'' [] '':1.9'' ''app'' no_effects)) = [3, 4]"
proof -
  let ?r = "signBatchGranted sample_card_lib sample_card [(''a'', 3), (''b'', 4)] ''c1'' [] '':1.9'' ''app'' no_effects"
  obtain r w' where run: "?r = (r, w')" by force
  have "fst ?r \<noteq> Inl e" for e
    by (simp add: signBatchGranted_def charge_def read_fd_def launch_def sample_card_lib_def no_effects_def
        sample_resolve)
  then obtain path where "r = Inr path" using run by (cases r) auto
  with batch_gates_in_order [OF run sample_card_lib_ok] run show ?thesis by (auto simp: no_effects_def)
qed


theorem manage_pin_as_asked_witness:
  "\<exists>l. ef_launched (snd (managePinGranted sample_card_lib sample_card ''p1'' ''change''
         [(kOptionActivateKey, VBool True)] '':1.9'' ''app'' no_effects)) = [l] \<and> lo_cardKey l = ''k''"
proof -
  let ?r = "managePinGranted sample_card_lib sample_card ''p1'' ''change'' [(kOptionActivateKey, VBool True)]
      '':1.9'' ''app'' no_effects"
  obtain r w' where run: "?r = (r, w')" by force
  have "fst ?r \<noteq> Inl e" for e
    by (simp add: managePinGranted_def rateLimitCredentialMutation_def charge_def launch_def sample_card_lib_def
        no_effects_def smap_keys_def smap_find_def)
  then obtain path where "r = Inr path" using run by (cases r) auto
  with manage_pin_as_asked [OF run sample_card_lib_ok] run show ?thesis
    by (auto simp: no_effects_def sample_card_def)
qed

end
