(* ===== verification/Agent_Frontend.thy ===== *)
theory Agent_Frontend
  imports Bus_Exporter Card_Object
begin

text \<open>
  The inbound frontend (\<^verbatim>\<open>agent/src/AgentFrontend.cpp\<close>, with the reader object of
  \<^verbatim>\<open>agent/src/dbus/ReaderObject.h\<close>): readers are exported at once, cards only after a probe on
  the reader's worker has resolved them. Three threads take part. The monitor thread delivers the
  presence deltas through the exporter; a worker finishes a probe and posts its result; the loop
  thread runs posted tasks and timers, and builds a card object outside its lock, so that a
  withdrawal can fall between the claim and the insertion. The resolution policy is the agent
  library's.
\<close>

subsection \<open>The reader object\<close>

record reader_object =
  ro_name :: string
  ro_hasCard :: bool
  ro_card :: string
  ro_model :: string
  ro_interface :: string
  ro_emitted :: "string list list"

definition updateCardPresence :: "bool \<Rightarrow> string \<Rightarrow> reader_object \<Rightarrow> reader_object" where
  "updateCardPresence hasCard cardPath r =
     (let changed = (if ro_hasCard r \<noteq> hasCard then [''HasCard''] else []) @
                    (if ro_card r \<noteq> cardPath then [''Card''] else []);
          r' = r\<lparr>ro_hasCard := hasCard, ro_card := cardPath\<rparr> in
      if changed = [] then r' else r'\<lparr>ro_emitted := ro_emitted r @ [changed]\<rparr>)"

definition updateLabel :: "string \<Rightarrow> string \<Rightarrow> reader_object \<Rightarrow> reader_object" where
  "updateLabel model interfaceToken r =
     (if ro_model r = model \<and> ro_interface r = interfaceToken then r
      else r\<lparr>ro_model := model, ro_interface := interfaceToken,
             ro_emitted := ro_emitted r @ [[''Model'', ''Interface'']]\<rparr>)"

subsection \<open>The frontend's state\<close>

record card_probe =
  cp_capabilities :: u32
  cp_preReadAuth :: auth_method
  cp_cardType :: string
  cp_opened :: bool

text \<open>A card on its way: its path, its reader's path and name.\<close>

type_synonym job = "string \<times> string \<times> string"

record 'at pending_card =
  pc_readerPath :: string
  pc_readerName :: string
  pc_attempts :: 'at
  pc_atrHex :: string

datatype loop_task = Apply job card_probe | CardTypeUpdate string string

text \<open>
  The policy of the agent library: whether a probe is worth repeating and how much of the
  budget is then used, and whether the reader is to be held.
\<close>

record 'at frontend_lib =
  fl_oids :: oid_lib
  noAttempts :: 'at
  retryAfter :: "card_probe \<Rightarrow> 'at \<Rightarrow> nat option \<times> 'at"
  holdsReader :: "card_probe \<Rightarrow> string list \<times> string list \<Rightarrow> string \<Rightarrow> bool"

record 'at frontend =
  fe_poster :: bool
  fe_readers :: "(string, reader_object) smap"
  fe_pending :: "(string, 'at pending_card) smap"
  fe_cards :: "(string, card_object) smap"
  fe_worker :: "job list"
  fe_loop :: "loop_task list"
  fe_timers :: "job list"
  fe_building :: "(job \<times> card_probe \<times> card_object) option"
  fe_removed :: "u64 list"
  fe_holds :: "u64 list"

definition frontend_init :: "bool \<Rightarrow> 'at frontend" where
  "frontend_init poster =
     \<lparr>fe_poster = poster, fe_readers = [], fe_pending = [], fe_cards = [], fe_worker = [], fe_loop = [],
      fe_timers = [], fe_building = None, fe_removed = [], fe_holds = []\<rparr>"

subsection \<open>Publishing a card\<close>

definition rescheduleCardResolve :: "job \<Rightarrow> 'at frontend \<Rightarrow> 'at frontend" where
  "rescheduleCardResolve j f = (if fe_poster f then f\<lparr>fe_timers := fe_timers f @ [j]\<rparr> else f)"

text \<open>\<open>queued\<close>: whether the reader's worker accepted the probe.\<close>

definition scheduleCardResolve :: "bool \<Rightarrow> job \<Rightarrow> 'at frontend \<Rightarrow> 'at frontend" where
  "scheduleCardResolve queued j f =
     (if \<not> fe_poster f then f
      else if queued then f\<lparr>fe_worker := fe_worker f @ [j]\<rparr>
      else rescheduleCardResolve j f)"

definition timer_fires :: "nat \<Rightarrow> bool \<Rightarrow> 'at frontend \<Rightarrow> 'at frontend" where
  "timer_fires i queued f =
     (let j = fe_timers f ! i; f = f\<lparr>fe_timers := erase_at i (fe_timers f)\<rparr> in
      if smap_find (fe_pending f) (fst j) \<noteq> None then scheduleCardResolve queued j f else f)"

definition worker_done :: "nat \<Rightarrow> card_probe \<Rightarrow> 'at frontend \<Rightarrow> 'at frontend" where
  "worker_done i probe f =
     (let j = fe_worker f ! i in
      f\<lparr>fe_worker := erase_at i (fe_worker f), fe_loop := fe_loop f @ [Apply j probe]\<rparr>)"

definition buildDepsForCard :: "string \<Rightarrow> string \<Rightarrow> string \<Rightarrow> u32 \<Rightarrow> auth_method \<Rightarrow> string \<Rightarrow> string \<Rightarrow> card_object" where
  "buildDepsForCard cardPath readerPath readerName caps preRead cardType atrHex =
     \<lparr>m_capabilities = caps, m_reader = readerPath, m_readerName = readerName, m_cardKey = cardPath,
      m_preReadAuth = authMethodName preRead, m_atrHex = atrHex, m_cardType = cardType, m_signals = []\<rparr>"

text \<open>The locked half of the resolution: drop, retry, or claim and start to build.\<close>

definition applyCardResolution :: "'at frontend_lib \<Rightarrow> job \<Rightarrow> card_probe \<Rightarrow> 'at frontend \<Rightarrow> 'at frontend" where
  "applyCardResolution L j probe f =
     (case smap_find (fe_pending f) (fst j) of
        None \<Rightarrow> f
      | Some pc \<Rightarrow>
          (case retryAfter L probe (pc_attempts pc) of
             (Some delay, attempts) \<Rightarrow>
               rescheduleCardResolve j
                 (f\<lparr>fe_pending := smap_assign (fst j) (pc\<lparr>pc_attempts := attempts\<rparr>) (fe_pending f)\<rparr>)
           | (None, attempts) \<Rightarrow>
               f\<lparr>fe_pending := smap_assign (fst j) (pc\<lparr>pc_attempts := attempts\<rparr>) (fe_pending f),
                 fe_building := Some (j, probe,
                   buildDepsForCard (fst j) (fst (snd j)) (snd (snd j)) (cp_capabilities probe)
                     (cp_preReadAuth probe) (cp_cardType probe) (pc_atrHex pc))\<rparr>))"

text \<open>The object stands: publish it unless it was withdrawn meanwhile, then decide the hold.\<close>

definition finishBuild :: "'at frontend_lib \<Rightarrow> presence \<Rightarrow> 'at frontend \<Rightarrow> 'at frontend" where
  "finishBuild L x f =
     (case fe_building f of
        None \<Rightarrow> f
      | Some (j, probe, obj) \<Rightarrow>
          let f = f\<lparr>fe_building := None\<rparr> in
          if smap_find (fe_pending f) (fst j) = None then f
          else
            let f = f\<lparr>fe_pending := smap_erase (fst j) (fe_pending f), fe_cards := smap_assign (fst j) obj (fe_cards f)\<rparr> in
            if holdsReader L probe (presenceRoster x) (fst j)
            then f\<lparr>fe_holds := fe_holds f @ [objectIdFromPath (fl_oids L) (fst (snd j))]\<rparr> else f)"

definition applyCardTypeUpdate :: "string \<Rightarrow> string \<Rightarrow> 'at frontend \<Rightarrow> 'at frontend" where
  "applyCardTypeUpdate cardPath cardType f =
     (case smap_find (fe_cards f) cardPath of
        None \<Rightarrow> f
      | Some obj \<Rightarrow> f\<lparr>fe_cards := smap_assign cardPath (updateCardType cardType obj) (fe_cards f)\<rparr>)"

text \<open>The callback a read runs on its worker when it learned the card's type.\<close>

definition makeCardTypeResolvedCallback :: "string \<Rightarrow> string \<Rightarrow> 'at frontend \<Rightarrow> 'at frontend" where
  "makeCardTypeResolvedCallback cardPath cardType f =
     (if fe_poster f then f\<lparr>fe_loop := fe_loop f @ [CardTypeUpdate cardPath cardType]\<rparr> else f)"

definition run_task :: "'at frontend_lib \<Rightarrow> loop_task \<Rightarrow> 'at frontend \<Rightarrow> 'at frontend" where
  "run_task L t f =
     (case t of Apply j probe \<Rightarrow> applyCardResolution L j probe f | CardTypeUpdate p ct \<Rightarrow> applyCardTypeUpdate p ct f)"

subsection \<open>The materializer\<close>

definition materializeReader :: "'at frontend_lib \<Rightarrow> reader_st \<Rightarrow> 'at frontend \<Rightarrow> 'at frontend" where
  "materializeReader L reader f =
     f\<lparr>fe_readers := smap_emplace (agentObjectPath ''reader'' (rst_id reader))
          \<lparr>ro_name = rst_name reader, ro_hasCard = rst_hasCard reader,
           ro_card = card_path_or_root (fl_oids L) (rst_card reader), ro_model = rst_model reader,
           ro_interface = rst_iface reader, ro_emitted = []\<rparr> (fe_readers f)\<rparr>"

definition materializeCard :: "'at frontend_lib \<Rightarrow> bool \<Rightarrow> card_st \<Rightarrow> 'at frontend \<Rightarrow> 'at frontend" where
  "materializeCard L queued c f =
     (let cardPath = agentObjectPath ''card'' (cst_id c);
          readerPath = agentObjectPath ''reader'' (cst_reader c);
          readerName = (case smap_find (fe_readers f) readerPath of Some r \<Rightarrow> ro_name r | None \<Rightarrow> []) in
      if \<not> fe_poster f
      then f\<lparr>fe_cards := smap_assign cardPath
               (buildDepsForCard cardPath readerPath readerName (cst_capabilities c) (cst_preReadAuth c)
                  (cst_cardType c) (cst_atrHex c)) (fe_cards f)\<rparr>
      else
        scheduleCardResolve queued (cardPath, readerPath, readerName)
          (f\<lparr>fe_pending := smap_assign cardPath
               \<lparr>pc_readerPath = readerPath, pc_readerName = readerName, pc_attempts = noAttempts L,
                pc_atrHex = cst_atrHex c\<rparr> (fe_pending f)\<rparr>))"

definition updateReaderProperties :: "'at frontend_lib \<Rightarrow> u64 \<Rightarrow> property_delta \<Rightarrow> 'at frontend \<Rightarrow> 'at frontend" where
  "updateReaderProperties L reader delta f =
     (let path = agentObjectPath ''reader'' reader in
      case smap_find (fe_readers f) path of
        None \<Rightarrow> f
      | Some r \<Rightarrow>
          f\<lparr>fe_readers := smap_assign path
               (updateCardPresence (dl_hasCard delta) (card_path_or_root (fl_oids L) (dl_card delta)) r) (fe_readers f)\<rparr>)"

definition relabelReader :: "reader_st \<Rightarrow> 'at frontend \<Rightarrow> 'at frontend" where
  "relabelReader reader f =
     (let path = agentObjectPath ''reader'' (rst_id reader) in
      case smap_find (fe_readers f) path of
        None \<Rightarrow> f
      | Some r \<Rightarrow> f\<lparr>fe_readers := smap_assign path (updateLabel (rst_model reader) (rst_iface reader) r) (fe_readers f)\<rparr>)"

definition withdrawObject :: "u64 \<Rightarrow> 'at frontend \<Rightarrow> 'at frontend" where
  "withdrawObject i f =
     (let readerPath = agentObjectPath ''reader'' i; cardPath = agentObjectPath ''card'' i in
      if smap_find (fe_readers f) readerPath \<noteq> None
      then f\<lparr>fe_readers := smap_erase readerPath (fe_readers f), fe_removed := fe_removed f @ [i]\<rparr>
      else f\<lparr>fe_pending := smap_erase cardPath (fe_pending f), fe_cards := smap_erase cardPath (fe_cards f)\<rparr>)"

definition frontend_materializer :: "'at frontend_lib \<Rightarrow> bool \<Rightarrow> 'at frontend materializer" where
  "frontend_materializer L queued =
     \<lparr>onReader = Some (materializeReader L), onCard = Some (materializeCard L queued),
      onWithdraw = Some withdrawObject, onUpdate = Some (updateReaderProperties L), onRelabel = Some relabelReader\<rparr>"

subsection \<open>The system of exporter and frontend\<close>

text \<open>
  The whole state, with what the registry behind the exporter has issued: every id is new when it
  is published (one counter for the process), and a card is published into a live reader.
\<close>

record 'at system =
  sy_presence :: presence
  sy_frontend :: "'at frontend"
  sy_issued :: "u64 set"
  sy_readers :: "u64 set"
  sy_cards :: "u64 set"

definition system_init :: "bool \<Rightarrow> 'at system" where
  "system_init poster =
     \<lparr>sy_presence = [], sy_frontend = frontend_init poster, sy_issued = {}, sy_readers = {}, sy_cards = {}\<rparr>"

definition deliver_delta :: "(presence \<times> 'at frontend \<Rightarrow> presence \<times> 'at frontend) \<Rightarrow> 'at system \<Rightarrow> 'at system" where
  "deliver_delta op s =
     (let xf = op (sy_presence s, sy_frontend s) in s\<lparr>sy_presence := fst xf, sy_frontend := snd xf\<rparr>)"

definition on_frontend :: "('at frontend \<Rightarrow> 'at frontend) \<Rightarrow> 'at system \<Rightarrow> 'at system" where
  "on_frontend op s = s\<lparr>sy_frontend := op (sy_frontend s)\<rparr>"

inductive sys_step :: "'at frontend_lib \<Rightarrow> 'at system \<Rightarrow> 'at system \<Rightarrow> bool" for L where
  publish_reader:
    "rst_id r \<notin> sy_issued s \<Longrightarrow>
       sys_step L s ((deliver_delta (publishReader (fl_oids L) (frontend_materializer L q) r) s)
         \<lparr>sy_issued := insert (rst_id r) (sy_issued s), sy_readers := insert (rst_id r) (sy_readers s)\<rparr>)"
| publish_card:
    "cst_id c \<notin> sy_issued s \<Longrightarrow> cst_reader c \<in> sy_readers s \<Longrightarrow>
       sys_step L s ((deliver_delta (publishCard (frontend_materializer L q) c) s)
         \<lparr>sy_issued := insert (cst_id c) (sy_issued s), sy_cards := insert (cst_id c) (sy_cards s)\<rparr>)"
| update:
    "sys_step L s (deliver_delta (updateProperties (fl_oids L) (frontend_materializer L q) i d) s)"
| relabelled:
    "sys_step L s (deliver_delta (relabel (frontend_materializer L q) r) s)"
| withdrawn:
    "sys_step L s ((deliver_delta (withdraw (frontend_materializer L q) i) s)
       \<lparr>sy_readers := sy_readers s - {i}, sy_cards := sy_cards s - {i}\<rparr>)"
| probed:
    "i < length (fe_worker (sy_frontend s)) \<Longrightarrow> sys_step L s (on_frontend (worker_done i probe) s)"
| probe_lost:
    "i < length (fe_worker (sy_frontend s)) \<Longrightarrow>
       smap_find (fe_readers (sy_frontend s)) (fst (snd (fe_worker (sy_frontend s) ! i))) = None \<Longrightarrow>
       sys_step L s (on_frontend (\<lambda>f. f\<lparr>fe_worker := erase_at i (fe_worker f)\<rparr>) s)"
| type_learned:
    "sys_step L s (on_frontend (makeCardTypeResolvedCallback p ct) s)"
| timer:
    "i < length (fe_timers (sy_frontend s)) \<Longrightarrow> fe_building (sy_frontend s) = None \<Longrightarrow>
       sys_step L s (on_frontend (timer_fires i q) s)"
| loop:
    "i < length (fe_loop (sy_frontend s)) \<Longrightarrow> fe_building (sy_frontend s) = None \<Longrightarrow>
       sys_step L s (on_frontend (\<lambda>f. run_task L (fe_loop f ! i) (f\<lparr>fe_loop := erase_at i (fe_loop f)\<rparr>)) s)"
| built:
    "sys_step L s (on_frontend (finishBuild L (sy_presence s)) s)"

inductive sys_reach :: "'at frontend_lib \<Rightarrow> bool \<Rightarrow> 'at system \<Rightarrow> bool" for L poster where
  start: "sys_reach L poster (system_init poster)"
| step: "sys_reach L poster s \<Longrightarrow> sys_step L s s' \<Longrightarrow> sys_reach L poster s'"

subsection \<open>What each operation leaves of the tree\<close>

definition entry_of :: "reader_object \<Rightarrow> presence_entry" where
  "entry_of r = \<lparr>pe_name = ro_name r, pe_hasCard = ro_hasCard r, pe_cardPath = ro_card r\<rparr>"

definition agree :: "presence \<Rightarrow> 'at frontend \<Rightarrow> bool" where
  "agree x f \<longleftrightarrow> (\<forall>path. smap_find x path = map_option entry_of (smap_find (fe_readers f) path))"

definition maps_ok :: "'at frontend \<Rightarrow> bool" where
  "maps_ok f \<longleftrightarrow> smap_ok (fe_readers f) \<and> smap_ok (fe_pending f) \<and> smap_ok (fe_cards f)"

definition reader_paths :: "'at frontend \<Rightarrow> string set" where
  "reader_paths f = dom (smap_find (fe_readers f))"

definition pending_paths :: "'at frontend \<Rightarrow> string set" where
  "pending_paths f = dom (smap_find (fe_pending f))"

definition exported_paths :: "'at frontend \<Rightarrow> string set" where
  "exported_paths f = dom (smap_find (fe_cards f))"

text \<open>An operation that leaves the readers and both card maps' domains alone.\<close>

definition same_tree :: "'at frontend \<Rightarrow> 'at frontend \<Rightarrow> bool" where
  "same_tree f f' \<longleftrightarrow> fe_readers f' = fe_readers f \<and> pending_paths f' = pending_paths f \<and>
     exported_paths f' = exported_paths f \<and> fe_poster f' = fe_poster f \<and> (maps_ok f \<longrightarrow> maps_ok f')"

named_theorems tree_simps \<open>what an operation does to the exported tree\<close>

lemma same_tree_plain:
  "fe_readers f' = fe_readers f \<Longrightarrow> fe_pending f' = fe_pending f \<Longrightarrow> fe_cards f' = fe_cards f \<Longrightarrow>
     fe_poster f' = fe_poster f \<Longrightarrow> same_tree f f'"
  by (simp add: same_tree_def maps_ok_def pending_paths_def exported_paths_def)

lemma same_tree_trans: "same_tree f g \<Longrightarrow> same_tree g h \<Longrightarrow> same_tree f h"
  by (simp add: same_tree_def)

lemma same_tree_schedule: "same_tree f (scheduleCardResolve q j f)" "same_tree f (rescheduleCardResolve j f)"
  by (auto intro!: same_tree_plain simp: scheduleCardResolve_def rescheduleCardResolve_def)

lemma same_tree_timer: "same_tree f (timer_fires i q f)"
  by (auto intro!: same_tree_plain simp: timer_fires_def Let_def scheduleCardResolve_def rescheduleCardResolve_def)

lemma same_tree_simple:
  "same_tree f (worker_done i probe f)" "same_tree f (f\<lparr>fe_worker := ws\<rparr>)" "same_tree f (f\<lparr>fe_loop := ts\<rparr>)"
  "same_tree f (makeCardTypeResolvedCallback p ct f)"
  by (auto intro!: same_tree_plain simp: worker_done_def Let_def makeCardTypeResolvedCallback_def)

lemma same_tree_repend:
  "smap_find (fe_pending f) p = Some pc \<Longrightarrow> maps_ok f \<Longrightarrow>
     same_tree f (f\<lparr>fe_pending := smap_assign p pc' (fe_pending f), fe_building := b\<rparr>)"
  by (auto simp: same_tree_def pending_paths_def exported_paths_def maps_ok_def smap.dom_assign smap.ok_assign)

lemma same_tree_apply:
  assumes "maps_ok f"
  shows "same_tree f (applyCardResolution L j probe f)"
proof (cases "smap_find (fe_pending f) (fst j)")
  case None
  then show ?thesis by (auto intro: same_tree_plain simp: applyCardResolution_def)
next
  case (Some pc)
  obtain d a where r: "retryAfter L probe (pc_attempts pc) = (d, a)" by force
  have "same_tree f (f\<lparr>fe_pending := smap_assign (fst j) (pc\<lparr>pc_attempts := a\<rparr>) (fe_pending f)\<rparr>)"
    using same_tree_repend [OF Some assms, where pc' = "pc\<lparr>pc_attempts := a\<rparr>" and b = "fe_building f"] by simp
  then show ?thesis
    using Some r same_tree_repend [OF Some assms] same_tree_trans [OF _ same_tree_schedule(2)]
    by (cases d) (simp_all add: applyCardResolution_def)
qed

lemma same_tree_type: "maps_ok f \<Longrightarrow> same_tree f (applyCardTypeUpdate p ct f)"
  by (auto simp: applyCardTypeUpdate_def same_tree_def pending_paths_def exported_paths_def maps_ok_def
      smap.dom_assign smap.ok_assign split: option.splits)

lemma same_tree_task: "maps_ok f \<Longrightarrow> same_tree f (run_task L t f)"
  by (cases t) (simp_all add: run_task_def same_tree_apply same_tree_type)

lemma finishBuild_tree:
  assumes "maps_ok f"
  shows "fe_readers (finishBuild L x f) = fe_readers f \<and> maps_ok (finishBuild L x f) \<and>
    pending_paths (finishBuild L x f) \<union> exported_paths (finishBuild L x f) = pending_paths f \<union> exported_paths f \<and>
    (pending_paths f \<inter> exported_paths f = {} \<longrightarrow>
       pending_paths (finishBuild L x f) \<inter> exported_paths (finishBuild L x f) = {}) \<and>
    fe_poster (finishBuild L x f) = fe_poster f"
proof (cases "fe_building f")
  case None
  then show ?thesis using assms by (simp add: finishBuild_def)
next
  case (Some b)
  obtain j probe obj where b: "b = (j, probe, obj)" by (cases b)
  let ?f = "f\<lparr>fe_building := None, fe_pending := smap_erase (fst j) (fe_pending f),
      fe_cards := smap_assign (fst j) obj (fe_cards f)\<rparr>"
  show ?thesis
  proof (cases "smap_find (fe_pending f) (fst j)")
    case None
    then show ?thesis using assms Some b
      by (simp add: finishBuild_def maps_ok_def pending_paths_def exported_paths_def)
  next
    case pc: (Some pc)
    have "fe_readers (finishBuild L x f) = fe_readers f" "fe_pending (finishBuild L x f) = smap_erase (fst j) (fe_pending f)"
      "fe_cards (finishBuild L x f) = smap_assign (fst j) obj (fe_cards f)" "fe_poster (finishBuild L x f) = fe_poster f"
      using Some b pc by (simp_all add: finishBuild_def Let_def)
    then show ?thesis using assms pc
      by (auto simp: maps_ok_def pending_paths_def exported_paths_def smap.dom_assign smap.dom_erase
          smap.ok_assign smap.ok_erase)
  qed
qed

subsection \<open>The tree invariant\<close>

definition tree_inv :: "bool \<Rightarrow> 'at system \<Rightarrow> bool" where
  "tree_inv poster s \<longleftrightarrow>
     maps_ok (sy_frontend s) \<and> smap_ok (sy_presence s) \<and> fe_poster (sy_frontend s) = poster \<and>
     agree (sy_presence s) (sy_frontend s) \<and>
     reader_paths (sy_frontend s) = agentObjectPath ''reader'' ` sy_readers s \<and>
     pending_paths (sy_frontend s) \<union> exported_paths (sy_frontend s) = agentObjectPath ''card'' ` sy_cards s \<and>
     pending_paths (sy_frontend s) \<inter> exported_paths (sy_frontend s) = {} \<and>
     sy_readers s \<union> sy_cards s \<subseteq> sy_issued s \<and> sy_readers s \<inter> sy_cards s = {}"

lemmas tree_defs = tree_inv_def maps_ok_def agree_def reader_paths_def pending_paths_def exported_paths_def

lemma tree_inv_on_frontend:
  assumes "tree_inv poster s" and "same_tree (sy_frontend s) (op (sy_frontend s))"
  shows "tree_inv poster (on_frontend op s)"
  using assms by (simp add: tree_inv_def same_tree_def on_frontend_def agree_def reader_paths_def)

lemma path_image [simp]:
  "agentObjectPath k i \<in> agentObjectPath k ` A \<longleftrightarrow> i \<in> A"
  by (auto simp: agentObjectPath_inj_id)

lemma path_image_diff: "agentObjectPath k ` (A - {i}) = agentObjectPath k ` A - {agentObjectPath k i}"
  by (auto simp: agentObjectPath_inj_id)

lemma reader_found:
  assumes "tree_inv poster s"
  shows "smap_find (fe_readers (sy_frontend s)) (agentObjectPath ''reader'' i) = None \<longleftrightarrow> i \<notin> sy_readers s"
proof -
  have "agentObjectPath ''reader'' i \<in> reader_paths (sy_frontend s) \<longleftrightarrow> i \<in> sy_readers s"
    using assms by (simp add: tree_inv_def)
  then show ?thesis by (auto simp: reader_paths_def)
qed

lemma agree_dom: "agree x f \<Longrightarrow> (smap_find x p = None) = (smap_find (fe_readers f) p = None)"
  by (simp add: agree_def)

lemma tree_inv_publish_reader:
  assumes inv: "tree_inv poster s" and fresh: "rst_id r \<notin> sy_issued s"
  shows "tree_inv poster ((deliver_delta (publishReader (fl_oids L) (frontend_materializer L q) r) s)
         \<lparr>sy_issued := insert (rst_id r) (sy_issued s), sy_readers := insert (rst_id r) (sy_readers s)\<rparr>)"
proof -
  let ?p = "agentObjectPath ''reader'' (rst_id r)" and ?f = "sy_frontend s"
  have ok: "smap_ok (fe_readers ?f)" "smap_ok (sy_presence s)" using inv by (simp_all add: tree_defs)
  have "rst_id r \<notin> sy_readers s" using inv fresh by (auto simp: tree_inv_def)
  then have new: "smap_find (fe_readers ?f) ?p = None" using reader_found [OF inv] by blast
  let ?x = "fst (publishReader (fl_oids L) (frontend_materializer L q) r (sy_presence s, ?f))"
  let ?g = "snd (publishReader (fl_oids L) (frontend_materializer L q) r (sy_presence s, ?f))"
  have g: "fe_pending ?g = fe_pending ?f" "fe_cards ?g = fe_cards ?f" "fe_poster ?g = fe_poster ?f"
    "smap_ok (fe_readers ?g)" "smap_ok ?x"
    using ok by (simp_all add: publishReader_def frontend_materializer_def materializeReader_def fire_def
        smap.ok_emplace smap.ok_assign)
  have dom: "reader_paths ?g = insert ?p (reader_paths ?f)"
    using ok new by (auto simp: reader_paths_def publishReader_def frontend_materializer_def materializeReader_def
        fire_def smap.lookup_emplace split: if_splits)
  have "agree ?x ?g"
    using inv ok new
    by (auto simp: tree_inv_def agree_def publishReader_def frontend_materializer_def materializeReader_def
        fire_def smap.lookup_emplace smap.lookup_assign entry_of_def)
  with g dom inv fresh show ?thesis
    by (auto simp: tree_inv_def deliver_delta_def Let_def maps_ok_def pending_paths_def exported_paths_def)
qed

lemma tree_inv_publish_card:
  assumes inv: "tree_inv poster s" and fresh: "cst_id c \<notin> sy_issued s"
  shows "tree_inv poster ((deliver_delta (publishCard (frontend_materializer L q) c) s)
         \<lparr>sy_issued := insert (cst_id c) (sy_issued s), sy_cards := insert (cst_id c) (sy_cards s)\<rparr>)"
proof -
  let ?p = "agentObjectPath ''card'' (cst_id c)" and ?f = "sy_frontend s"
  let ?g = "materializeCard L q c ?f"
  have ok: "smap_ok (fe_pending ?f)" "smap_ok (fe_cards ?f)" "smap_ok (fe_readers ?f)"
    using inv by (simp_all add: tree_defs)
  have new: "?p \<notin> pending_paths ?f \<union> exported_paths ?f" using inv fresh by (auto simp: tree_inv_def)
  have g: "fe_readers ?g = fe_readers ?f" "fe_poster ?g = fe_poster ?f" "maps_ok ?g"
    "pending_paths ?g \<union> exported_paths ?g = insert ?p (pending_paths ?f \<union> exported_paths ?f)"
    "pending_paths ?f \<inter> exported_paths ?f = {} \<Longrightarrow> pending_paths ?g \<inter> exported_paths ?g = {}"
    using ok new
    by (auto simp: materializeCard_def Let_def scheduleCardResolve_def rescheduleCardResolve_def maps_ok_def
        pending_paths_def exported_paths_def smap.dom_assign smap.ok_assign)
  have "deliver_delta (publishCard (frontend_materializer L q) c) s = s\<lparr>sy_presence := sy_presence s, sy_frontend := ?g\<rparr>"
    by (simp add: deliver_delta_def publishCard_def frontend_materializer_def fire_def)
  with g inv fresh show ?thesis by (auto simp: tree_inv_def agree_def reader_paths_def)
qed

lemma tree_inv_update:
  assumes inv: "tree_inv poster s"
  shows "tree_inv poster (deliver_delta (updateProperties (fl_oids L) (frontend_materializer L q) i d) s)"
proof -
  let ?p = "agentObjectPath ''reader'' i" and ?f = "sy_frontend s"
  have ok: "smap_ok (fe_readers ?f)" "smap_ok (sy_presence s)" "agree (sy_presence s) ?f"
    using inv by (simp_all add: tree_defs)
  show ?thesis
  proof (cases "smap_find (fe_readers ?f) ?p")
    case None
    then have "smap_find (sy_presence s) ?p = None" using ok by (simp add: agree_def)
    with None inv show ?thesis
      by (simp add: deliver_delta_def updateProperties_def frontend_materializer_def fire_def
          updateReaderProperties_def Let_def tree_inv_def)
  next
    case (Some r)
    then have e: "smap_find (sy_presence s) ?p = Some (entry_of r)" using ok by (simp add: agree_def)
    let ?r = "updateCardPresence (dl_hasCard d) (card_path_or_root (fl_oids L) (dl_card d)) r"
    have "entry_of ?r = (entry_of r)\<lparr>pe_hasCard := dl_hasCard d, pe_cardPath := card_path_or_root (fl_oids L) (dl_card d)\<rparr>"
      by (simp add: entry_of_def updateCardPresence_def Let_def)
    with Some e inv ok show ?thesis
      by (auto simp: deliver_delta_def updateProperties_def frontend_materializer_def fire_def
          updateReaderProperties_def Let_def tree_inv_def agree_def maps_ok_def reader_paths_def pending_paths_def
          exported_paths_def smap.ok_assign smap.lookup_assign smap.dom_assign insert_absorb domIff)
  qed
qed

lemma tree_inv_relabel:
  assumes inv: "tree_inv poster s"
  shows "tree_inv poster (deliver_delta (relabel (frontend_materializer L q) r) s)"
proof -
  let ?p = "agentObjectPath ''reader'' (rst_id r)" and ?f = "sy_frontend s"
  have ok: "smap_ok (fe_readers ?f)" using inv by (simp add: tree_defs)
  have e: "entry_of (updateLabel m i x) = entry_of x" for m i x by (simp add: entry_of_def updateLabel_def)
  show ?thesis
  proof (cases "smap_find (fe_readers ?f) ?p")
    case None
    with inv show ?thesis
      by (simp add: deliver_delta_def relabel_def frontend_materializer_def fire_def relabelReader_def Let_def
          tree_inv_def)
  next
    case (Some x)
    with ok inv show ?thesis
      by (auto simp: deliver_delta_def relabel_def frontend_materializer_def fire_def relabelReader_def Let_def
          tree_inv_def agree_def maps_ok_def reader_paths_def pending_paths_def exported_paths_def e
          smap.ok_assign smap.lookup_assign smap.dom_assign insert_absorb domIff)
  qed
qed

lemma tree_inv_withdraw:
  assumes inv: "tree_inv poster s"
  shows "tree_inv poster ((deliver_delta (withdraw (frontend_materializer L q) i) s)
       \<lparr>sy_readers := sy_readers s - {i}, sy_cards := sy_cards s - {i}\<rparr>)"
proof -
  let ?p = "agentObjectPath ''reader'' i" and ?c = "agentObjectPath ''card'' i" and ?f = "sy_frontend s"
  have d: "deliver_delta (withdraw (frontend_materializer L q) i) s =
      s\<lparr>sy_presence := smap_erase ?p (sy_presence s), sy_frontend := withdrawObject i ?f\<rparr>"
    by (simp add: deliver_delta_def withdraw_def frontend_materializer_def fire_def)
  have okx: "smap_ok (smap_erase ?p (sy_presence s))" using inv by (simp add: tree_inv_def smap.ok_erase)
  show ?thesis
  proof (cases "i \<in> sy_readers s")
    case True
    then have "smap_find (fe_readers ?f) ?p \<noteq> None" using reader_found [OF inv] by simp
    then have f: "withdrawObject i ?f = ?f\<lparr>fe_readers := smap_erase ?p (fe_readers ?f), fe_removed := fe_removed ?f @ [i]\<rparr>"
      by (simp add: withdrawObject_def Let_def)
    have "i \<notin> sy_cards s" using inv True by (auto simp: tree_inv_def)
    then show ?thesis unfolding d f using inv okx
      by (auto simp: tree_inv_def agree_def maps_ok_def pending_paths_def exported_paths_def reader_paths_def
          smap.ok_erase smap.dom_erase smap_find_erase path_image_diff)
  next
    case False
    then have none: "smap_find (fe_readers ?f) ?p = None" using reader_found [OF inv] by simp
    then have f: "withdrawObject i ?f = ?f\<lparr>fe_pending := smap_erase ?c (fe_pending ?f), fe_cards := smap_erase ?c (fe_cards ?f)\<rparr>"
      by (simp add: withdrawObject_def Let_def)
    have ag: "agree (smap_erase ?p (sy_presence s)) (?f\<lparr>fe_pending := a, fe_cards := b\<rparr>)" for a b
      using inv none by (auto simp: tree_inv_def agree_def smap_find_erase)
    have ok: "smap_ok (fe_pending ?f)" "smap_ok (fe_cards ?f)" using inv by (simp_all add: tree_defs)
    have "pending_paths (withdrawObject i ?f) = pending_paths ?f - {?c}"
      "exported_paths (withdrawObject i ?f) = exported_paths ?f - {?c}"
      unfolding f using ok by (simp_all add: pending_paths_def exported_paths_def smap.dom_erase)
    moreover have "maps_ok (withdrawObject i ?f)" unfolding f using inv by (simp add: tree_defs smap.ok_erase)
    moreover have "reader_paths (withdrawObject i ?f) = reader_paths ?f" "fe_poster (withdrawObject i ?f) = fe_poster ?f"
      unfolding f by (simp_all add: reader_paths_def)
    moreover have "agree (smap_erase ?p (sy_presence s)) (withdrawObject i ?f)" unfolding f by (rule ag)
    ultimately show ?thesis unfolding d using inv okx False
      by (auto simp: tree_inv_def path_image_diff Diff_insert0)
  qed
qed

lemma tree_inv_built:
  assumes "tree_inv poster s"
  shows "tree_inv poster (on_frontend (finishBuild L x) s)"
proof -
  have "maps_ok (sy_frontend s)" using assms by (simp add: tree_inv_def)
  from finishBuild_tree [OF this, of L x] assms show ?thesis
    by (simp add: tree_inv_def on_frontend_def agree_def reader_paths_def)
qed

lemma tree_inv_step: "sys_step L s s' \<Longrightarrow> tree_inv poster s \<Longrightarrow> tree_inv poster s'"
proof (induction rule: sys_step.induct)
  case (loop i s)
  then have "maps_ok ((sy_frontend s)\<lparr>fe_loop := erase_at i (fe_loop (sy_frontend s))\<rparr>)"
    by (simp add: tree_inv_def maps_ok_def)
  from same_tree_trans [OF same_tree_simple(3) same_tree_task [OF this]] loop(3)
  show ?case by (rule tree_inv_on_frontend [rotated])
next
  case (timer i s q)
  from timer(3) same_tree_timer show ?case by (rule tree_inv_on_frontend)
next
  case (probed i s probe)
  from probed(2) same_tree_simple(1) show ?case by (rule tree_inv_on_frontend)
next
  case (probe_lost i s)
  from probe_lost(3) same_tree_simple(2) show ?case by (rule tree_inv_on_frontend)
next
  case (type_learned s p ct)
  from type_learned same_tree_simple(4) show ?case by (rule tree_inv_on_frontend)
qed (auto intro: tree_inv_publish_reader tree_inv_publish_card tree_inv_update tree_inv_relabel tree_inv_withdraw
      tree_inv_built)

lemma smap_find_Nil: "smap_find [] = Map.empty"
  by (simp add: smap_find_def fun_eq_iff)

lemma tree_inv_reach: "sys_reach L poster s \<Longrightarrow> tree_inv poster s"
proof (induction rule: sys_reach.induct)
  case start
  show ?case by (simp add: tree_defs system_init_def frontend_init_def smap_find_Nil)
next
  case (step s s')
  then show ?case by (blast intro: tree_inv_step)
qed

subsection \<open>The continuation of a pending card\<close>

text \<open>
  The paths of the cards a probe, a posted result, a timer or the loop thread's own construction
  is under way for.
\<close>

primrec task_path :: "loop_task \<Rightarrow> string list" where
  "task_path (Apply j probe) = [fst j]"
| "task_path (CardTypeUpdate p ct) = []"

definition in_flight :: "'at frontend \<Rightarrow> string multiset" where
  "in_flight f =
     mset (map fst (fe_worker f)) + mset (concat (map task_path (fe_loop f))) + mset (map fst (fe_timers f)) +
     (case fe_building f of None \<Rightarrow> {#} | Some b \<Rightarrow> {#fst (fst b)#})"

definition job_ok :: "'at frontend \<Rightarrow> job \<Rightarrow> bool" where
  "job_ok f j \<longleftrightarrow> (\<forall>pc. smap_find (fe_pending f) (fst j) = Some pc \<longrightarrow> pc_readerPath pc = fst (snd j))"

definition jobs :: "'at frontend \<Rightarrow> job set" where
  "jobs f = set (fe_worker f) \<union> set (fe_timers f) \<union> {j. \<exists>probe. Apply j probe \<in> set (fe_loop f)}"

definition covered :: "'at frontend \<Rightarrow> bool" where
  "covered f \<longleftrightarrow>
     (\<forall>p pc. smap_find (fe_pending f) p = Some pc \<longrightarrow>
        p \<in># in_flight f \<or> smap_find (fe_readers f) (pc_readerPath pc) = None)"

definition flight_inv :: "u64 set \<Rightarrow> 'at frontend \<Rightarrow> bool" where
  "flight_inv ids f \<longleftrightarrow>
     (\<forall>p. count (in_flight f) p \<le> 1) \<and> set_mset (in_flight f) \<subseteq> agentObjectPath ''card'' ` ids \<and> covered f \<and>
     (\<not> fe_poster f \<longrightarrow> in_flight f = {#} \<and> fe_pending f = []) \<and>
     (\<forall>p pc. smap_find (fe_pending f) p = Some pc \<longrightarrow> pc_readerPath pc \<in> agentObjectPath ''reader'' ` ids) \<and>
     (\<forall>j \<in> jobs f. job_ok f j)"

lemma in_flight_worker:
  assumes "i < length (fe_worker f)"
  shows "in_flight f = add_mset (fst (fe_worker f ! i)) (in_flight (f\<lparr>fe_worker := erase_at i (fe_worker f)\<rparr>))"
  using mset_map_erase_at [OF assms, of fst] by (simp add: in_flight_def)

lemma in_flight_timer:
  assumes "i < length (fe_timers f)"
  shows "in_flight f = add_mset (fst (fe_timers f ! i)) (in_flight (f\<lparr>fe_timers := erase_at i (fe_timers f)\<rparr>))"
  using mset_map_erase_at [OF assms, of fst] by (simp add: in_flight_def)

lemma mset_concat_erase_at:
  assumes "i < length xs"
  shows "mset (concat (map f xs)) = mset (f (xs ! i)) + mset (concat (map f (erase_at i xs)))"
  by (subst id_take_nth_drop [OF assms]) (simp add: erase_at_def)

lemma in_flight_loop:
  assumes "i < length (fe_loop f)"
  shows "in_flight f = mset (task_path (fe_loop f ! i)) + in_flight (f\<lparr>fe_loop := erase_at i (fe_loop f)\<rparr>)"
  using mset_concat_erase_at [OF assms, of task_path] by (simp add: in_flight_def)

lemma in_flight_schedule:
  "in_flight (scheduleCardResolve q j f) = (if fe_poster f then add_mset (fst j) (in_flight f) else in_flight f)"
  "in_flight (rescheduleCardResolve j f) = (if fe_poster f then add_mset (fst j) (in_flight f) else in_flight f)"
  by (simp_all add: scheduleCardResolve_def rescheduleCardResolve_def in_flight_def)

lemma in_flight_frame [simp]:
  "in_flight (f\<lparr>fe_pending := a\<rparr>) = in_flight f" "in_flight (f\<lparr>fe_cards := b\<rparr>) = in_flight f"
  "in_flight (f\<lparr>fe_readers := r\<rparr>) = in_flight f" "in_flight (f\<lparr>fe_removed := l\<rparr>) = in_flight f"
  "in_flight (f\<lparr>fe_holds := l\<rparr>) = in_flight f"
  by (simp_all add: in_flight_def)

lemma jobs_in_flight: "j \<in> jobs f \<Longrightarrow> fst j \<in># in_flight f"
  by (force simp: jobs_def in_flight_def)

text \<open>
  An operation that starts nothing new, keeps the pending entries' readers and leaves every
  pending card covered keeps the invariant.
\<close>

lemma flight_inv_shrink:
  assumes "flight_inv ids f" and "in_flight f' \<subseteq># in_flight f" and "fe_poster f' = fe_poster f"
    and "\<And>p pc'. smap_find (fe_pending f') p = Some pc' \<Longrightarrow>
           \<exists>pc. smap_find (fe_pending f) p = Some pc \<and> pc_readerPath pc' = pc_readerPath pc"
    and "jobs f' \<subseteq> jobs f" and "covered f'" and "ids \<subseteq> ids'"
  shows "flight_inv ids' f'"
proof -
  have cnt: "count (in_flight f') p \<le> 1" for p
    using assms(1) mset_subset_eq_count [OF assms(2), of p] le_trans unfolding flight_inv_def by blast
  have sub: "set_mset (in_flight f') \<subseteq> agentObjectPath ''card'' ` ids'"
    using assms(1) set_mset_mono [OF assms(2)] assms(7) unfolding flight_inv_def by blast
  have none: "fe_pending f' = []" if "fe_pending f = []"
  proof (cases "fe_pending f'")
    case (Cons kv m)
    then have "smap_find (fe_pending f') (fst kv) = Some (snd kv)" by (cases kv) (simp add: smap_find_def)
    from assms(4) [OF this] that show ?thesis by (simp add: smap_find_def)
  qed simp
  have off: "\<not> fe_poster f' \<longrightarrow> in_flight f' = {#} \<and> fe_pending f' = []"
    using assms(1,2,3) none unfolding flight_inv_def by auto
  have rd: "pc_readerPath pc' \<in> agentObjectPath ''reader'' ` ids'" if e: "smap_find (fe_pending f') p = Some pc'" for p pc'
  proof -
    obtain pc where "smap_find (fe_pending f) p = Some pc" "pc_readerPath pc' = pc_readerPath pc"
      using assms(4) [OF e] by auto
    with assms(1) have "pc_readerPath pc' \<in> agentObjectPath ''reader'' ` ids" by (auto simp: flight_inv_def)
    with assms(7) show ?thesis by auto
  qed
  have jk: "job_ok f' j" if "j \<in> jobs f'" for j
  proof -
    from that assms(1,5) have ok: "job_ok f j" by (auto simp: flight_inv_def)
    show ?thesis
      unfolding job_ok_def
    proof (intro allI impI)
      fix pc' assume "smap_find (fe_pending f') (fst j) = Some pc'"
      from assms(4) [OF this] ok show "pc_readerPath pc' = fst (snd j)" by (auto simp: job_ok_def)
    qed
  qed
  show ?thesis unfolding flight_inv_def using cnt sub assms(6) off rd jk by auto
qed

lemma coveredD:
  "covered f \<Longrightarrow> smap_find (fe_pending f) p = Some pc \<Longrightarrow>
     p \<in># in_flight f \<or> smap_find (fe_readers f) (pc_readerPath pc) = None"
  by (simp add: covered_def)

lemma covered_frame:
  assumes "covered f" and "fe_pending f' = fe_pending f" and "set_mset (in_flight f) \<subseteq> set_mset (in_flight f')"
    and "\<And>p. smap_find (fe_readers f) p = None \<Longrightarrow> smap_find (fe_readers f') p = None"
  shows "covered f'"
  unfolding covered_def
proof (intro allI impI)
  fix p pc assume "smap_find (fe_pending f') p = Some pc"
  with assms(1,2) have "p \<in># in_flight f \<or> smap_find (fe_readers f) (pc_readerPath pc) = None"
    by (simp add: covered_def)
  with assms(3,4) show "p \<in># in_flight f' \<or> smap_find (fe_readers f') (pc_readerPath pc) = None" by auto
qed

lemma poster_of_job: "flight_inv ids f \<Longrightarrow> p \<in># in_flight f \<Longrightarrow> fe_poster f"
  by (auto simp: flight_inv_def)

lemma not_twice:
  assumes "flight_inv ids f" and "in_flight f = add_mset p M"
  shows "p \<notin># M"
proof -
  have "count (in_flight f) p \<le> 1" using assms(1) by (simp add: flight_inv_def)
  then show ?thesis using assms(2) by (simp add: not_in_iff)
qed

text \<open>One item is taken up; its card is not pending, or stays covered otherwise.\<close>

lemma covered_taken:
  assumes "covered f" and "in_flight f = add_mset p (in_flight f')" and "fe_readers f' = fe_readers f"
    and "\<And>q pc'. smap_find (fe_pending f') q = Some pc' \<Longrightarrow>
           (\<exists>pc. smap_find (fe_pending f) q = Some pc \<and> pc_readerPath pc' = pc_readerPath pc) \<and>
           (q = p \<longrightarrow> smap_find (fe_readers f) (pc_readerPath pc') = None)"
  shows "covered f'"
  unfolding covered_def
proof (intro allI impI)
  fix q pc' assume q: "smap_find (fe_pending f') q = Some pc'"
  from assms(4) [OF q] obtain pc where pc: "smap_find (fe_pending f) q = Some pc" "pc_readerPath pc' = pc_readerPath pc"
    and gone: "q = p \<longrightarrow> smap_find (fe_readers f) (pc_readerPath pc') = None" by blast
  from assms(1) pc have "q \<in># in_flight f \<or> smap_find (fe_readers f) (pc_readerPath pc) = None"
    by (auto simp: covered_def)
  with assms(2,3) pc(2) gone show "q \<in># in_flight f' \<or> smap_find (fe_readers f') (pc_readerPath pc') = None"
    by auto
qed

subsection \<open>Every step keeps it\<close>

lemma flight_worker_done:
  assumes inv: "flight_inv ids f" and i: "i < length (fe_worker f)"
  shows "flight_inv ids (worker_done i probe f)"
proof (rule flight_inv_shrink [OF inv])
  have same: "in_flight (worker_done i probe f) = in_flight f"
    using in_flight_worker [OF i] by (simp add: worker_done_def Let_def in_flight_def)
  then show "in_flight (worker_done i probe f) \<subseteq># in_flight f" by simp
  show "jobs (worker_done i probe f) \<subseteq> jobs f"
    using i set_erase_at_subset [of i "fe_worker f"] by (auto simp: jobs_def worker_done_def Let_def)
  show "covered (worker_done i probe f)"
    using inv same by (auto simp: flight_inv_def covered_def worker_done_def Let_def)
qed (auto simp: worker_done_def Let_def)

lemma flight_probe_lost:
  assumes inv: "flight_inv ids f" and i: "i < length (fe_worker f)"
    and gone: "smap_find (fe_readers f) (fst (snd (fe_worker f ! i))) = None"
  shows "flight_inv ids (f\<lparr>fe_worker := erase_at i (fe_worker f)\<rparr>)"
proof (rule flight_inv_shrink [OF inv])
  let ?f = "f\<lparr>fe_worker := erase_at i (fe_worker f)\<rparr>"
  note fl = in_flight_worker [OF i]
  show "in_flight ?f \<subseteq># in_flight f" using fl by simp
  show "jobs ?f \<subseteq> jobs f" using set_erase_at_subset [of i "fe_worker f"] by (auto simp: jobs_def)
  have "job_ok f (fe_worker f ! i)" using inv i by (auto simp: flight_inv_def jobs_def)
  then show "covered ?f" using inv gone
    by (intro covered_taken [OF _ fl]) (auto simp: flight_inv_def job_ok_def)
qed auto

lemma flight_type_learned:
  assumes inv: "flight_inv ids f"
  shows "flight_inv ids (makeCardTypeResolvedCallback p ct f)"
proof -
  let ?f = "makeCardTypeResolvedCallback p ct f"
  have same: "in_flight ?f = in_flight f" "fe_pending ?f = fe_pending f" "fe_readers ?f = fe_readers f"
    "fe_poster ?f = fe_poster f" "jobs ?f = jobs f"
    by (auto simp: makeCardTypeResolvedCallback_def in_flight_def jobs_def)
  show ?thesis
    by (rule flight_inv_shrink [OF inv]) (use inv same in \<open>auto simp: flight_inv_def covered_def\<close>)
qed

lemma jobs_schedule: "jobs (scheduleCardResolve q j f) \<subseteq> insert j (jobs f)" "jobs (rescheduleCardResolve j f) \<subseteq> insert j (jobs f)"
  by (auto simp: scheduleCardResolve_def rescheduleCardResolve_def jobs_def)

lemma schedule_frame [simp]:
  "fe_pending (scheduleCardResolve q j f) = fe_pending f" "fe_readers (scheduleCardResolve q j f) = fe_readers f"
  "fe_poster (scheduleCardResolve q j f) = fe_poster f"
  "fe_pending (rescheduleCardResolve j f) = fe_pending f" "fe_readers (rescheduleCardResolve j f) = fe_readers f"
  "fe_poster (rescheduleCardResolve j f) = fe_poster f"
  by (simp_all add: scheduleCardResolve_def rescheduleCardResolve_def)

lemma flight_timer:
  assumes inv: "flight_inv ids f" and i: "i < length (fe_timers f)"
  shows "flight_inv ids (timer_fires i q f)"
proof -
  let ?j = "fe_timers f ! i"
  let ?g = "f\<lparr>fe_timers := erase_at i (fe_timers f)\<rparr>"
  note fl = in_flight_timer [OF i]
  have on: "fe_poster f" by (rule poster_of_job [OF inv, of "fst ?j"]) (simp add: fl)
  have j: "?j \<in> jobs f" using i by (auto simp: jobs_def)
  have sub: "jobs ?g \<subseteq> jobs f" using set_erase_at_subset [of i "fe_timers f"] by (auto simp: jobs_def)
  have cov: "covered f" using inv by (simp add: flight_inv_def)
  show ?thesis
  proof (cases "smap_find (fe_pending f) (fst ?j) = None")
    case True
    then have e: "timer_fires i q f = ?g" by (simp add: timer_fires_def)
    have "covered ?g" by (rule covered_taken [OF cov fl]) (use True in auto)
    then show ?thesis unfolding e
      by (intro flight_inv_shrink [OF inv]) (use fl sub in auto)
  next
    case False
    then have e: "timer_fires i q f = scheduleCardResolve q ?j ?g" by (simp add: timer_fires_def Let_def)
    have same: "in_flight (scheduleCardResolve q ?j ?g) = in_flight f"
      using on fl by (simp add: in_flight_schedule)
    have "covered (scheduleCardResolve q ?j ?g)" using cov same by (simp add: covered_def)
    then show ?thesis unfolding e
      using same sub j jobs_schedule(1) [of q ?j ?g] by (intro flight_inv_shrink [OF inv]) auto
  qed
qed

lemma jobs_pop_loop: "jobs (f\<lparr>fe_loop := erase_at i (fe_loop f)\<rparr>) \<subseteq> jobs f"
  using set_erase_at_subset [of i "fe_loop f"] by (auto simp: jobs_def)

lemma flight_apply:
  assumes inv: "flight_inv ids f" and i: "i < length (fe_loop f)" and t: "fe_loop f ! i = Apply j probe"
    and idle: "fe_building f = None" and maps: "maps_ok f"
  shows "flight_inv ids (applyCardResolution L j probe (f\<lparr>fe_loop := erase_at i (fe_loop f)\<rparr>))"
proof -
  let ?g = "f\<lparr>fe_loop := erase_at i (fe_loop f)\<rparr>"
  have fl: "in_flight f = add_mset (fst j) (in_flight ?g)" using in_flight_loop [OF i] t by simp
  have on: "fe_poster f" by (rule poster_of_job [OF inv, of "fst j"]) (simp add: fl)
  have j: "j \<in> jobs f" using i t by (auto simp: jobs_def) (metis nth_mem)
  have cov: "covered f" using inv by (simp add: flight_inv_def)
  show ?thesis
  proof (cases "smap_find (fe_pending f) (fst j)")
    case None
    then have e: "applyCardResolution L j probe ?g = ?g" by (simp add: applyCardResolution_def)
    have "covered ?g" by (rule covered_taken [OF cov fl]) (use None in auto)
    then show ?thesis unfolding e
      by (intro flight_inv_shrink [OF inv]) (use fl jobs_pop_loop in auto)
  next
    case (Some pc)
    obtain d a where r: "retryAfter L probe (pc_attempts pc) = (d, a)" by force
    let ?h = "applyCardResolution L j probe ?g"
    have pend: "fe_pending ?h = smap_assign (fst j) (pc\<lparr>pc_attempts := a\<rparr>) (fe_pending f)"
      and frame: "fe_readers ?h = fe_readers f" "fe_poster ?h = fe_poster f"
      using Some r by (cases d; simp add: applyCardResolution_def)+
    have same: "in_flight ?h = in_flight f"
      using Some r on fl idle
      by (cases d) (simp_all add: applyCardResolution_def in_flight_schedule, simp add: in_flight_def)
    have "jobs ?h \<subseteq> insert j (jobs ?g)"
    proof (cases d)
      case None
      then have "jobs ?h = jobs ?g" using Some r by (simp add: applyCardResolution_def jobs_def)
      then show ?thesis by blast
    next
      case d: (Some d)
      let ?k = "?g\<lparr>fe_pending := smap_assign (fst j) (pc\<lparr>pc_attempts := a\<rparr>) (fe_pending f)\<rparr>"
      have "?h = rescheduleCardResolve j ?k" using Some r d by (simp add: applyCardResolution_def)
      moreover have "jobs ?k = jobs ?g" by (simp add: jobs_def)
      ultimately show ?thesis using jobs_schedule(2) [of j ?k] by simp
    qed
    then have jb: "jobs ?h \<subseteq> jobs f" using j jobs_pop_loop [of i f] by blast
    have look: "smap_find (fe_pending ?h) p = (if p = fst j then Some (pc\<lparr>pc_attempts := a\<rparr>) else smap_find (fe_pending f) p)" for p
      using maps by (simp add: pend maps_ok_def smap.lookup_assign)
    have keep: "\<exists>pc0. smap_find (fe_pending f) p = Some pc0 \<and> pc_readerPath pc' = pc_readerPath pc0"
      if "smap_find (fe_pending ?h) p = Some pc'" for p pc'
      using that Some by (auto simp: look split: if_splits)
    have "covered ?h"
      unfolding covered_def
    proof (intro allI impI)
      fix p pc' assume "smap_find (fe_pending ?h) p = Some pc'"
      from keep [OF this] obtain pc0 where "smap_find (fe_pending f) p = Some pc0" "pc_readerPath pc' = pc_readerPath pc0"
        by auto
      with coveredD [OF cov this(1)] show "p \<in># in_flight ?h \<or> smap_find (fe_readers ?h) (pc_readerPath pc') = None"
        by (simp add: same frame)
    qed
    then show ?thesis using same frame jb keep by (intro flight_inv_shrink [OF inv]) auto
  qed
qed

lemma flight_card_type:
  assumes inv: "flight_inv ids f"
  shows "flight_inv ids (applyCardTypeUpdate p ct f)"
proof -
  have same: "in_flight (applyCardTypeUpdate p ct f) = in_flight f" "jobs (applyCardTypeUpdate p ct f) = jobs f"
    "fe_pending (applyCardTypeUpdate p ct f) = fe_pending f" "fe_readers (applyCardTypeUpdate p ct f) = fe_readers f"
    "fe_poster (applyCardTypeUpdate p ct f) = fe_poster f"
    by (auto simp: applyCardTypeUpdate_def jobs_def split: option.splits)
  show ?thesis
    by (rule flight_inv_shrink [OF inv]) (use inv same in \<open>auto simp: flight_inv_def covered_def\<close>)
qed

lemma flight_built:
  assumes inv: "flight_inv ids f" and maps: "maps_ok f"
  shows "flight_inv ids (finishBuild L x f)"
proof (cases "fe_building f")
  case None
  then show ?thesis using inv by (simp add: finishBuild_def)
next
  case (Some b)
  obtain j probe obj where b: "b = (j, probe, obj)" by (cases b)
  let ?h = "finishBuild L x f"
  have fl: "in_flight f = add_mset (fst j) (in_flight ?h)"
    using Some b by (simp add: finishBuild_def in_flight_def Let_def)
  have frame: "fe_readers ?h = fe_readers f" "fe_poster ?h = fe_poster f" "jobs ?h = jobs f"
    using Some b by (simp_all add: finishBuild_def Let_def jobs_def)
  have look: "smap_find (fe_pending ?h) p = (if p = fst j then None else smap_find (fe_pending f) p)" for p
    using Some b by (simp add: finishBuild_def Let_def smap_find_erase)
  have cov: "covered f" using inv by (simp add: flight_inv_def)
  have "covered ?h" by (rule covered_taken [OF cov fl]) (auto simp: frame look split: if_splits)
  then show ?thesis
    by (intro flight_inv_shrink [OF inv]) (auto simp: fl frame look split: if_splits)
qed

lemma flight_withdraw:
  assumes inv: "flight_inv ids f" and maps: "maps_ok f"
  shows "flight_inv ids (withdrawObject i f)"
proof (rule flight_inv_shrink [OF inv])
  let ?h = "withdrawObject i f"
  have same: "in_flight ?h = in_flight f" by (simp add: withdrawObject_def Let_def)
  then show "in_flight ?h \<subseteq># in_flight f" by simp
  show "jobs ?h \<subseteq> jobs f" by (auto simp: withdrawObject_def Let_def jobs_def)
  have cov: "covered f" using inv by (simp add: flight_inv_def)
  show "covered ?h"
    unfolding covered_def
  proof (intro allI impI)
    fix p pc assume "smap_find (fe_pending ?h) p = Some pc"
    then have "smap_find (fe_pending f) p = Some pc"
      by (auto simp: withdrawObject_def Let_def smap_find_erase split: if_splits)
    from coveredD [OF cov this] show "p \<in># in_flight ?h \<or> smap_find (fe_readers ?h) (pc_readerPath pc) = None"
      unfolding same by (auto simp: withdrawObject_def Let_def smap_find_erase)
  qed
qed (auto simp: withdrawObject_def Let_def smap_find_erase split: if_splits)

lemma flight_readers:
  assumes inv: "flight_inv ids f" and "ids \<subseteq> ids'"
    and "\<And>p. p \<in> agentObjectPath ''reader'' ` ids \<Longrightarrow> smap_find (fe_readers f) p = None \<Longrightarrow> smap_find r p = None"
  shows "flight_inv ids' (f\<lparr>fe_readers := r\<rparr>)"
proof (rule flight_inv_shrink [OF inv])
  have cov: "covered f" using inv by (simp add: flight_inv_def)
  show "covered (f\<lparr>fe_readers := r\<rparr>)"
    unfolding covered_def
  proof (intro allI impI)
    fix p pc assume "smap_find (fe_pending (f\<lparr>fe_readers := r\<rparr>)) p = Some pc"
    then have e: "smap_find (fe_pending f) p = Some pc" by simp
    then have "pc_readerPath pc \<in> agentObjectPath ''reader'' ` ids" using inv by (simp add: flight_inv_def)
    with coveredD [OF cov e] assms(3)
    show "p \<in># in_flight (f\<lparr>fe_readers := r\<rparr>) \<or> smap_find (fe_readers (f\<lparr>fe_readers := r\<rparr>)) (pc_readerPath pc) = None"
      by auto
  qed
qed (use assms(2) in \<open>auto simp: jobs_def\<close>)

lemma flight_publish_card:
  assumes inv: "flight_inv ids f" and maps: "maps_ok f" and fresh: "cst_id c \<notin> ids" and rd: "cst_reader c \<in> ids"
  shows "flight_inv (insert (cst_id c) ids) (materializeCard L q c f)"
proof (cases "fe_poster f")
  case False
  let ?h = "materializeCard L q c f"
  have "in_flight ?h = in_flight f" "fe_pending ?h = fe_pending f" "jobs ?h = jobs f" "fe_poster ?h = fe_poster f"
    "fe_readers ?h = fe_readers f"
    using False by (simp_all add: materializeCard_def Let_def jobs_def)
  then show ?thesis using inv by (intro flight_inv_shrink [OF inv]) (auto simp: flight_inv_def covered_def)
next
  case True
  let ?p = "agentObjectPath ''card'' (cst_id c)" and ?r = "agentObjectPath ''reader'' (cst_reader c)"
  let ?n = "case smap_find (fe_readers f) ?r of Some r \<Rightarrow> ro_name r | None \<Rightarrow> []"
  let ?h = "materializeCard L q c f"
  have new: "?p \<notin># in_flight f" using inv fresh by (auto simp: flight_inv_def agentObjectPath_inj_id dest!: subsetD)
  have fl: "in_flight ?h = add_mset ?p (in_flight f)"
    using True by (simp add: materializeCard_def Let_def in_flight_schedule)
  have frame: "fe_readers ?h = fe_readers f" "fe_poster ?h" using True by (simp_all add: materializeCard_def Let_def)
  have look: "smap_find (fe_pending ?h) p = (if p = ?p then Some \<lparr>pc_readerPath = ?r, pc_readerName = ?n,
      pc_attempts = noAttempts L, pc_atrHex = cst_atrHex c\<rparr> else smap_find (fe_pending f) p)" for p
    using True maps by (simp add: materializeCard_def Let_def maps_ok_def smap.lookup_assign)
  have jb: "jobs ?h \<subseteq> insert (?p, ?r, ?n) (jobs f)"
  proof -
    let ?g = "f\<lparr>fe_pending := smap_assign ?p \<lparr>pc_readerPath = ?r, pc_readerName = ?n,
        pc_attempts = noAttempts L, pc_atrHex = cst_atrHex c\<rparr> (fe_pending f)\<rparr>"
    have "?h = scheduleCardResolve q (?p, ?r, ?n) ?g" using True by (simp add: materializeCard_def Let_def)
    moreover have "jobs ?g = jobs f" by (simp add: jobs_def)
    ultimately show ?thesis using jobs_schedule(1) [of q "(?p, ?r, ?n)" ?g] by simp
  qed
  have cnt: "count (in_flight ?h) p \<le> 1" for p
    using inv new by (cases "p = ?p") (simp_all add: fl flight_inv_def not_in_iff)
  have cov: "covered ?h"
    unfolding covered_def
  proof (intro allI impI)
    fix p pc assume e: "smap_find (fe_pending ?h) p = Some pc"
    show "p \<in># in_flight ?h \<or> smap_find (fe_readers ?h) (pc_readerPath pc) = None"
    proof (cases "p = ?p")
      case False
      with e have "smap_find (fe_pending f) p = Some pc" by (simp add: look)
      moreover have "covered f" using inv by (simp add: flight_inv_def)
      ultimately show ?thesis using coveredD [of f p pc] by (auto simp: fl frame)
    qed (simp add: fl)
  qed
  have rds: "pc_readerPath pc \<in> agentObjectPath ''reader'' ` insert (cst_id c) ids" if "smap_find (fe_pending ?h) p = Some pc" for p pc
    using that inv rd by (auto simp: look flight_inv_def split: if_splits)
  have jk: "job_ok ?h j" if j: "j \<in> jobs ?h" for j
  proof (cases "fst j = ?p")
    case True
    with j jb jobs_in_flight [of j f] new have "j = (?p, ?r, ?n)" by auto
    then show ?thesis by (simp add: job_ok_def look)
  next
    case False
    with j jb have "j \<in> jobs f" by auto
    then have "job_ok f j" using inv by (simp add: flight_inv_def)
    with False show ?thesis by (simp add: job_ok_def look)
  qed
  have sub: "set_mset (in_flight ?h) \<subseteq> agentObjectPath ''card'' ` insert (cst_id c) ids"
    using inv by (auto simp: fl flight_inv_def)
  show ?thesis unfolding flight_inv_def using cnt sub cov frame(2) rds jk by auto
qed

lemma flight_step:
  "sys_step L s s' \<Longrightarrow> tree_inv poster s \<Longrightarrow> flight_inv (sy_issued s) (sy_frontend s) \<Longrightarrow>
     flight_inv (sy_issued s') (sy_frontend s')"
proof (induction rule: sys_step.induct)
  case (publish_reader r s q)
  let ?f = "sy_frontend s" and ?p = "agentObjectPath ''reader'' (rst_id r)"
  have ok: "smap_ok (fe_readers ?f)" using publish_reader(2) by (simp add: tree_defs)
  have "?p \<notin> agentObjectPath ''reader'' ` sy_issued s" using publish_reader(1) by simp
  then have "flight_inv (insert (rst_id r) (sy_issued s))
      (?f\<lparr>fe_readers := smap_emplace ?p v (fe_readers ?f)\<rparr>)" for v
    using ok by (intro flight_readers [OF publish_reader(3)]) (auto simp: smap.lookup_emplace agentObjectPath_inj_id)
  then show ?case
    by (simp add: deliver_delta_def publishReader_def frontend_materializer_def materializeReader_def fire_def)
next
  case (publish_card c s q)
  have "cst_reader c \<in> sy_issued s" using publish_card(2,3) by (auto simp: tree_inv_def)
  moreover have "maps_ok (sy_frontend s)" using publish_card(3) by (simp add: tree_inv_def)
  ultimately show ?case using publish_card
    by (simp add: deliver_delta_def publishCard_def frontend_materializer_def fire_def flight_publish_card)
next
  case (update s q i d)
  let ?f = "sy_frontend s" and ?p = "agentObjectPath ''reader'' i"
  have ok: "smap_ok (fe_readers ?f)" using update(1) by (simp add: tree_defs)
  show ?case
  proof (cases "smap_find (fe_readers ?f) ?p")
    case None
    with update(2) show ?thesis
      by (simp add: deliver_delta_def updateProperties_def frontend_materializer_def fire_def
          updateReaderProperties_def Let_def)
  next
    case (Some x)
    then have "flight_inv (sy_issued s) (?f\<lparr>fe_readers := smap_assign ?p v (fe_readers ?f)\<rparr>)" for v
      using ok by (intro flight_readers [OF update(2)]) (auto simp: smap.lookup_assign)
    with Some show ?thesis
      by (simp add: deliver_delta_def updateProperties_def frontend_materializer_def fire_def
          updateReaderProperties_def Let_def)
  qed
next
  case (relabelled s q r)
  let ?f = "sy_frontend s" and ?p = "agentObjectPath ''reader'' (rst_id r)"
  have ok: "smap_ok (fe_readers ?f)" using relabelled(1) by (simp add: tree_defs)
  show ?case
  proof (cases "smap_find (fe_readers ?f) ?p")
    case None
    with relabelled(2) show ?thesis
      by (simp add: deliver_delta_def relabel_def frontend_materializer_def fire_def relabelReader_def Let_def)
  next
    case (Some x)
    then have "flight_inv (sy_issued s) (?f\<lparr>fe_readers := smap_assign ?p v (fe_readers ?f)\<rparr>)" for v
      using ok by (intro flight_readers [OF relabelled(2)]) (auto simp: smap.lookup_assign)
    with Some show ?thesis
      by (simp add: deliver_delta_def relabel_def frontend_materializer_def fire_def relabelReader_def Let_def)
  qed
next
  case (withdrawn s q i)
  then have "maps_ok (sy_frontend s)" by (simp add: tree_inv_def)
  with withdrawn show ?case
    by (simp add: deliver_delta_def withdraw_def frontend_materializer_def fire_def flight_withdraw)
next
  case (loop i s)
  let ?f = "sy_frontend s"
  have maps: "maps_ok ?f" using loop(3) by (simp add: tree_inv_def)
  show ?case
  proof (cases "fe_loop ?f ! i")
    case (Apply j probe)
    with flight_apply [OF loop(4,1) Apply loop(2) maps] show ?thesis by (simp add: on_frontend_def run_task_def)
  next
    case (CardTypeUpdate p ct)
    have "flight_inv (sy_issued s) (?f\<lparr>fe_loop := erase_at i (fe_loop ?f)\<rparr>)"
    proof (rule flight_inv_shrink [OF loop(4)])
      show "covered (?f\<lparr>fe_loop := erase_at i (fe_loop ?f)\<rparr>)"
        using loop(4) in_flight_loop [OF loop(1)] CardTypeUpdate by (simp add: flight_inv_def covered_def)
    qed (use in_flight_loop [OF loop(1)] CardTypeUpdate jobs_pop_loop in auto)
    with CardTypeUpdate show ?thesis by (simp add: on_frontend_def run_task_def flight_card_type)
  qed
next
  case (built s)
  then have "maps_ok (sy_frontend s)" by (simp add: tree_inv_def)
  with built show ?case by (simp add: on_frontend_def flight_built)
qed (simp_all add: on_frontend_def flight_worker_done flight_probe_lost flight_type_learned flight_timer)

lemma flight_reach: "sys_reach L poster s \<Longrightarrow> flight_inv (sy_issued s) (sy_frontend s)"
proof (induction rule: sys_reach.induct)
  case start
  show ?case
    by (simp add: system_init_def frontend_init_def flight_inv_def in_flight_def covered_def jobs_def smap_find_Nil)
next
  case (step s s')
  then show ?case using tree_inv_reach flight_step by blast
qed

subsection \<open>Properties\<close>

text \<open>
  C4: The exported tree is exactly the live tree. However the monitor's deltas, the probes, the
  timers and the loop thread interleave, a reader object exists exactly for every reader that was
  published and not withdrawn; a card that was published and not withdrawn is either still being
  resolved or exported, never both; and no card is exported, or can become so, once it was
  withdrawn, also when the withdrawal fell while its object was under construction.
\<close>

theorem exported_tree_is_live_tree:
  assumes "sys_reach L poster s"
  shows "reader_paths (sy_frontend s) = agentObjectPath ''reader'' ` sy_readers s \<and>
         pending_paths (sy_frontend s) \<union> exported_paths (sy_frontend s) = agentObjectPath ''card'' ` sy_cards s \<and>
         pending_paths (sy_frontend s) \<inter> exported_paths (sy_frontend s) = {} \<and>
         (\<not> poster \<longrightarrow> exported_paths (sy_frontend s) = agentObjectPath ''card'' ` sy_cards s)"
proof -
  have t: "tree_inv poster s" and f: "flight_inv (sy_issued s) (sy_frontend s)"
    using assms by (auto intro: tree_inv_reach flight_reach)
  have "pending_paths (sy_frontend s) = {}" if "\<not> poster"
    using t f that by (auto simp: tree_inv_def flight_inv_def pending_paths_def smap_find_Nil)
  with t show ?thesis by (auto simp: tree_inv_def)
qed

text \<open>
  The presence snapshot of the exporter refines to the exported reader objects: at every
  moment the two know the same readers, and for each the name, the presence flag and the card
  path agree. What the snapshot answers for a reader is therefore what its bus object shows.
\<close>

theorem presence_refines_readers:
  assumes "sys_reach L poster s"
  shows "smap_find (sy_presence s) path = map_option entry_of (smap_find (fe_readers (sy_frontend s)) path) \<and>
         (resolveReaderCard (sy_presence s) path =
            (case smap_find (fe_readers (sy_frontend s)) path of
               None \<Rightarrow> None
             | Some r \<Rightarrow> if ro_hasCard r \<and> ro_card r \<noteq> [] \<and> ro_card r \<noteq> ''/''
                         then Some (ro_name r, ro_card r) else None))"
proof -
  have "agree (sy_presence s) (sy_frontend s)" using tree_inv_reach [OF assms] by (simp add: tree_inv_def)
  then show ?thesis
    by (auto simp: agree_def resolveReaderCard_def holds_card_def entry_of_def split: option.splits)
qed

text \<open>
  C18: A card is never silently dropped. While a card waits to be exported, exactly one
  continuation is under way for it (a probe on its reader's worker, a posted result, a retry
  timer, or the construction of its object), unless its reader is gone. No card ever has two, so
  none is claimed twice.
\<close>

theorem pending_card_has_continuation:
  assumes "sys_reach L True s" and "smap_find (fe_pending (sy_frontend s)) path = Some pc"
  shows "count (in_flight (sy_frontend s)) path = 1 \<or>
         count (in_flight (sy_frontend s)) path = 0 \<and>
         smap_find (fe_readers (sy_frontend s)) (pc_readerPath pc) = None"
proof -
  have f: "flight_inv (sy_issued s) (sy_frontend s)" using assms(1) by (rule flight_reach)
  then have "covered (sy_frontend s)" "count (in_flight (sy_frontend s)) path \<le> 1"
    by (simp_all add: flight_inv_def)
  with coveredD [OF _ assms(2)] show ?thesis by (auto simp: count_eq_zero_iff le_Suc_eq)
qed

text \<open>A reader and a card in it, the probe accepted by the worker.\<close>

definition sample_frontend_lib :: "nat frontend_lib" where
  "sample_frontend_lib =
     \<lparr>fl_oids = \<lparr>oid_none = 0, oid_valid = (\<lambda>i. i \<noteq> 0)\<rparr>, noAttempts = 0,
      retryAfter = (\<lambda>probe n. if cp_opened probe \<or> n \<ge> 3 then (None, n) else (Some 50, Suc n)),
      holdsReader = (\<lambda>probe roster path. False)\<rparr>"

definition sample_reader_st :: reader_st where
  "sample_reader_st = \<lparr>rst_id = 4, rst_name = ''ACR'', rst_hasCard = True, rst_card = 5, rst_model = ''ACR39'',
     rst_iface = ''contact''\<rparr>"

definition sample_card_st :: card_st where
  "sample_card_st = \<lparr>cst_id = 5, cst_reader = 4, cst_capabilities = 0, cst_preReadAuth = AuthNone,
     cst_cardType = [], cst_atrHex = ''3B''\<rparr>"

definition sample_sys1 :: "nat system" where
  "sample_sys1 =
     (deliver_delta (publishReader (fl_oids sample_frontend_lib) (frontend_materializer sample_frontend_lib True)
        sample_reader_st) (system_init True))\<lparr>sy_issued := {4}, sy_readers := {4}\<rparr>"

definition sample_sys2 :: "nat system" where
  "sample_sys2 =
     (deliver_delta (publishCard (frontend_materializer sample_frontend_lib True) sample_card_st) sample_sys1)
       \<lparr>sy_issued := {4, 5}, sy_cards := {5}\<rparr>"

lemma sample_reach1: "sys_reach sample_frontend_lib True sample_sys1"
proof -
  have "sys_step sample_frontend_lib (system_init True) sample_sys1"
    using sys_step.publish_reader [of sample_reader_st "system_init True" sample_frontend_lib True]
    by (simp add: sample_sys1_def sample_reader_st_def system_init_def)
  with sys_reach.start show ?thesis by (rule sys_reach.step)
qed

lemma sample_sys1_sets: "sy_issued sample_sys1 = {4}" "sy_readers sample_sys1 = {4}" "sy_cards sample_sys1 = {}"
  by (simp_all add: sample_sys1_def deliver_delta_def Let_def system_init_def)

lemma sample_reach2: "sys_reach sample_frontend_lib True sample_sys2"
proof -
  have "sys_step sample_frontend_lib sample_sys1
      ((deliver_delta (publishCard (frontend_materializer sample_frontend_lib True) sample_card_st) sample_sys1)
         \<lparr>sy_issued := insert (cst_id sample_card_st) (sy_issued sample_sys1),
          sy_cards := insert (cst_id sample_card_st) (sy_cards sample_sys1)\<rparr>)"
    by (rule sys_step.publish_card) (simp_all add: sample_card_st_def sample_sys1_sets)
  then have "sys_step sample_frontend_lib sample_sys1 sample_sys2"
    by (simp add: sample_sys2_def sample_sys1_sets sample_card_st_def insert_commute)
  with sample_reach1 show ?thesis by (rule sys_reach.step)
qed

lemma sample_sys2_pending:
  "smap_find (fe_pending (sy_frontend sample_sys2)) (agentObjectPath ''card'' 5) =
     Some \<lparr>pc_readerPath = agentObjectPath ''reader'' 4, pc_readerName = ''ACR'', pc_attempts = 0, pc_atrHex = ''3B''\<rparr>"
  by (simp add: sample_sys2_def sample_sys1_def deliver_delta_def publishCard_def publishReader_def
      frontend_materializer_def fire_def materializeCard_def materializeReader_def scheduleCardResolve_def
      system_init_def frontend_init_def sample_card_st_def sample_reader_st_def sample_frontend_lib_def
      smap_find_def smap_emplace_def Let_def)

theorem exported_tree_is_live_tree_witness:
  "pending_paths (sy_frontend sample_sys2) \<union> exported_paths (sy_frontend sample_sys2) = {agentObjectPath ''card'' 5}"
  using exported_tree_is_live_tree [OF sample_reach2] by (simp add: sample_sys2_def)

theorem presence_refines_readers_witness:
  "resolveReaderCard (sy_presence sample_sys1) (agentObjectPath ''reader'' 4) = Some (''ACR'', agentObjectPath ''card'' 5)"
proof -
  have "smap_find (fe_readers (sy_frontend sample_sys1)) (agentObjectPath ''reader'' 4) =
      Some \<lparr>ro_name = ''ACR'', ro_hasCard = True, ro_card = agentObjectPath ''card'' 5, ro_model = ''ACR39'',
            ro_interface = ''contact'', ro_emitted = []\<rparr>"
    by (simp add: sample_sys1_def deliver_delta_def publishReader_def frontend_materializer_def fire_def
        materializeReader_def system_init_def frontend_init_def sample_reader_st_def sample_frontend_lib_def
        smap_find_def smap_emplace_def card_path_or_root_def Let_def)
  then show ?thesis
    using presence_refines_readers [OF sample_reach1, of "agentObjectPath ''reader'' 4"] by simp
qed

theorem pending_card_has_continuation_witness:
  "count (in_flight (sy_frontend sample_sys2)) (agentObjectPath ''card'' 5) = 1"
proof -
  have "smap_find (fe_readers (sy_frontend sample_sys2)) (agentObjectPath ''reader'' 4) \<noteq> None"
    using reader_found [OF tree_inv_reach [OF sample_reach2], of 4]
    by (simp add: sample_sys2_def sample_sys1_sets deliver_delta_def Let_def)
  then show ?thesis
    using pending_card_has_continuation [OF sample_reach2 sample_sys2_pending] by auto
qed

end
