(* ===== verification/Event_Loop.thy ===== *)
theory Event_Loop
  imports LL_Prelude
begin

text \<open>
  The hop onto the loop thread (\<^verbatim>\<open>agent/src/EventLoopPoster.cpp\<close>): a queue filled by any
  thread, an eventfd that wakes the loop, and one-shot timers armed on the loop thread. A
  callback handed in is a token \<open>'w\<close>; an empty \<^verbatim>\<open>std::function\<close> is \<^const>\<open>None\<close>; the closure
  \<open>postAfter\<close> queues is a constructor of its own. What the kernel and the allocator answer is an
  argument of each operation.
\<close>

subsection \<open>The poster\<close>

datatype 'w closure = Call 'w | ArmTimer int 'w

record 'w timer =
  tm_due :: u64
  tm_fn :: 'w

record 'w poster =
  ep_pending :: "'w closure option list"
  ep_counter :: u64
  ep_armed :: "(nat \<times> 'w timer) list"
  ep_tracked :: "nat list"
  ep_next :: nat
  ep_ran :: "'w list"

datatype poster_error = EventfdFailed | AddIoFailed

text \<open>The constructor: the error, and whether an eventfd is left open, or the empty poster.\<close>

definition EventLoopPoster_ctor :: "bool \<Rightarrow> bool \<Rightarrow> (poster_error \<times> bool) + 'w poster" where
  "EventLoopPoster_ctor eventfd_ok add_io_ok =
    (if \<not> eventfd_ok then Inl (EventfdFailed, False)
     else if \<not> add_io_ok then Inl (AddIoFailed, False)
     else Inr \<lparr>ep_pending = [], ep_counter = 0, ep_armed = [], ep_tracked = [], ep_next = 0, ep_ran = []\<rparr>)"

text \<open>
  The destructor frees the timers it tracks. What is left is the timers that are armed and
  were never tracked.
\<close>

definition EventLoopPoster_dtor :: "'w poster \<Rightarrow> (nat \<times> 'w timer) list" where
  "EventLoopPoster_dtor s = filter (\<lambda>t. fst t \<notin> set (ep_tracked s)) (ep_armed s)"

text \<open>
  The two halves of \<open>post\<close>: the insertion under the lock, which an allocation failure turns into
  a drop, and the write that wakes the loop. A non-blocking eventfd refuses the write that
  would take its counter to the largest value.
\<close>

definition post_push :: "bool \<Rightarrow> 'w closure option \<Rightarrow> 'w poster \<Rightarrow> bool \<times> 'w poster" where
  "post_push alloc_ok fn s =
    (if fn = None \<or> \<not> alloc_ok then (False, s) else (True, s\<lparr>ep_pending := ep_pending s @ [fn]\<rparr>))"

definition post_wake :: "'w poster \<Rightarrow> 'w poster" where
  "post_wake s = (if ep_counter s \<ge> 0xFFFFFFFFFFFFFFFE then s else s\<lparr>ep_counter := ep_counter s + 1\<rparr>)"

definition post :: "bool \<Rightarrow> 'w closure option \<Rightarrow> 'w poster \<Rightarrow> bool \<times> 'w poster" where
  "post alloc_ok fn s = (let (accepted, s') = post_push alloc_ok fn s in
     if accepted then (True, post_wake s') else (False, s'))"

text \<open>What \<open>postAfter\<close> hands to \<open>post\<close>.\<close>

definition postAfter_closure :: "int \<Rightarrow> 'w option \<Rightarrow> 'w closure option" where
  "postAfter_closure delay fn =
    (case fn of None \<Rightarrow> None | Some w \<Rightarrow> if delay \<le> 0 then Some (Call w) else Some (ArmTimer delay w))"

definition postAfter :: "bool \<Rightarrow> int \<Rightarrow> 'w option \<Rightarrow> 'w poster \<Rightarrow> bool \<times> 'w poster" where
  "postAfter alloc_ok delay fn s = post alloc_ok (postAfter_closure delay fn) s"

subsection \<open>The loop thread\<close>

record arm_env =
  ae_now :: "u64 option"
  ae_new_ok :: bool
  ae_add_time_ok :: bool
  ae_push_ok :: bool
  ae_insert_ok :: bool

definition call_fn :: "'w \<Rightarrow> 'w poster \<Rightarrow> 'w poster" where
  "call_fn w s = s\<lparr>ep_ran := ep_ran s @ [w]\<rparr>"

definition armTimer :: "arm_env \<Rightarrow> int \<Rightarrow> 'w \<Rightarrow> 'w poster \<Rightarrow> 'w poster" where
  "armTimer e delay w s =
    (case ae_now e of
       None \<Rightarrow> call_fn w s
     | Some now \<Rightarrow>
         if \<not> ae_new_ok e then s
         else if \<not> ae_add_time_ok e then snd (post (ae_push_ok e) (Some (Call w)) s)
         else s\<lparr>ep_armed := ep_armed s @ [(ep_next s, \<lparr>tm_due = now + word_of_int delay, tm_fn = w\<rparr>)],
                ep_next := Suc (ep_next s),
                ep_tracked := (if ae_insert_ok e then ep_tracked s @ [ep_next s] else ep_tracked s)\<rparr>)"

definition onReadable_read :: "'w poster \<Rightarrow> 'w poster" where
  "onReadable_read s = s\<lparr>ep_counter := 0\<rparr>"

definition drain_swap :: "'w poster \<Rightarrow> 'w closure option list \<times> 'w poster" where
  "drain_swap s = (ep_pending s, s\<lparr>ep_pending := []\<rparr>)"

definition drain_one :: "arm_env \<Rightarrow> 'w closure option \<Rightarrow> 'w poster \<Rightarrow> 'w poster" where
  "drain_one e fn s =
    (case fn of None \<Rightarrow> s | Some (Call w) \<Rightarrow> call_fn w s | Some (ArmTimer d w) \<Rightarrow> armTimer e d w s)"

text \<open>The timer at position \<open>i\<close> of the armed ones fires.\<close>

definition onTimer :: "nat \<Rightarrow> 'w poster \<Rightarrow> 'w poster" where
  "onTimer i s =
    (if i < length (ep_armed s) then
       let t = ep_armed s ! i in
       call_fn (tm_fn (snd t))
         (s\<lparr>ep_armed := erase_at i (ep_armed s), ep_tracked := removeAll (fst t) (ep_tracked s)\<rparr>)
     else s)"

subsection \<open>All threads together\<close>

text \<open>
  A thread inside \<open>post\<close> stands between its insertion and its write; the loop stands between
  two dispatches, between the read of the eventfd and the swap, or in the batch it took. The last
  fields record what was queued, what was taken from the queue, what was handed in, and what was
  dropped.
\<close>

datatype 'w loop_at = Idle | Woken | Draining "'w closure option list"

record 'w looped =
  lp_poster :: "'w poster"
  lp_writers :: nat
  lp_at :: "'w loop_at"
  lp_queued :: "'w closure option list"
  lp_taken :: "'w closure option list"
  lp_accepted :: "'w list"
  lp_dropped :: "'w list"

fun closure_work :: "'w closure option \<Rightarrow> 'w list" where
  "closure_work None = []"
| "closure_work (Some (Call w)) = [w]"
| "closure_work (Some (ArmTimer d w)) = [w]"

datatype actor = Loop | Other

text \<open>A request from any thread: an insertion, refused or accepted.\<close>

definition sys_push :: "bool \<Rightarrow> 'w closure option \<Rightarrow> 'w looped \<Rightarrow> 'w looped" where
  "sys_push alloc_ok fn s =
    (case post_push alloc_ok fn (lp_poster s) of
       (False, p) \<Rightarrow> s\<lparr>lp_poster := p\<rparr>
     | (True, p) \<Rightarrow> s\<lparr>lp_poster := p, lp_writers := Suc (lp_writers s), lp_queued := lp_queued s @ [fn],
                     lp_accepted := lp_accepted s @ closure_work fn\<rparr>)"

text \<open>
  One callback of the batch. A closure whose timer could not be scheduled queues its work again;
  one whose timer object, or whose second insertion, could not be allocated loses it.
\<close>

definition requeues :: "arm_env \<Rightarrow> 'w closure option \<Rightarrow> 'w closure option list" where
  "requeues e fn = (case fn of Some (ArmTimer d w) \<Rightarrow>
     if ae_now e \<noteq> None \<and> ae_new_ok e \<and> \<not> ae_add_time_ok e \<and> ae_push_ok e then [Some (Call w)] else [] | _ \<Rightarrow> [])"

definition loses :: "arm_env \<Rightarrow> 'w closure option \<Rightarrow> 'w list" where
  "loses e fn = (case fn of Some (ArmTimer d w) \<Rightarrow>
     if ae_now e \<noteq> None \<and> (\<not> ae_new_ok e \<or> \<not> ae_add_time_ok e \<and> \<not> ae_push_ok e) then [w] else [] | _ \<Rightarrow> [])"

definition sys_run :: "arm_env \<Rightarrow> 'w closure option \<Rightarrow> 'w closure option list \<Rightarrow> 'w looped \<Rightarrow> 'w looped" where
  "sys_run e fn rest s = s\<lparr>lp_poster := drain_one e fn (lp_poster s), lp_at := Draining rest,
     lp_queued := lp_queued s @ requeues e fn, lp_taken := lp_taken s @ [fn],
     lp_dropped := lp_dropped s @ loses e fn\<rparr>"

inductive loop_step :: "actor \<Rightarrow> 'w looped \<Rightarrow> 'w looped \<Rightarrow> bool" where
  Push: "loop_step Other s (sys_push alloc_ok (map_option Call fn) s)"
| PushAfter: "loop_step Other s (sys_push alloc_ok (postAfter_closure delay fn) s)"
| Wake: "lp_writers s = Suc n \<Longrightarrow>
    loop_step Other s (s\<lparr>lp_poster := post_wake (lp_poster s), lp_writers := n\<rparr>)"
| Readable: "lp_at s = Idle \<Longrightarrow>
    loop_step Loop s (s\<lparr>lp_poster := onReadable_read (lp_poster s), lp_at := Woken\<rparr>)"
| Swap: "lp_at s = Woken \<Longrightarrow> drain_swap (lp_poster s) = (batch, p) \<Longrightarrow>
    loop_step Loop s (s\<lparr>lp_poster := p, lp_at := Draining batch\<rparr>)"
| Run: "lp_at s = Draining (fn # rest) \<Longrightarrow> loop_step Loop s (sys_run e fn rest s)"
| Done: "lp_at s = Draining [] \<Longrightarrow> loop_step Loop s (s\<lparr>lp_at := Idle\<rparr>)"
| Timer: "lp_at s = Idle \<Longrightarrow> i < length (ep_armed (lp_poster s)) \<Longrightarrow>
    loop_step Loop s (s\<lparr>lp_poster := onTimer i (lp_poster s)\<rparr>)"

definition sys_start :: "'w poster \<Rightarrow> 'w looped" where
  "sys_start p = \<lparr>lp_poster = p, lp_writers = 0, lp_at = Idle, lp_queued = [], lp_taken = [],
     lp_accepted = [], lp_dropped = []\<rparr>"

inductive loop_run :: "'w looped \<Rightarrow> actor list \<Rightarrow> 'w looped \<Rightarrow> bool" where
  Stop: "loop_run s [] s"
| Next: "loop_run s as s' \<Longrightarrow> loop_step a s' s'' \<Longrightarrow> loop_run s (as @ [a]) s''"

subsection \<open>What every thread keeps\<close>

fun batch_of :: "'w loop_at \<Rightarrow> 'w closure option list" where
  "batch_of (Draining b) = b"
| "batch_of Idle = []"
| "batch_of Woken = []"

definition works :: "'w closure option list \<Rightarrow> 'w multiset" where
  "works fs = mset (concat (map closure_work fs))"

definition armed_work :: "'w poster \<Rightarrow> 'w multiset" where
  "armed_work p = mset (map (tm_fn \<circ> snd) (ep_armed p))"

text \<open>A queue that is not empty has a wake-up under way.\<close>

definition wakeup_due :: "'w looped \<Rightarrow> bool" where
  "wakeup_due s \<longleftrightarrow> ep_pending (lp_poster s) = [] \<or> ep_counter (lp_poster s) \<noteq> 0 \<or> lp_writers s > 0 \<or> lp_at s = Woken"

definition in_order :: "'w looped \<Rightarrow> bool" where
  "in_order s \<longleftrightarrow> lp_queued s = lp_taken s @ batch_of (lp_at s) @ ep_pending (lp_poster s) \<and>
     None \<notin> set (lp_taken s @ batch_of (lp_at s) @ ep_pending (lp_poster s))"

definition conserved :: "'w looped \<Rightarrow> bool" where
  "conserved s \<longleftrightarrow> mset (lp_accepted s) =
     mset (ep_ran (lp_poster s)) + works (batch_of (lp_at s)) + works (ep_pending (lp_poster s)) +
     armed_work (lp_poster s) + mset (lp_dropped s)"

definition timers_ok :: "'w poster \<Rightarrow> bool" where
  "timers_ok p \<longleftrightarrow> distinct (map fst (ep_armed p)) \<and> (\<forall>t \<in> set (ep_armed p). fst t < ep_next p) \<and>
     set (ep_tracked p) \<subseteq> fst ` set (ep_armed p)"

lemma works_simps [simp]:
  "works [] = {#}" "works (f # fs) = mset (closure_work f) + works fs"
  "works (fs @ gs) = works fs + works gs"
  by (simp_all add: works_def)

lemma armed_erase:
  "i < length (ep_armed p) \<Longrightarrow>
   armed_work p = add_mset (tm_fn (snd (ep_armed p ! i))) (armed_work (p\<lparr>ep_armed := erase_at i (ep_armed p)\<rparr>))"
  using mset_map_erase_at [of i "ep_armed p" "tm_fn \<circ> snd"] by (simp add: armed_work_def)

lemma wake_counter: "ep_counter (post_wake p) \<noteq> 0"
proof (cases "ep_counter p \<ge> 0xFFFFFFFFFFFFFFFE")
  case True
  then show ?thesis by (auto simp: post_wake_def word_le_nat_alt)
next
  case False
  then have "unat (ep_counter p) + 1 < 2 ^ LENGTH(64)" by (simp add: word_le_nat_alt)
  then have "unat (ep_counter p + 1) = unat (ep_counter p) + 1" by (metis unat_1 unat_add_lem)
  then show ?thesis using False by (auto simp: post_wake_def)
qed

lemma wake_frame [simp]:
  "ep_pending (post_wake p) = ep_pending p" "ep_ran (post_wake p) = ep_ran p" "ep_armed (post_wake p) = ep_armed p"
  "ep_tracked (post_wake p) = ep_tracked p" "ep_next (post_wake p) = ep_next p" "armed_work (post_wake p) = armed_work p"
  by (simp_all add: post_wake_def armed_work_def)

text \<open>The effect of one callback on the queue, the log and the timers.\<close>

lemma drain_one_pending: "ep_pending (drain_one e fn p) = ep_pending p @ requeues e fn"
  by (auto simp: drain_one_def armTimer_def requeues_def post_def post_push_def call_fn_def
    split: option.splits closure.splits)

lemma drain_one_work:
  "mset (ep_ran (drain_one e fn p)) + armed_work (drain_one e fn p) + works (requeues e fn) + mset (loses e fn) =
   mset (ep_ran p) + armed_work p + mset (closure_work fn)"
  by (auto simp: drain_one_def armTimer_def requeues_def loses_def post_def post_push_def call_fn_def armed_work_def
    split: option.splits closure.splits)

lemma drain_one_counter: "requeues e fn \<noteq> [] \<Longrightarrow> ep_counter (drain_one e fn p) \<noteq> 0"
  by (auto simp: drain_one_def armTimer_def requeues_def post_def post_push_def wake_counter
    split: option.splits closure.splits if_splits)

lemma drain_one_counter_kept: "ep_counter p \<noteq> 0 \<Longrightarrow> ep_counter (drain_one e fn p) \<noteq> 0"
  by (auto simp: drain_one_def armTimer_def post_def post_push_def wake_counter call_fn_def
    split: option.splits closure.splits)

lemma drain_one_timers: "timers_ok p \<Longrightarrow> timers_ok (drain_one e fn p)"
  by (auto simp: timers_ok_def drain_one_def armTimer_def post_def post_push_def call_fn_def
    dest: less_SucI split: option.splits closure.splits)

lemma onTimer_timers: "timers_ok p \<Longrightarrow> timers_ok (onTimer i p)"
proof -
  assume ok: "timers_ok p"
  show "timers_ok (onTimer i p)"
  proof (cases "i < length (ep_armed p)")
    case i: True
    have "set (ep_armed p) \<subseteq> insert (ep_armed p ! i) (set (erase_at i (ep_armed p)))"
      using arg_cong [OF mset_map_erase_at [OF i, of id], of set_mset] by simp
    then have "set (removeAll (fst (ep_armed p ! i)) (ep_tracked p)) \<subseteq> fst ` set (erase_at i (ep_armed p))"
      using ok unfolding timers_ok_def by fastforce
    then show ?thesis
      using ok i set_erase_at_subset [of i "ep_armed p"] distinct_erase_at [of "map fst (ep_armed p)" i]
      by (auto simp: timers_ok_def onTimer_def call_fn_def Let_def erase_at_map)
  qed (use ok in \<open>simp add: onTimer_def\<close>)
qed

lemmas looped_defs = wakeup_due_def in_order_def conserved_def

definition loop_inv :: "'w looped \<Rightarrow> bool" where
  "loop_inv s \<longleftrightarrow> wakeup_due s \<and> in_order s \<and> conserved s \<and> timers_ok (lp_poster s)"

lemma push_inv:
  assumes "loop_inv s" shows "loop_inv (sys_push a fn s)"
  using assms by (auto simp: loop_inv_def looped_defs sys_push_def post_push_def timers_ok_def armed_work_def)

lemma run_inv:
  assumes inv: "loop_inv s" and pc: "lp_at s = Draining (fn # rest)"
  shows "loop_inv (sys_run e fn rest s)"
proof -
  let ?p = "lp_poster s" and ?q = "drain_one e fn (lp_poster s)"
  have "conserved (sys_run e fn rest s)"
    using inv pc drain_one_work [of e fn ?p]
    by (simp add: loop_inv_def conserved_def sys_run_def drain_one_pending algebra_simps)
  moreover have "None \<notin> set (requeues e fn)" by (auto simp: requeues_def split: option.splits closure.splits)
  then have "in_order (sys_run e fn rest s)"
    using inv pc by (simp add: loop_inv_def in_order_def sys_run_def drain_one_pending)
  moreover have "wakeup_due (sys_run e fn rest s)"
    using inv pc drain_one_counter [of e fn ?p] drain_one_counter_kept [of ?p e fn]
    by (auto simp: loop_inv_def wakeup_due_def sys_run_def drain_one_pending)
  moreover have "timers_ok ?q" using inv by (simp add: loop_inv_def drain_one_timers)
  ultimately show ?thesis by (simp add: loop_inv_def sys_run_def)
qed

lemma timer_inv:
  assumes inv: "loop_inv s" and pc: "lp_at s = Idle" and i: "i < length (ep_armed (lp_poster s))"
  shows "loop_inv (s\<lparr>lp_poster := onTimer i (lp_poster s)\<rparr>)"
  using inv pc i armed_erase [OF i] onTimer_timers [of "lp_poster s" i]
  by (simp add: loop_inv_def looped_defs) (simp add: onTimer_def call_fn_def Let_def armed_work_def)

lemma step_inv:
  assumes "loop_step a s s'" and "loop_inv s" shows "loop_inv s'"
  using assms
proof (induction rule: loop_step.induct)
  case (Push s al fn) then show ?case by (rule push_inv)
next
  case (PushAfter s al d fn) then show ?case by (rule push_inv)
next
  case (Wake s n)
  then show ?case
    by (simp add: loop_inv_def looped_defs wake_counter timers_ok_def)
next
  case (Readable s)
  then show ?case by (simp add: loop_inv_def looped_defs onReadable_read_def timers_ok_def armed_work_def)
next
  case (Swap s batch p)
  then show ?case by (clarsimp simp: loop_inv_def looped_defs drain_swap_def timers_ok_def armed_work_def)
next
  case (Run s fn rest e) then show ?case by (simp add: run_inv)
next
  case (Done s)
  then show ?case by (simp add: loop_inv_def looped_defs)
next
  case (Timer s i) then show ?case by (simp add: timer_inv)
qed

lemma start_inv: "EventLoopPoster_ctor True True = Inr p \<Longrightarrow> loop_inv (sys_start p)"
  by (auto simp: EventLoopPoster_ctor_def loop_inv_def looped_defs sys_start_def timers_ok_def armed_work_def)

lemma run_keeps_inv: "loop_run s as s' \<Longrightarrow> loop_inv s \<Longrightarrow> loop_inv s'"
  by (induction rule: loop_run.induct) (auto intro: step_inv)

lemmas reached_inv = run_keeps_inv [OF _ start_inv]

text \<open>The loop inside a batch: only its own steps shorten the batch, by one callback each.\<close>

inductive_cases loop_step_LoopE: "loop_step Loop s s'"
inductive_cases loop_step_OtherE: "loop_step Other s s'"

lemma other_step_at: "loop_step Other s s' \<Longrightarrow> lp_at s' = lp_at s \<and> lp_taken s' = lp_taken s"
  by (erule loop_step_OtherE) (auto simp: sys_push_def split: prod.splits bool.splits)

lemma loop_step_batch:
  "loop_step Loop s s' \<Longrightarrow> lp_at s = Draining (fn # rest) \<Longrightarrow>
   lp_at s' = Draining rest \<and> lp_taken s' = lp_taken s @ [fn]"
  by (erule loop_step_LoopE) (auto simp: sys_run_def)

lemma drain_progress:
  assumes "loop_run s as s'" and "lp_at s = Draining b" and "count (mset as) Loop \<le> length b"
  shows "lp_at s' = Draining (drop (count (mset as) Loop) b) \<and>
    lp_taken s' = lp_taken s @ take (count (mset as) Loop) b"
  using assms
proof (induction rule: loop_run.induct)
  case (Stop s)
  then show ?case by simp
next
  case (Next s as s' a s'')
  show ?case
  proof (cases a)
    case Other
    then show ?thesis using Next other_step_at [of s' s''] by simp
  next
    case Loop
    let ?n = "count (mset as) Loop"
    have n: "?n < length b" and at: "lp_at s' = Draining (drop ?n b)" "lp_taken s' = lp_taken s @ take ?n b"
      using Next Loop by auto
    have "lp_at s' = Draining (b ! ?n # drop (Suc ?n) b)" using at n by (simp add: Cons_nth_drop_Suc)
    then show ?thesis using loop_step_batch Next(2) Loop at(2) n by (fastforce simp: take_Suc_conv_app_nth)
  qed
qed

subsection \<open>The properties\<close>

text \<open>
  A run used as a sample: the constructor's poster; a thread queues the token \<open>7\<close> and wakes the
  loop, which takes the batch, runs it, while another thread queues the token \<open>9\<close> with a delay.
\<close>

definition fresh_poster :: "nat poster" where
  "fresh_poster = \<lparr>ep_pending = [], ep_counter = 0, ep_armed = [], ep_tracked = [], ep_next = 0, ep_ran = []\<rparr>"

definition sample_draining :: "nat looped" where
  "sample_draining = \<lparr>lp_poster = fresh_poster\<lparr>ep_pending := []\<rparr>, lp_writers = 0, lp_at = Draining [Some (Call 7)],
     lp_queued = [Some (Call 7)], lp_taken = [], lp_accepted = [7], lp_dropped = []\<rparr>"

definition sample_posted :: "nat looped" where
  "sample_posted = sys_push True (postAfter_closure 5 (Some 9)) sample_draining"

definition sample_ran :: "nat looped" where
  "sample_ran = sys_run \<lparr>ae_now = None, ae_new_ok = True, ae_add_time_ok = True, ae_push_ok = True, ae_insert_ok = True\<rparr>
     (Some (Call 7)) [] sample_posted"

lemma fresh_poster_built: "EventLoopPoster_ctor True True = Inr fresh_poster"
  by (simp add: EventLoopPoster_ctor_def fresh_poster_def)

lemma sample_run_to_draining: "loop_run (sys_start fresh_poster) [Other, Other, Loop, Loop] sample_draining"
proof -
  let ?s1 = "sys_push True (map_option Call (Some (7::nat))) (sys_start fresh_poster)"
  let ?s2 = "?s1\<lparr>lp_poster := post_wake (lp_poster ?s1), lp_writers := 0\<rparr>"
  let ?s3 = "?s2\<lparr>lp_poster := onReadable_read (lp_poster ?s2), lp_at := Woken\<rparr>"
  let ?s4 = "?s3\<lparr>lp_poster := lp_poster ?s3\<lparr>ep_pending := []\<rparr>, lp_at := Draining [Some (Call 7)]\<rparr>"
  have 1: "loop_run (sys_start fresh_poster) ([] @ [Other]) ?s1" by (rule loop_run.Next [OF loop_run.Stop loop_step.Push])
  have 2: "loop_step Other ?s1 ?s2"
    by (rule loop_step.Wake) (simp add: sys_push_def post_push_def sys_start_def)
  have 3: "loop_step Loop ?s2 ?s3"
    by (rule loop_step.Readable) (simp add: sys_push_def post_push_def sys_start_def)
  have 4: "loop_step Loop ?s3 ?s4"
    by (rule loop_step.Swap)
      (simp_all add: drain_swap_def onReadable_read_def sys_push_def post_push_def sys_start_def fresh_poster_def)
  have "?s4 = sample_draining"
    by (simp add: sample_draining_def onReadable_read_def sys_push_def post_push_def sys_start_def fresh_poster_def post_wake_def)
  then show ?thesis using loop_run.Next [OF loop_run.Next [OF loop_run.Next [OF 1 2] 3] 4] by simp
qed

lemma sample_run_on: "loop_run sample_draining [Other, Loop] sample_ran"
proof -
  have "loop_step Other sample_draining sample_posted"
    unfolding sample_posted_def by (rule loop_step.PushAfter)
  then have "loop_run sample_draining ([] @ [Other]) sample_posted" by (rule loop_run.Next [OF loop_run.Stop])
  moreover have "loop_step Loop sample_posted sample_ran"
    unfolding sample_ran_def
    by (rule loop_step.Run) (simp add: sample_posted_def sample_draining_def sys_push_def post_push_def postAfter_closure_def)
  ultimately have "loop_run sample_draining (([] @ [Other]) @ [Loop]) sample_ran" by (rule loop_run.Next)
  then show ?thesis by simp
qed

text \<open>
  C24: no wake-up is lost. Whatever the threads do, and however their insertions and writes
  interleave with the loop's read and swap, a callback that waits in the queue finds the eventfd
  readable, or its poster about to write it, or the loop past its read and about to take the
  queue: the read comes before the swap, and the counter cannot wrap back to zero.
\<close>

theorem no_lost_wakeup:
  assumes "EventLoopPoster_ctor True True = Inr p" and "loop_run (sys_start p) as s"
    and "ep_pending (lp_poster s) \<noteq> []"
  shows "ep_counter (lp_poster s) \<noteq> 0 \<or> lp_writers s > 0 \<or> lp_at s = Woken"
  using reached_inv [OF assms(2,1)] assms(3) by (auto simp: loop_inv_def wakeup_due_def)

theorem no_lost_wakeup_witness:
  "ep_pending (lp_poster (sys_push True (Some (Call 7)) (sys_start fresh_poster))) = [Some (Call 7)] \<and>
   (let s = sys_push True (Some (Call 7)) (sys_start fresh_poster) in
     ep_counter (lp_poster s) \<noteq> 0 \<or> lp_writers s > 0 \<or> lp_at s = Woken)"
proof -
  let ?s = "sys_push True (map_option Call (Some (7::nat))) (sys_start fresh_poster)"
  have run: "loop_run (sys_start fresh_poster) ([] @ [Other]) ?s" by (rule loop_run.Next [OF loop_run.Stop loop_step.Push])
  have "ep_pending (lp_poster ?s) = [Some (Call 7)]" by (simp add: sys_push_def post_push_def sys_start_def fresh_poster_def)
  then show ?thesis using no_lost_wakeup [OF fresh_poster_built run] by (simp add: Let_def)
qed

text \<open>
  C23: the loop runs what it was handed, once and in order. Everything ever queued was taken from
  the queue in the order it came, or is in the batch, or still waits, in that order; and every
  piece of work accepted has run exactly once, or is queued, or sits in an armed timer, or was
  dropped because memory ran out while its timer was set up. No timer is tracked after it fired,
  so the destructor frees each at most once.
\<close>

theorem posted_work_runs_once:
  assumes "EventLoopPoster_ctor True True = Inr p" and "loop_run (sys_start p) as s"
  shows "lp_queued s = lp_taken s @ batch_of (lp_at s) @ ep_pending (lp_poster s) \<and>
    mset (lp_accepted s) = mset (ep_ran (lp_poster s)) + works (batch_of (lp_at s)) +
      works (ep_pending (lp_poster s)) + armed_work (lp_poster s) + mset (lp_dropped s) \<and>
    set (ep_tracked (lp_poster s)) \<subseteq> fst ` set (ep_armed (lp_poster s))"
  using reached_inv [OF assms(2,1)] by (simp add: loop_inv_def in_order_def conserved_def timers_ok_def)

theorem posted_work_runs_once_witness:
  "mset (lp_accepted sample_draining) = mset (ep_ran (lp_poster sample_draining)) +
     works (batch_of (lp_at sample_draining)) + works (ep_pending (lp_poster sample_draining)) +
     armed_work (lp_poster sample_draining) + mset (lp_dropped sample_draining) \<and>
   lp_accepted sample_draining = [7]"
  using posted_work_runs_once [OF fresh_poster_built sample_run_to_draining] by (simp add: sample_draining_def)



end
