(* ===== verification/Operation_Wire.thy ===== *)
theory Operation_Wire
  imports Pkcs11_Client
begin

text \<open>
  The exported operation (\<^verbatim>\<open>agent/src/operations/Operation1Adaptor.h\<close> and \<^verbatim>\<open>.cpp\<close>): the
  properties of \<^verbatim>\<open>Operation1\<close>, the cancel route, and the wire shapes of the identity and
  certificate results. The snapshots come from the agent library with the members the
  marshalling reads; a sent signal is an element of a log, and an emit that throws is caught
  and leaves no element.
\<close>

subsection \<open>Snapshots\<close>

datatype field_type = FieldText | FieldDate | FieldBinary | FieldPhoto

record field_snapshot =
  fs_fieldKey :: string
  fs_labelKey :: string
  fs_labelFallback :: string
  fs_type :: field_type
  fs_textValue :: string
  fs_binaryValue :: bytes

record group_snapshot =
  gs_groupKey :: string
  gs_fields :: "field_snapshot list"

record card_read_snapshot =
  cs_groups :: "group_snapshot list"

record 'k cert_snapshot =
  ct_certId :: string
  ct_signingCapable :: bool
  ct_fields :: "group_snapshot list"
  ct_keyUsageBits :: u32
  ct_ekuOids :: "string list"
  ct_chainSubjectCns :: "string list"
  ct_trustStatus :: u32
  ct_alwaysAuthenticate :: bool
  ct_keyId :: bytes
  ct_keyType :: 'k
  ct_keyBits :: u32
  ct_canDerive :: bool

subsection \<open>The identity wire\<close>

type_synonym identity_field = "string \<times> string \<times> string \<times> variant"
type_synonym identity_group_wire = "(string, identity_field) smap"
type_synonym identity_wire = "(string, identity_group_wire) smap"

definition fieldTypeWire :: "field_type \<Rightarrow> string" where
  "fieldTypeWire t = (case t of FieldText \<Rightarrow> ''text'' | FieldDate \<Rightarrow> ''date'' | FieldBinary \<Rightarrow> ''binary''
     | FieldPhoto \<Rightarrow> ''photo'')"

definition field_wire :: "field_snapshot \<Rightarrow> identity_field" where
  "field_wire f = (fs_labelKey f, fs_labelFallback f, fieldTypeWire (fs_type f),
     if fs_type f = FieldText \<or> fs_type f = FieldDate then VString (fs_textValue f) else VBytes (fs_binaryValue f))"

primrec group_loop :: "field_snapshot list \<Rightarrow> identity_group_wire \<Rightarrow> identity_group_wire" where
  "group_loop [] wire = wire"
| "group_loop (f # fs) wire =
    (if fs_type f = FieldPhoto then group_loop fs wire
     else group_loop fs (smap_assign (fs_fieldKey f) (field_wire f) wire))"

definition buildIdentity1GroupWire :: "group_snapshot \<Rightarrow> identity_group_wire" where
  "buildIdentity1GroupWire g = group_loop (gs_fields g) []"

primrec identity_loop :: "group_snapshot list \<Rightarrow> identity_wire \<Rightarrow> identity_wire" where
  "identity_loop [] wire = wire"
| "identity_loop (g # gs) wire =
    (let gfields = buildIdentity1GroupWire g in
     identity_loop gs (if gfields = [] then wire else smap_assign (gs_groupKey g) gfields wire))"

definition buildIdentity1Wire :: "card_read_snapshot \<Rightarrow> identity_wire" where
  "buildIdentity1Wire snap = identity_loop (cs_groups snap) []"

subsection \<open>The certificate wire\<close>

text \<open>
  \<^verbatim>\<open>fields[g.groupKey]\<close> creates the group's map when it is absent, and the loop assigns into it.
\<close>

primrec cert_field_loop :: "field_snapshot list \<Rightarrow> (string, string \<times> string \<times> variant) smap \<Rightarrow>
    (string, string \<times> string \<times> variant) smap" where
  "cert_field_loop [] fmap = fmap"
| "cert_field_loop (f # fs) fmap = cert_field_loop fs
    (smap_assign (fs_fieldKey f) (fs_labelKey f, fs_labelFallback f, VString (fs_textValue f)) fmap)"

primrec cert_group_loop :: "group_snapshot list \<Rightarrow> cert_fields \<Rightarrow> cert_fields" where
  "cert_group_loop [] groups = groups"
| "cert_group_loop (g # gs) groups =
    (let fmap = (case smap_find groups (gs_groupKey g) of Some m \<Rightarrow> m | None \<Rightarrow> []) in
     cert_group_loop gs (smap_assign (gs_groupKey g) (cert_field_loop (gs_fields g) fmap) groups))"

definition cert_tuple :: "('k \<Rightarrow> string) \<Rightarrow> 'k cert_snapshot \<Rightarrow> cert_result" where
  "cert_tuple keyTypeToken c =
    \<lparr>cr_certId = ct_certId c, cr_signingCapable = ct_signingCapable c,
     cr_fields = cert_group_loop (ct_fields c) [], cr_keyUsageBits = ct_keyUsageBits c,
     cr_ekuOids = ct_ekuOids c, cr_chainSubjectCns = ct_chainSubjectCns c, cr_trustStatus = ct_trustStatus c,
     cr_alwaysAuthenticate = ct_alwaysAuthenticate c, cr_keyId = ct_keyId c,
     cr_keyType = keyTypeToken (ct_keyType c), cr_keyBits = ct_keyBits c, cr_canDerive = ct_canDerive c\<rparr>"

definition buildCertificates1Wire :: "('k \<Rightarrow> string) \<Rightarrow> 'k cert_snapshot list \<Rightarrow> cert_result list" where
  "buildCertificates1Wire keyTypeToken certs = map (cert_tuple keyTypeToken) certs"

subsection \<open>The operation object\<close>

record operation_state =
  os_phase :: u32
  os_completed :: bool
  os_terminalStatus :: u32
  os_terminalErrorCode :: u32

text \<open>\<open>route_run\<close> says whether the route's function is set; running it is an effect of its own.\<close>

record cancel_route =
  route_owner :: string
  route_run :: bool

record op_adaptor =
  ad_state :: "operation_state option"
  ad_cancel :: cancel_route

definition op_phase :: "op_adaptor \<Rightarrow> u32" where
  "op_phase a = (case ad_state a of Some s \<Rightarrow> os_phase s | None \<Rightarrow> 0)"

definition op_completed :: "op_adaptor \<Rightarrow> bool" where
  "op_completed a \<longleftrightarrow> (case ad_state a of Some s \<Rightarrow> os_completed s | None \<Rightarrow> False)"

definition terminalStatus :: "op_adaptor \<Rightarrow> u32" where
  "terminalStatus a = (case ad_state a of Some s \<Rightarrow> os_terminalStatus s | None \<Rightarrow> 0)"

definition terminalErrorCode :: "op_adaptor \<Rightarrow> u32" where
  "terminalErrorCode a = (case ad_state a of Some s \<Rightarrow> os_terminalErrorCode s | None \<Rightarrow> 0)"

text \<open>Whether a \<^verbatim>\<open>Cancel\<close> call runs the route; the reply is empty either way.\<close>

definition Cancel :: "op_adaptor \<Rightarrow> string option \<Rightarrow> bool" where
  "Cancel a sender =
    (if route_owner (ad_cancel a) = [] \<or> \<not> route_run (ad_cancel a) then False
     else case sender of None \<Rightarrow> False | Some s \<Rightarrow> route_owner (ad_cancel a) = s)"

subsection \<open>What the identity wire holds\<close>

definition plain_fields :: "field_snapshot list \<Rightarrow> field_snapshot list" where
  "plain_fields fs = filter (\<lambda>f. fs_type f \<noteq> FieldPhoto) fs"

lemma plain_fields_simps [simp]:
  "plain_fields [] = []"
  "plain_fields (f # fs) = (if fs_type f = FieldPhoto then plain_fields fs else f # plain_fields fs)"
  by (simp_all add: plain_fields_def)

text \<open>The last binding of a key in a list of pairs.\<close>

definition last_of :: "('a \<times> 'b) list \<Rightarrow> 'a \<Rightarrow> 'b option" where
  "last_of kvs = map_of (rev kvs)"

lemma last_of_simps [simp]:
  "last_of [] k = None"
  "last_of (kv # kvs) k = (case last_of kvs k of Some v \<Rightarrow> Some v | None \<Rightarrow> if fst kv = k then Some (snd kv) else None)"
  by (cases kv; auto simp: last_of_def map_add_def split: option.splits)+

text \<open>A loop of assignments leaves the last binding of each key over what was there.\<close>

lemma fold_assign:
  assumes "smap_ok m"
  shows "smap_ok (fold (\<lambda>(k, v). smap_assign k v) kvs m) \<and>
    smap_find (fold (\<lambda>(k, v). smap_assign k v) kvs m) k =
      (case last_of kvs k of Some v \<Rightarrow> Some v | None \<Rightarrow> smap_find m k)"
  using assms
proof (induction kvs arbitrary: m)
  case (Cons kv kvs)
  obtain k' v where kv: "kv = (k', v)" by force
  have "smap_ok (smap_assign k' v m)" using Cons.prems by (rule smap_ok_assign)
  from Cons.IH [OF this] show ?case
    using Cons.prems by (auto simp: kv smap_find_assign split: option.splits)
qed simp

lemma group_loop_fold:
  "group_loop fs wire = fold (\<lambda>(k, v). smap_assign k v) (map (\<lambda>f. (fs_fieldKey f, field_wire f)) (plain_fields fs)) wire"
  by (induction fs arbitrary: wire) simp_all

lemma smap_assign_not_Nil [simp]: "smap_assign k v m \<noteq> []"
  by (induction k v m rule: smap_assign.induct) simp_all

lemma fold_assign_Nil: "fold (\<lambda>(k, v). smap_assign k v) kvs m = [] \<longleftrightarrow> kvs = [] \<and> m = []"
proof (induction kvs arbitrary: m)
  case (Cons kv kvs)
  then show ?case by (cases kv) simp
qed simp

lemma group_wire_empty: "buildIdentity1GroupWire g = [] \<longleftrightarrow> plain_fields (gs_fields g) = []"
  by (simp add: buildIdentity1GroupWire_def group_loop_fold fold_assign_Nil)

lemma group_wire_find:
  "smap_find (buildIdentity1GroupWire g) k =
     last_of (map (\<lambda>f. (fs_fieldKey f, field_wire f)) (plain_fields (gs_fields g))) k"
  using fold_assign [OF smap_ok_Nil, of "map (\<lambda>f. (fs_fieldKey f, field_wire f)) (plain_fields (gs_fields g))" k]
  by (simp add: buildIdentity1GroupWire_def group_loop_fold smap_find_def [of "[]"] split: option.splits)

definition shown_groups :: "group_snapshot list \<Rightarrow> group_snapshot list" where
  "shown_groups gs = filter (\<lambda>g. plain_fields (gs_fields g) \<noteq> []) gs"

lemma identity_loop_fold:
  "identity_loop gs wire =
     fold (\<lambda>(k, v). smap_assign k v) (map (\<lambda>g. (gs_groupKey g, buildIdentity1GroupWire g)) (shown_groups gs)) wire"
  by (induction gs arbitrary: wire) (simp_all add: shown_groups_def Let_def group_wire_empty)

lemma identity_wire_find:
  "smap_find (buildIdentity1Wire s) k =
     last_of (map (\<lambda>g. (gs_groupKey g, buildIdentity1GroupWire g)) (shown_groups (cs_groups s))) k"
  using fold_assign [OF smap_ok_Nil, of "map (\<lambda>g. (gs_groupKey g, buildIdentity1GroupWire g)) (shown_groups (cs_groups s))" k]
  by (simp add: buildIdentity1Wire_def identity_loop_fold smap_find_def [of "[]"] split: option.splits)

lemma last_of_distinct:
  "distinct (map fst kvs) \<Longrightarrow> last_of kvs k = Some v \<longleftrightarrow> (k, v) \<in> set kvs"
  by (simp add: last_of_def rev_map [symmetric])

subsection \<open>What the certificate wire holds\<close>

text \<open>Every field of every group of a key, in order: what the certificate map of that key ends with.\<close>

definition fields_under :: "string \<Rightarrow> group_snapshot list \<Rightarrow> field_snapshot list" where
  "fields_under k gs = concat (map gs_fields (filter (\<lambda>g. gs_groupKey g = k) gs))"

definition cert_field :: "field_snapshot \<Rightarrow> string \<times> (string \<times> string \<times> variant)" where
  "cert_field f = (fs_fieldKey f, (fs_labelKey f, fs_labelFallback f, VString (fs_textValue f)))"

lemma cert_field_loop_fold:
  "cert_field_loop fs m = fold (\<lambda>(k, v). smap_assign k v) (map cert_field fs) m"
  by (induction fs arbitrary: m) (simp_all add: cert_field_def)

lemma cert_group_loop_find:
  assumes "smap_ok m"
  shows "smap_find (cert_group_loop gs m) k =
    (if \<exists>g \<in> set gs. gs_groupKey g = k
     then Some (fold (\<lambda>(k, v). smap_assign k v) (map cert_field (fields_under k gs)) (case smap_find m k of Some f \<Rightarrow> f | None \<Rightarrow> []))
     else smap_find m k)"
  using assms
proof (induction gs arbitrary: m)
  case (Cons g gs)
  let ?f = "cert_field_loop (gs_fields g) (case smap_find m (gs_groupKey g) of Some f \<Rightarrow> f | None \<Rightarrow> [])"
  let ?m = "smap_assign (gs_groupKey g) ?f m"
  have "smap_ok ?m" using Cons.prems by (rule smap_ok_assign)
  from Cons.IH [OF this] show ?case
    using Cons.prems by (auto simp: Let_def smap_find_assign fields_under_def cert_field_loop_fold)
qed simp

subsection \<open>Properties\<close>

text \<open>Only the launcher's own bus name runs the cancel route, and an ownerless route never runs.\<close>

lemma cancel_only_by_owner:
  "Cancel a sender \<longleftrightarrow> route_run (ad_cancel a) \<and> route_owner (ad_cancel a) \<noteq> [] \<and> sender = Some (route_owner (ad_cancel a))"
  by (auto simp: Cancel_def split: option.splits)

text \<open>
  The identity result and the progressive group signals agree. For a read whose groups have
  distinct keys, the final result holds under a key exactly the field map that group's own
  signal carried, and holds no group whose map is empty; and where a group's field keys are
  distinct its map holds exactly its fields that are not photos, each with its labels, its type
  word and its text or bytes.
\<close>

theorem identity_result_is_groups:
  assumes "distinct (map gs_groupKey (cs_groups s))"
  shows "(smap_find (buildIdentity1Wire s) k = Some wire \<longleftrightarrow>
      (\<exists>g \<in> set (cs_groups s). gs_groupKey g = k \<and> wire = buildIdentity1GroupWire g \<and> wire \<noteq> [])) \<and>
    (distinct (map fs_fieldKey (gs_fields g)) \<longrightarrow>
      (smap_find (buildIdentity1GroupWire g) j = Some v \<longleftrightarrow>
        (\<exists>f \<in> set (gs_fields g). fs_fieldKey f = j \<and> fs_type f \<noteq> FieldPhoto \<and> v = field_wire f)))"
proof
  let ?kvs = "map (\<lambda>g. (gs_groupKey g, buildIdentity1GroupWire g)) (shown_groups (cs_groups s))"
  have "distinct (map fst ?kvs)" using assms by (simp add: shown_groups_def distinct_map_filter comp_def)
  then show "smap_find (buildIdentity1Wire s) k = Some wire \<longleftrightarrow>
      (\<exists>g \<in> set (cs_groups s). gs_groupKey g = k \<and> wire = buildIdentity1GroupWire g \<and> wire \<noteq> [])"
    unfolding identity_wire_find by (auto simp: last_of_distinct shown_groups_def group_wire_empty)
next
  let ?fs = "map (\<lambda>f. (fs_fieldKey f, field_wire f)) (plain_fields (gs_fields g))"
  show "distinct (map fs_fieldKey (gs_fields g)) \<longrightarrow>
      (smap_find (buildIdentity1GroupWire g) j = Some v \<longleftrightarrow>
        (\<exists>f \<in> set (gs_fields g). fs_fieldKey f = j \<and> fs_type f \<noteq> FieldPhoto \<and> v = field_wire f))"
  proof
    assume "distinct (map fs_fieldKey (gs_fields g))"
    then have "distinct (map fst ?fs)" by (simp add: plain_fields_def distinct_map_filter comp_def)
    then show "smap_find (buildIdentity1GroupWire g) j = Some v \<longleftrightarrow>
        (\<exists>f \<in> set (gs_fields g). fs_fieldKey f = j \<and> fs_type f \<noteq> FieldPhoto \<and> v = field_wire f)"
      unfolding group_wire_find by (auto simp: last_of_distinct plain_fields_def)
  qed
qed

definition sample_field :: field_snapshot where
  "sample_field = \<lparr>fs_fieldKey = ''cn'', fs_labelKey = ''l'', fs_labelFallback = ''Name'', fs_type = FieldText,
     fs_textValue = ''Ana'', fs_binaryValue = []\<rparr>"

definition sample_group :: group_snapshot where
  "sample_group = \<lparr>gs_groupKey = ''subject'', gs_fields = [sample_field, sample_field\<lparr>fs_fieldKey := ''ph'', fs_type := FieldPhoto\<rparr>]\<rparr>"

theorem identity_result_is_groups_witness:
  "smap_find (buildIdentity1Wire \<lparr>cs_groups = [sample_group]\<rparr>) ''subject'' = Some (buildIdentity1GroupWire sample_group) \<and>
   smap_find (buildIdentity1GroupWire sample_group) ''cn'' = Some (''l'', ''Name'', ''text'', VString ''Ana'')"
proof -
  let ?s = "\<lparr>cs_groups = [sample_group]\<rparr>"
  note P = identity_result_is_groups [of ?s "''subject''" "buildIdentity1GroupWire sample_group" sample_group
      "''cn''" "(''l'', ''Name'', ''text'', VString ''Ana'')"]
  have "buildIdentity1GroupWire sample_group \<noteq> []" by (simp add: group_wire_empty) (simp add: sample_group_def sample_field_def)
  then show ?thesis using P by (simp add: sample_group_def sample_field_def field_wire_def fieldTypeWire_def)
qed

text \<open>
  What the module should make of a snapshot: its identity and key facts as they are, and as subject
  name the text of the last field \<open>cn\<close> of the groups \<open>subject\<close>, empty when there is none.
\<close>

definition subject_of :: "'k cert_snapshot \<Rightarrow> string" where
  "subject_of c = (case last_of (map cert_field (fields_under ''subject'' (ct_fields c))) ''cn'' of
     Some (_, _, VString s) \<Rightarrow> s | _ \<Rightarrow> [])"

definition neutral_of :: "'k cert_snapshot \<Rightarrow> 'k neutral_cert" where
  "neutral_of c = \<lparr>nc_certId = ct_certId c, nc_signingCapable = ct_signingCapable c,
     nc_keyUsageBits = ct_keyUsageBits c, nc_alwaysAuthenticate = ct_alwaysAuthenticate c, nc_keyId = ct_keyId c,
     nc_keyType = ct_keyType c, nc_keyBits = ct_keyBits c, nc_canDerive = ct_canDerive c, nc_subjectCn = subject_of c\<rparr>"

lemma last_of_cert_field: "last_of (map cert_field fs) k = Some v \<Longrightarrow> \<exists>a b s. v = (a, b, VString s)"
  by (induction fs) (auto simp: cert_field_def split: option.splits if_splits)

lemma subjectCn_wire: "subjectCn (cr_fields (cert_tuple tok c)) = Inr (subject_of c)"
proof -
  let ?fs = "map cert_field (fields_under ''subject'' (ct_fields c))"
  have group: "smap_find (cr_fields (cert_tuple tok c)) ''subject'' =
      (if \<exists>g \<in> set (ct_fields c). gs_groupKey g = ''subject'' then Some (fold (\<lambda>(k, v). smap_assign k v) ?fs []) else None)"
    using cert_group_loop_find [OF smap_ok_Nil, of "ct_fields c" "''subject''"]
    by (simp add: cert_tuple_def smap_find_def [of "[]"])
  have cn: "smap_find (fold (\<lambda>(k, v). smap_assign k v) ?fs []) ''cn'' = last_of ?fs ''cn''"
    using fold_assign [OF smap_ok_Nil, of ?fs "''cn''"] by (simp add: smap_find_def [of "[]"] split: option.splits)
  have none: "\<not> (\<exists>g \<in> set (ct_fields c). gs_groupKey g = ''subject'') \<Longrightarrow> ?fs = []"
    by (auto simp: fields_under_def filter_empty_conv)
  show ?thesis
  proof (cases "last_of ?fs ''cn''")
    case None
    then show ?thesis using group cn by (simp add: subjectCn_def subject_of_def)
  next
    case (Some v)
    moreover from this have "\<exists>g \<in> set (ct_fields c). gs_groupKey g = ''subject''" using none by (metis last_of_simps(1) option.distinct(1))
    moreover obtain a b s where "v = (a, b, VString s)" using last_of_cert_field [OF Some] by blast
    ultimately show ?thesis using group cn by (simp add: subjectCn_def subject_of_def)
  qed
qed

text \<open>What the module collects from the wire the agent builds is what the agent's snapshots say.\<close>

lemma certificates_cross_wire:
  assumes "\<And>k. keyTypeFromToken L (tok k) = k"
  shows "collectCerts L preAuth (buildCertificates1Wire tok certs) acc =
    Inr (acc @ List.map_filter (\<lambda>c. certEntryFrom L (neutral_of c) preAuth) certs)"
proof (induction certs arbitrary: acc)
  case (Cons c certs)
  have cn: "subjectCn (cr_fields (cert_tuple tok c)) = Inr (subject_of c)" by (rule subjectCn_wire)
  show ?case
  proof (cases "certEntryFrom L (neutral_of c) preAuth")
    case None
    then show ?thesis using Cons.IH [of acc] cn assms
      by (simp add: buildCertificates1Wire_def map_filter_simps) (simp add: cert_tuple_def neutral_of_def)
  next
    case (Some e)
    then show ?thesis using Cons.IH [of "acc @ [e]"] cn assms
      by (simp add: buildCertificates1Wire_def map_filter_simps) (simp add: cert_tuple_def neutral_of_def)
  qed
qed (simp add: buildCertificates1Wire_def map_filter_simps)

text \<open>A library with two key types, \<^const>\<open>True\<close> for RSA, whose entries are the subject name and the key type.\<close>

definition two_key_lib :: "(bool, string \<times> bool, nat) module_lib" where
  "two_key_lib =
     \<lparr>operationError = 2, codeCardRemoved = 1, codeCommunicationError = 2, codeWatchdogTimeout = 3,
      codeRateLimited = 4, keyTypeFromToken = (\<lambda>s. s = ''rsa''), keyTypeRsa = True, keyTypeEc = False,
      certEntryFrom = (\<lambda>nc pre. Some (nc_subjectCn nc, nc_keyType nc)), tokenLabelFor = (\<lambda>es name. name),
      tokenSerialFor = (\<lambda>p. p), mechanismToken = (\<lambda>m. ''rsa-pkcs''), signMechanismFromToken = (\<lambda>t. Some 0),
      rsaPkcs1Decrypt = 1\<rparr>"

definition two_key_token :: "bool \<Rightarrow> string" where
  "two_key_token rsa = (if rsa then ''rsa'' else ''ec'')"

definition sample_cert_snapshot :: "bool cert_snapshot" where
  "sample_cert_snapshot = \<lparr>ct_certId = ''c1'', ct_signingCapable = True, ct_fields = [sample_group], ct_keyUsageBits = 1,
     ct_ekuOids = [], ct_chainSubjectCns = [], ct_trustStatus = 0, ct_alwaysAuthenticate = False, ct_keyId = [1],
     ct_keyType = True, ct_keyBits = 2048, ct_canDerive = False\<rparr>"

end
