(* ===== verification/Operation_Channels.thy ===== *)
theory Operation_Channels
  imports Result_Store Operation_Wire
begin

text \<open>
  The typed channels of an operation (\<^verbatim>\<open>agent/src/dbus/OperationAdaptorFactory.cpp\<close>, with
  \<^verbatim>\<open>CredentialOutcomeNames.cpp\<close>): what \<^verbatim>\<open>emitResult\<close> does with a payload (seal, publish,
  signal) and what \<^verbatim>\<open>GetResult\<close> answers a late subscriber. The world of a call is the
  descriptor world of the result store, extended by the outcome of each signal emission and the
  log of the signals that left. A descriptor on a signal is recorded as the file it refers to
  at that moment: the bus duplicates it, and the sender's own copy is closed afterwards.
\<close>

subsection \<open>Metadata and credentials on the wire\<close>

type_synonym wire_dict = "(string, variant) smap"

record sign_meta =
  sm_format :: string
  sm_level :: string
  sm_tsaUsed :: bool
  sm_chainComplete :: bool

definition toMetaVariants :: "sign_meta \<Rightarrow> wire_dict" where
  "toMetaVariants meta =
    smap_emplace ''chainComplete'' (VBool (sm_chainComplete meta))
     (smap_emplace ''tsaUsed'' (VBool (sm_tsaUsed meta))
      (smap_emplace ''level'' (VString (sm_level meta))
       (smap_emplace ''format'' (VString (sm_format meta)) [])))"

datatype credential_outcome =
    CoUnspecified | CoOk | CoUserCancelled | CoMissingFields | CoInvalidPin | CoBlocked | CoPluginError
  | CoUnsupported | CoKeyActivationFailed | CoCardRemoved | CoEntryExpired

definition credentialOutcomeToken :: "credential_outcome \<Rightarrow> string" where
  "credentialOutcomeToken outcome =
    (case outcome of
       CoUnspecified \<Rightarrow> ''unspecified'' | CoOk \<Rightarrow> ''ok'' | CoUserCancelled \<Rightarrow> ''userCancelled''
     | CoMissingFields \<Rightarrow> ''missingFields'' | CoInvalidPin \<Rightarrow> ''invalidPin'' | CoBlocked \<Rightarrow> ''blocked''
     | CoPluginError \<Rightarrow> ''pluginError'' | CoUnsupported \<Rightarrow> ''unsupported''
     | CoKeyActivationFailed \<Rightarrow> ''keyActivationFailed'' | CoCardRemoved \<Rightarrow> ''cardRemoved''
     | CoEntryExpired \<Rightarrow> ''entryExpired'')"

record credential_op_result =
  cop_outcome :: credential_outcome
  cop_blocked :: bool
  cop_retriesLeft :: "32 word option"

text \<open>
  A credential record as the marshalling reads it. The member \<open>recovery\<close> is carried as the variant
  it becomes: its C++ type is the agent library's.
\<close>

record credential_record =
  cdr_id :: string
  cdr_label :: string
  cdr_kind :: string
  cdr_state :: string
  cdr_retriesLeft :: "32 word option"
  cdr_retriesMax :: "32 word option"
  cdr_usesLeft :: "32 word option"
  cdr_usesMax :: "32 word option"
  cdr_unblocksLeft :: "32 word option"
  cdr_canChange :: bool
  cdr_unblockable :: bool
  cdr_activatable :: bool
  cdr_keyActivationPending :: bool
  cdr_keyActivatable :: bool
  cdr_recovery :: variant
  cdr_blockedGuidanceKey :: "string option"
  cdr_blockedGuidanceFallback :: "string option"
  cdr_keyActivationGuidanceKey :: "string option"
  cdr_keyActivationGuidanceFallback :: "string option"

definition emplaceInt :: "string \<Rightarrow> 32 word option \<Rightarrow> wire_dict \<Rightarrow> wire_dict" where
  "emplaceInt key v out = (case v of Some i \<Rightarrow> smap_emplace key (VInt32 i) out | None \<Rightarrow> out)"

definition emplaceStr :: "string \<Rightarrow> string option \<Rightarrow> wire_dict \<Rightarrow> wire_dict" where
  "emplaceStr key v out = (case v of Some s \<Rightarrow> smap_emplace key (VString s) out | None \<Rightarrow> out)"

definition toCredentialResultDict :: "credential_op_result \<Rightarrow> wire_dict" where
  "toCredentialResultDict r =
    emplaceInt ''retries_left'' (cop_retriesLeft r)
     (smap_emplace ''blocked'' (VBool (cop_blocked r))
      (smap_emplace ''outcome'' (VString (credentialOutcomeToken (cop_outcome r))) []))"

definition toCredentialRecordDict :: "credential_record \<Rightarrow> wire_dict" where
  "toCredentialRecordDict r =
    fold (\<lambda>f. f)
     [smap_emplace ''id'' (VString (cdr_id r)),
      smap_emplace ''label'' (VString (cdr_label r)),
      smap_emplace ''kind'' (VString (cdr_kind r)),
      smap_emplace ''state'' (VString (cdr_state r)),
      emplaceInt ''retries_left'' (cdr_retriesLeft r),
      emplaceInt ''retries_max'' (cdr_retriesMax r),
      emplaceInt ''uses_left'' (cdr_usesLeft r),
      emplaceInt ''uses_max'' (cdr_usesMax r),
      emplaceInt ''unblocks_left'' (cdr_unblocksLeft r),
      smap_emplace ''can_change'' (VBool (cdr_canChange r)),
      smap_emplace ''unblockable'' (VBool (cdr_unblockable r)),
      smap_emplace ''activatable'' (VBool (cdr_activatable r)),
      smap_emplace ''key_activation_pending'' (VBool (cdr_keyActivationPending r)),
      smap_emplace ''key_activatable'' (VBool (cdr_keyActivatable r)),
      smap_emplace ''recovery'' (cdr_recovery r),
      emplaceStr ''blocked_guidance_key'' (cdr_blockedGuidanceKey r),
      emplaceStr ''blocked_guidance_fallback'' (cdr_blockedGuidanceFallback r),
      emplaceStr ''key_activation_guidance_key'' (cdr_keyActivationGuidanceKey r),
      emplaceStr ''key_activation_guidance_fallback'' (cdr_keyActivationGuidanceFallback r)] []"

definition toCredentialRecordsWire :: "credential_record list \<Rightarrow> wire_dict list" where
  "toCredentialRecordsWire records = map toCredentialRecordDict records"

record credential_result =
  cre_op :: credential_op_result
  cre_records :: "credential_record list"

subsection \<open>Payloads, signals, replies\<close>

type_synonym sign_row = "(sign_meta, u32) batch_row"

datatype 'k result_payload =
    IdentityPayload card_read_snapshot
  | CertificatesPayload "'k cert_snapshot list"
  | PhotoPayload "photo list"
  | SignPayload "sign_meta artifact"
  | BatchPayload "sign_row list"
  | CredentialsPayload credential_result

datatype signal =
    Finished u32 u32 string string
  | PropertiesChanged string "string list"
  | IdentityResult identity_wire
  | IdentityGroup string identity_group_wire
  | CertificatesResult "cert_result list"
  | PhotoResult "(string \<times> memfile option) list"
  | SignResult "memfile option" wire_dict
  | BatchResult "(string \<times> memfile option \<times> wire_dict \<times> u32) list"
  | CredentialsResult wire_dict "wire_dict list"

record chan_world = seal_world +
  cw_emits :: "bool list"
  cw_signals :: "signal list"

text \<open>One emission: whether it threw, which the script decides; a script that has run out does not.\<close>

definition send :: "signal \<Rightarrow> chan_world \<Rightarrow> bool \<times> chan_world" where
  "send sg w =
    (case cw_emits w of
       [] \<Rightarrow> (False, w\<lparr>cw_signals := cw_signals w @ [sg]\<rparr>)
     | threw # es \<Rightarrow> (threw, w\<lparr>cw_emits := es, cw_signals := (if threw then cw_signals w else cw_signals w @ [sg])\<rparr>))"

text \<open>The emitters that log and swallow a throw.\<close>

definition send_nx :: "signal \<Rightarrow> chan_world \<Rightarrow> chan_world" where
  "send_nx sg w = snd (send sg w)"

definition emitFinishedNx :: "u32 \<Rightarrow> u32 \<Rightarrow> string \<Rightarrow> string \<Rightarrow> chan_world \<Rightarrow> chan_world" where
  "emitFinishedNx st code key fallback = send_nx (Finished st code key fallback)"

definition emitPropertiesChangedForOperation1 :: "chan_world \<Rightarrow> chan_world" where
  "emitPropertiesChangedForOperation1 =
     send_nx (PropertiesChanged kOperation1Iface [''Phase'', ''Completed'', ''Status'', ''ErrorCode''])"

definition emitIdentity1Result :: "card_read_snapshot \<Rightarrow> chan_world \<Rightarrow> chan_world" where
  "emitIdentity1Result snap = send_nx (IdentityResult (buildIdentity1Wire snap))"

definition emitIdentity1Group :: "group_snapshot \<Rightarrow> chan_world \<Rightarrow> chan_world" where
  "emitIdentity1Group g = send_nx (IdentityGroup (gs_groupKey g) (buildIdentity1GroupWire g))"

definition emitCertificates1Result :: "('k \<Rightarrow> string) \<Rightarrow> 'k cert_snapshot list \<Rightarrow> chan_world \<Rightarrow> chan_world" where
  "emitCertificates1Result tok certs = send_nx (CertificatesResult (buildCertificates1Wire tok certs))"

definition files_of :: "(string, int) smap \<Rightarrow> chan_world \<Rightarrow> (string \<times> memfile option) list" where
  "files_of fds w = map (\<lambda>(k, fd). (k, sw_fds w (nat fd))) fds"

text \<open>The map is taken by value: its descriptors close when the helper returns.\<close>

definition emitPhoto1Result :: "(string, int) smap \<Rightarrow> chan_world \<Rightarrow> chan_world" where
  "emitPhoto1Result photoFds w = closeAll (map snd photoFds) (send_nx (PhotoResult (files_of photoFds w)) w)"

text \<open>
  What \<^verbatim>\<open>GetResult\<close> comes to: the no-result error, another exception (the bus library turns it into
  an error reply), the end of the process, or an answer.
\<close>

datatype 'a got = NoResult string | Fails | Ends | Answer 'a

subsection \<open>The inline channels\<close>

definition identity_emitResult ::
  "(card_read_snapshot \<Rightarrow> card_read_snapshot \<Rightarrow> card_read_snapshot) \<Rightarrow> card_read_snapshot result_state \<Rightarrow>
     'k result_payload \<Rightarrow> chan_world \<Rightarrow> bool \<times> card_read_snapshot result_state \<times> chan_world" where
  "identity_emitResult torn st r w =
    (case r of
       IdentityPayload snap \<Rightarrow>
         let (published, st, w) = publishResult torn st snap w in (True, st, emitIdentity1Result snap w)
     | _ \<Rightarrow> (True, st, w))"

definition identity_GetResult ::
  "card_read_snapshot result_state option \<Rightarrow> chan_world \<Rightarrow> identity_wire got \<times> chan_world" where
  "identity_GetResult store w =
    (let (snap, w) = (case store of Some st \<Rightarrow> readStoredResult st w | None \<Rightarrow> (None, w)) in
     case snap of
       None \<Rightarrow> (NoResult ''no identity result is available'', w)
     | Some s \<Rightarrow> let (threw, w) = throws_alloc w in if threw then (Fails, w) else (Answer (buildIdentity1Wire s), w))"

definition certificates_emitResult ::
  "('k \<Rightarrow> string) \<Rightarrow> ('k cert_snapshot list \<Rightarrow> 'k cert_snapshot list \<Rightarrow> 'k cert_snapshot list) \<Rightarrow>
     'k cert_snapshot list result_state \<Rightarrow> 'k result_payload \<Rightarrow> chan_world \<Rightarrow>
     bool \<times> 'k cert_snapshot list result_state \<times> chan_world" where
  "certificates_emitResult tok torn st r w =
    (case r of
       CertificatesPayload certs \<Rightarrow>
         let (published, st, w) = publishResult torn st certs w in (True, st, emitCertificates1Result tok certs w)
     | _ \<Rightarrow> (True, st, w))"

definition certificates_GetResult ::
  "('k \<Rightarrow> string) \<Rightarrow> 'k cert_snapshot list result_state option \<Rightarrow> chan_world \<Rightarrow> cert_result list got \<times> chan_world" where
  "certificates_GetResult tok store w =
    (let (certs, w) = (case store of Some st \<Rightarrow> readStoredResult st w | None \<Rightarrow> (None, w)) in
     case certs of
       None \<Rightarrow> (NoResult ''no certificates result is available'', w)
     | Some cs \<Rightarrow> let (threw, w) = throws_alloc w in
         if threw then (Fails, w) else (Answer (buildCertificates1Wire tok cs), w))"

definition credentials_emitResult ::
  "(credential_result \<Rightarrow> credential_result \<Rightarrow> credential_result) \<Rightarrow> credential_result result_state \<Rightarrow>
     'k result_payload \<Rightarrow> chan_world \<Rightarrow> bool \<times> credential_result result_state \<times> chan_world" where
  "credentials_emitResult torn st r w =
    (case r of
       CredentialsPayload cred \<Rightarrow>
         let (published, st, w) = publishResult torn st cred w in
         (True, st, send_nx (CredentialsResult (toCredentialResultDict (cre_op cred)) (toCredentialRecordsWire (cre_records cred))) w)
     | _ \<Rightarrow> (True, st, w))"

definition credentials_GetResult ::
  "credential_result result_state option \<Rightarrow> chan_world \<Rightarrow> (wire_dict \<times> wire_dict list) got \<times> chan_world" where
  "credentials_GetResult store w =
    (let (stored, w) = (case store of Some st \<Rightarrow> readStoredResult st w | None \<Rightarrow> (None, w)) in
     case stored of
       None \<Rightarrow> (NoResult ''no credential result is available'', w)
     | Some c \<Rightarrow> let (threw, w) = throws_alloc w in
         if threw then (Fails, w)
         else (Answer (toCredentialResultDict (cre_op c), toCredentialRecordsWire (cre_records c)), w))"

subsection \<open>The photo channel\<close>

text \<open>
  \<^verbatim>\<open>emplace\<close> keeps the first descriptor of a key; the second one, already owned by a
  \<^verbatim>\<open>UnixFd\<close>, closes.
\<close>

primrec photo_wire_loop :: "photo list \<Rightarrow> (string, int) smap \<Rightarrow> chan_world \<Rightarrow> (string, int) smap option \<times> chan_world" where
  "photo_wire_loop [] fds w = (Some fds, w)"
| "photo_wire_loop (p # ps) fds w =
    (if ph_bytes p = [] then photo_wire_loop ps fds w
     else
       let (fd, w) = seal (ph_bytes p) w in
       if fd < 0 then (None, closeAll (map snd fds) w)
       else
         let (threw, w) = throws_alloc w in
         if threw then (None, closeAll (map snd fds) (close_fd fd w))
         else case smap_find fds (ph_key p) of
           Some _ \<Rightarrow> photo_wire_loop ps fds (close_fd fd w)
         | None \<Rightarrow> photo_wire_loop ps (smap_assign (ph_key p) fd fds) w)"

definition photo_emitResult ::
  "(photo list \<Rightarrow> photo list \<Rightarrow> photo list) \<Rightarrow> photo list result_state \<Rightarrow> 'k result_payload \<Rightarrow> chan_world \<Rightarrow>
     bool \<times> photo list result_state \<times> chan_world" where
  "photo_emitResult torn st r w =
    (case r of
       PhotoPayload photos \<Rightarrow>
         (case photo_wire_loop photos [] w of
            (None, w) \<Rightarrow> (False, st, w)
          | (Some fds, w) \<Rightarrow>
              if fds = [] then (True, st, w)
              else
                let (published, st, w) = publishResult torn st photos w in
                if \<not> published then (False, st, closeAll (map snd fds) w)
                else (True, st, emitPhoto1Result fds w))
     | _ \<Rightarrow> (True, st, w))"

primrec photo_adopt :: "sealed_photo list \<Rightarrow> (string, int) smap \<Rightarrow> chan_world \<Rightarrow> (string, int) smap option \<times> chan_world" where
  "photo_adopt [] photos w = (Some photos, w)"
| "photo_adopt (s # ss) photos w =
    (let (threw, w) = throws_alloc w in
     if threw then (None, closeAll (map snd photos) (close_fd (sp_fd s) (closeAll (map sp_fd ss) w)))
     else case smap_find photos (sp_key s) of
       Some _ \<Rightarrow> photo_adopt ss photos (close_fd (sp_fd s) w)
     | None \<Rightarrow> photo_adopt ss (smap_assign (sp_key s) (sp_fd s) photos) w)"

definition photo_GetResult ::
  "photo list result_state option \<Rightarrow> chan_world \<Rightarrow> (string, int) smap got \<times> chan_world" where
  "photo_GetResult store w =
    (let (sealed, w) = (case store of Some st \<Rightarrow> sealStoredPhotos st w | None \<Rightarrow> (None, w)) in
     case sealed of
       None \<Rightarrow> (NoResult ''no photo result is available'', w)
     | Some ss \<Rightarrow> (case photo_adopt ss [] w of (None, w) \<Rightarrow> (Fails, w) | (Some photos, w) \<Rightarrow> (Answer photos, w)))"

subsection \<open>The signing channels\<close>

definition sign_emitResult ::
  "(sign_meta \<Rightarrow> sign_meta \<Rightarrow> sign_meta) \<Rightarrow> sign_meta artifact result_state \<Rightarrow> 'k result_payload \<Rightarrow> chan_world \<Rightarrow>
     bool \<times> sign_meta artifact result_state \<times> chan_world" where
  "sign_emitResult torn st r w =
    (case r of
       SignPayload a \<Rightarrow>
         sealPublishAndEmitSignResult torn
           (\<lambda>fd w. let (threw, w) = send (SignResult (sw_fds w (nat fd)) (toMetaVariants (ar_meta a))) w in
                   (threw, close_fd fd w))
           st (ar_bytes a) (ar_meta a) w
     | _ \<Rightarrow> (True, st, w))"

definition sign_GetResult ::
  "sign_meta \<Rightarrow> sign_meta artifact result_state option \<Rightarrow> chan_world \<Rightarrow> (int \<times> wire_dict) got \<times> chan_world" where
  "sign_GetResult noMeta store w =
    (case (case store of Some st \<Rightarrow> sealStoredResult noMeta st w | None \<Rightarrow> (Returns \<lparr>ss_fd = - 1, ss_meta = noMeta\<rparr>, w)) of
       (Terminates, w) \<Rightarrow> (Ends, w)
     | (Returns sealed, w) \<Rightarrow>
         if ss_fd sealed < 0 then (NoResult ''no signed result is available'', w)
         else let (threw, w) = throws_alloc w in
           if threw then (Fails, close_fd (ss_fd sealed) w)
           else (Answer (ss_fd sealed, toMetaVariants (ss_meta sealed)), w))"

type_synonym batch_wire = "(string \<times> int \<times> wire_dict \<times> u32) list"

definition row_fd :: "string \<times> int \<times> wire_dict \<times> u32 \<Rightarrow> int" where
  "row_fd r = fst (snd r)"

primrec batch_adopt :: "(sign_meta, u32) sealed_row list \<Rightarrow> batch_wire \<Rightarrow> chan_world \<Rightarrow> batch_wire option \<times> chan_world" where
  "batch_adopt [] rows w = (Some rows, w)"
| "batch_adopt (s # ss) rows w =
    (let (threw, w) = throws_alloc w in
     if threw then (None, closeAll (map row_fd rows) (close_fd (sr_fd s) (closeAll (map sr_fd ss) w)))
     else batch_adopt ss (rows @ [(sr_displayName s, sr_fd s, toMetaVariants (sr_meta s), sr_code s)]) w)"

text \<open>
  The outer frame of both users of the loop: \<^verbatim>\<open>reserve\<close> throws before any descriptor has an
  owner, so what was sealed stays open.
\<close>

definition batch_rows :: "(sign_meta, u32) sealed_row list \<Rightarrow> chan_world \<Rightarrow> batch_wire option \<times> chan_world" where
  "batch_rows sealed w = (let (threw, w) = throws_alloc w in if threw then (None, w) else batch_adopt sealed [] w)"

definition batch_emitResult ::
  "(sign_row list \<Rightarrow> sign_row list \<Rightarrow> sign_row list) \<Rightarrow> sign_row list result_state \<Rightarrow> 'k result_payload \<Rightarrow> chan_world \<Rightarrow>
     bool \<times> sign_row list result_state \<times> chan_world" where
  "batch_emitResult torn st r w =
    (case r of
       BatchPayload rows \<Rightarrow>
         (case publishSealedSignBatchResult torn st rows w of
            (None, st, w) \<Rightarrow> (False, st, w)
          | (Some sealed, st, w) \<Rightarrow>
              (case batch_rows sealed w of
                 (None, w) \<Rightarrow> (True, st, w)
               | (Some wire, w) \<Rightarrow>
                   (True, st, closeAll (map row_fd wire)
                     (send_nx (BatchResult (map (\<lambda>(n, fd, m, c). (n, sw_fds w (nat fd), m, c)) wire)) w))))
     | _ \<Rightarrow> (True, st, w))"

definition batch_GetResult ::
  "sign_row list result_state option \<Rightarrow> chan_world \<Rightarrow> batch_wire got \<times> chan_world" where
  "batch_GetResult store w =
    (let (sealed, w) = (case store of Some st \<Rightarrow> sealStoredSignBatchResult st w | None \<Rightarrow> (None, w)) in
     case sealed of
       None \<Rightarrow> (NoResult ''no batch signing result is available'', w)
     | Some ss \<Rightarrow> (case batch_rows ss w of (None, w) \<Rightarrow> (Fails, w) | (Some rows, w) \<Rightarrow> (Answer rows, w)))"

text \<open>The result channel of each kind forwards the operation's other signals unchanged.\<close>

definition channel_emitFinished :: "u32 \<Rightarrow> u32 \<Rightarrow> string \<Rightarrow> string \<Rightarrow> chan_world \<Rightarrow> chan_world" where
  "channel_emitFinished = emitFinishedNx"

definition channel_emitGroup :: "group_snapshot \<Rightarrow> chan_world \<Rightarrow> chan_world" where
  "channel_emitGroup = emitIdentity1Group"

subsection \<open>Descriptors and signals along the way\<close>

lemma minted_perm:
  assumes "mset rs = mset rs'" and "minted t0 rs t" shows "minted t0 rs' t"
proof -
  have "set rs = set rs'" using assms(1) by (rule mset_eq_setD)
  moreover have "distinct (map fst rs) \<longleftrightarrow> distinct (map fst rs')"
    using assms(1) by (metis mset_eq_imp_distinct_iff mset_map)
  ultimately show ?thesis using assms(2) by (simp add: minted_def)
qed

lemma smap_assign_new: "smap_find m k = None \<Longrightarrow> mset (smap_assign k v m) = add_mset (k, v) (mset m)"
  by (induction k v m rule: smap_assign.induct) (auto simp: smap_find_def split: if_splits)

lemma closeAll_append [simp]: "closeAll (xs @ ys) w = closeAll ys (closeAll xs w)"
  by (induction xs arbitrary: w) simp_all

text \<open>Closing every minted descriptor, in any order, restores the table.\<close>

lemma closeAll_minted_mset:
  assumes "minted t0 rs (sw_fds w)" and "mset fds = mset (map fst rs)"
  shows "sw_fds (closeAll fds w) = t0"
  using assms
proof (induction fds arbitrary: rs w)
  case (Cons fd fds)
  have "fd \<in> set (map fst rs)" using Cons.prems(2) by (metis list.set_intros(1) mset_eq_setD)
  then obtain xs b ys where rs: "rs = xs @ (fd, b) # ys" by (auto dest!: split_list)
  have "minted t0 ((fd, b) # xs @ ys) (sw_fds w)" by (rule minted_perm [OF _ Cons.prems(1)]) (simp add: rs)
  from Cons.IH [OF close_minted [OF this]] Cons.prems(2) show ?case by (simp add: rs)
qed simp

lemma seal_signals: "seal bs w = (fd, w') \<Longrightarrow> cw_signals w' = cw_signals w \<and> cw_emits w' = cw_emits w"
  by (auto simp: seal_def Let_def split: list.splits prod.splits)

lemma throws_alloc_signals: "throws_alloc w = (b, w') \<Longrightarrow> cw_signals w' = cw_signals w \<and> cw_emits w' = cw_emits w"
  by (cases "sw_allocs w") (auto simp: throws_alloc_def)

lemma close_fd_signals [simp]: "cw_signals (close_fd fd w) = cw_signals w" "cw_emits (close_fd fd w) = cw_emits w"
  by (simp_all add: close_fd_def)

lemma closeAll_signals [simp]: "cw_signals (closeAll fds w) = cw_signals w" "cw_emits (closeAll fds w) = cw_emits w"
  by (induction fds arbitrary: w) simp_all

lemma send_nx_fds [simp]: "sw_fds (send_nx sg w) = sw_fds w"
  by (simp add: send_nx_def send_def split: list.split)

lemma send_nx_signals: "cw_signals (send_nx sg w) \<in> {cw_signals w, cw_signals w @ [sg]}"
  by (simp add: send_nx_def send_def split: list.split)

text \<open>The descriptors of a photo map, each with the bytes its key stands for.\<close>

definition held :: "(string \<Rightarrow> bytes) \<Rightarrow> (string, int) smap \<Rightarrow> (int \<times> bytes) list" where
  "held B fds = map (\<lambda>(k, fd). (fd, B k)) fds"

lemma held_simps [simp]: "map fst (held B fds) = map snd fds" "held B [] = []"
  by (simp_all add: held_def comp_def case_prod_beta)

lemma held_assign: "smap_find fds k = None \<Longrightarrow> mset (held B (smap_assign k fd fds)) = add_mset (fd, B k) (mset (held B fds))"
  by (simp add: held_def smap_assign_new)

definition first_bytes :: "photo list \<Rightarrow> (string \<rightharpoonup> bytes)" where
  "first_bytes ps = map_of (map (\<lambda>p. (ph_key p, ph_bytes p)) (kept_photos ps))"

lemma dom_first_bytes: "dom (first_bytes ps) = ph_key ` set (kept_photos ps)"
  by (auto simp: first_bytes_def dom_map_of_conv_image_fst image_image)

definition keys_of :: "('a, 'b) smap \<Rightarrow> 'a set" where
  "keys_of m = fst ` set m"

lemma keys_of_simps [simp]: "keys_of [] = {}" "keys_of (smap_assign k v m) = insert k (keys_of m)"
  by (simp_all add: keys_of_def set_smap_assign)

lemma keys_of_None: "smap_find m k = None \<longleftrightarrow> k \<notin> keys_of m"
  by (simp add: smap_find_def map_of_eq_None_iff keys_of_def)

text \<open>
  The photo loop of the channel ends with one descriptor per key, over the bytes of the first photo of
  that key, or with the table it started from; it sends nothing.
\<close>

lemma photo_wire_loop_spec:
  assumes "photo_wire_loop ps fds w = (r, w')" and "minted t0 (held B fds) (sw_fds w)" and "smap_ok fds"
    and "\<And>k b. k \<notin> keys_of fds \<Longrightarrow> first_bytes ps k = Some b \<Longrightarrow> B k = b"
  shows "(case r of
      None \<Rightarrow> sw_fds w' = t0
    | Some out \<Rightarrow> minted t0 (held B out) (sw_fds w') \<and> smap_ok out \<and> keys_of out = keys_of fds \<union> ph_key ` set (kept_photos ps)) \<and>
    cw_signals w' = cw_signals w \<and> cw_emits w' = cw_emits w"
  using assms
proof (induction ps arbitrary: fds w)
  case Nil
  then show ?case by auto
next
  case (Cons p ps)
  obtain fd w1 where s: "seal (ph_bytes p) w = (fd, w1)" by force
  obtain threw w2 where a: "throws_alloc w1 = (threw, w2)" by force
  note fr = seal_signals [OF s] throws_alloc_signals [OF a]
  consider (skip) "ph_bytes p = []" | (fail) "ph_bytes p \<noteq> []" "fd < 0"
    | (throw) "ph_bytes p \<noteq> []" "0 \<le> fd" "threw"
    | (dup) v where "ph_bytes p \<noteq> []" "0 \<le> fd" "\<not> threw" "smap_find fds (ph_key p) = Some v"
    | (new) "ph_bytes p \<noteq> []" "0 \<le> fd" "\<not> threw" "smap_find fds (ph_key p) = None"
    by (metis linorder_not_less option.exhaust)
  then show ?case
  proof cases
    case skip
    then have "photo_wire_loop ps fds w = (r, w')" using Cons.prems(1) by simp
    moreover have "first_bytes (p # ps) = first_bytes ps" using skip by (simp add: first_bytes_def)
    ultimately show ?thesis using Cons.IH [of fds w] Cons.prems(2-) skip by (cases r) simp_all
  next
    case fail
    then have "minted t0 (held B fds) (sw_fds w1)" using Cons.prems(2) s by (auto intro: store_seal.minted_kept)
    from closeAll_minted [OF this] fail Cons.prems(1) s fr show ?thesis by auto
  next
    case throw
    then have "sw_fds (close_fd fd w2) = sw_fds w" using Cons.prems(2) s a by (auto intro: close_last_minted)
    with Cons.prems(2) closeAll_minted [of t0 "held B fds" "close_fd fd w2"] throw Cons.prems(1) s a fr
    show ?thesis by auto
  next
    case dup
    then have same: "sw_fds (close_fd fd w2) = sw_fds w" using Cons.prems(2) s a by (auto intro: close_last_minted)
    have run: "photo_wire_loop ps fds (close_fd fd w2) = (r, w')" using Cons.prems(1) s a dup by simp
    have k: "ph_key p \<in> keys_of fds" using dup(4) keys_of_None by (metis option.distinct(1))
    have "first_bytes (p # ps) k' = first_bytes ps k'" if "k' \<notin> keys_of fds" for k'
      using that k by (auto simp: first_bytes_def)
    then have B: "\<And>k' b. k' \<notin> keys_of fds \<Longrightarrow> first_bytes ps k' = Some b \<Longrightarrow> B k' = b" using Cons.prems(4) by metis
    have m: "minted t0 (held B fds) (sw_fds (close_fd fd w2))" using Cons.prems(2) same by simp
    have ks: "keys_of fds \<union> ph_key ` set (kept_photos (p # ps)) = keys_of fds \<union> ph_key ` set (kept_photos ps)"
      using k dup(1) by auto
    from Cons.IH [OF run m Cons.prems(3) B] fr show ?thesis unfolding ks by simp
  next
    case new
    let ?f = "smap_assign (ph_key p) fd fds"
    have k: "ph_key p \<notin> keys_of fds" using new(4) by (simp add: keys_of_None)
    then have b: "B (ph_key p) = ph_bytes p" using Cons.prems(4) [of "ph_key p" "ph_bytes p"] new(1) by (simp add: first_bytes_def)
    have "minted t0 (held B fds @ [(fd, ph_bytes p)]) (sw_fds w2)"
      using Cons.prems(2) s a new by (auto intro: store_seal.minted_snoc)
    then have m: "minted t0 (held B ?f) (sw_fds w2)" by (rule minted_perm [rotated]) (simp add: held_assign [OF new(4)] b)
    have run: "photo_wire_loop ps ?f w2 = (r, w')" using Cons.prems(1) s a new by simp
    have B: "\<And>k' b. k' \<notin> keys_of ?f \<Longrightarrow> first_bytes ps k' = Some b \<Longrightarrow> B k' = b"
      using Cons.prems(4) new(1) by (auto simp: first_bytes_def)
    from Cons.IH [OF run m smap_ok_assign [OF Cons.prems(3)] B] fr new(1) show ?thesis by (cases r) auto
  qed
qed

text \<open>
  The adoption loop of the late subscriber: one descriptor per key, over the bytes of the first sealed
  photo of that key; every other one closes, and all of them when an allocation throws.
\<close>

lemma photo_adopt_spec:
  assumes "photo_adopt ss photos w = (r, w')" and "length bss = length ss" and "smap_ok photos"
    and "minted t0 (held B photos @ zip (map sp_fd ss) bss) (sw_fds w)"
    and "\<And>k b. k \<notin> keys_of photos \<Longrightarrow> map_of (zip (map sp_key ss) bss) k = Some b \<Longrightarrow> B k = b"
  shows "case r of
      None \<Rightarrow> sw_fds w' = t0
    | Some out \<Rightarrow> minted t0 (held B out) (sw_fds w') \<and> smap_ok out \<and> keys_of out = keys_of photos \<union> sp_key ` set ss"
  using assms
proof (induction ss arbitrary: photos w bss)
  case Nil
  then show ?case by auto
next
  case (Cons s ss)
  obtain b bs where bss: "bss = b # bs" using Cons.prems(2) by (cases bss) auto
  obtain threw w1 where a: "throws_alloc w = (threw, w1)" by force
  have m: "minted t0 (held B photos @ (sp_fd s, b) # zip (map sp_fd ss) bs) (sw_fds w1)"
    using Cons.prems(4) a by (simp add: bss)
  have len: "length bs = length ss" using Cons.prems(2) by (simp add: bss)
  consider (throw) "threw" | (dup) v where "\<not> threw" "smap_find photos (sp_key s) = Some v"
    | (new) "\<not> threw" "smap_find photos (sp_key s) = None" by (metis option.exhaust)
  then show ?case
  proof cases
    case throw
    have "sw_fds (closeAll (map sp_fd ss @ [sp_fd s] @ map snd photos) w1) = t0"
      by (rule closeAll_minted_mset [OF m]) (simp add: len)
    then show ?thesis using Cons.prems(1) a throw by auto
  next
    case dup
    have k: "sp_key s \<in> keys_of photos" using dup(2) keys_of_None by (metis option.distinct(1))
    have "minted t0 ((sp_fd s, b) # held B photos @ zip (map sp_fd ss) bs) (sw_fds w1)"
      by (rule minted_perm [OF _ m]) simp
    note m' = close_minted [OF this]
    have run: "photo_adopt ss photos (close_fd (sp_fd s) w1) = (r, w')" using Cons.prems(1) a dup by simp
    have B: "B k' = b'" if "k' \<notin> keys_of photos" "map_of (zip (map sp_key ss) bs) k' = Some b'" for k' b'
      using Cons.prems(5) [of k' b'] k that by (cases "k' = sp_key s") (auto simp: bss)
    have ks: "keys_of photos \<union> sp_key ` set (s # ss) = keys_of photos \<union> sp_key ` set ss" using k by (simp add: insert_absorb)
    from Cons.IH [OF run len Cons.prems(3) m' B] show ?thesis unfolding ks .
  next
    case new
    let ?p = "smap_assign (sp_key s) (sp_fd s) photos"
    have k: "sp_key s \<notin> keys_of photos" using new(2) by (simp add: keys_of_None)
    have b: "B (sp_key s) = b" using Cons.prems(5) [OF k, of b] by (simp add: bss)
    have m': "minted t0 (held B ?p @ zip (map sp_fd ss) bs) (sw_fds w1)"
      by (rule minted_perm [OF _ m]) (simp add: held_assign [OF new(2)] b)
    have run: "photo_adopt ss ?p w1 = (r, w')" using Cons.prems(1) a new by simp
    have B: "B k' = b'" if "k' \<notin> keys_of ?p" "map_of (zip (map sp_key ss) bs) k' = Some b'" for k' b'
      using Cons.prems(5) [of k' b'] that by (auto simp: bss)
    have ks: "keys_of ?p \<union> sp_key ` set ss = keys_of photos \<union> sp_key ` set (s # ss)" by simp
    from Cons.IH [OF run len smap_ok_assign [OF Cons.prems(3)] m' B] show ?thesis unfolding ks .
  qed
qed

lemma held_files:
  assumes "minted t0 (held B fds) (sw_fds w)"
  shows "files_of fds w = map (\<lambda>(k, fd). (k, Some (sealed_file (B k)))) fds"
  using assms by (auto simp: files_of_def held_def minted_def)

lemma map_of_keyed: "map_of (map (\<lambda>(k, v). (k, f k)) m) k = (if k \<in> keys_of m then Some (f k) else None)"
  by (induction m) (auto simp: keys_of_def)

definition chosen :: "photo list \<Rightarrow> string \<Rightarrow> bytes" where
  "chosen ps k = (case first_bytes ps k of Some b \<Rightarrow> b | None \<Rightarrow> [])"

lemma chosen_Some: "first_bytes ps k = Some b \<Longrightarrow> chosen ps k = b"
  by (simp add: chosen_def)

lemma chosen_files:
  "(if k \<in> ph_key ` set (kept_photos ps) then Some (Some (sealed_file (chosen ps k))) else None) =
   map_option (\<lambda>b. Some (sealed_file b)) (first_bytes ps k)"
  using dom_first_bytes [of ps] by (cases "first_bytes ps k") (auto simp: chosen_def)

lemma photo_wire_from_empty:
  assumes "photo_wire_loop ps [] w = (r, w')"
  shows "(case r of
      None \<Rightarrow> sw_fds w' = sw_fds w
    | Some out \<Rightarrow> minted (sw_fds w) (held (chosen ps) out) (sw_fds w') \<and> keys_of out = ph_key ` set (kept_photos ps)) \<and>
    cw_signals w' = cw_signals w"
proof -
  have "minted (sw_fds w) (held (chosen ps) []) (sw_fds w)" by simp
  from photo_wire_loop_spec [OF assms this smap_ok_Nil chosen_Some] show ?thesis by (cases r) simp_all
qed

lemma kept_Nil_keys: "keys_of m = ph_key ` set (kept_photos ps) \<Longrightarrow> m = [] \<longleftrightarrow> kept_photos ps = []"
  by (auto simp: keys_of_def)

subsection \<open>Properties\<close>

lemma publishResult_cases:
  assumes "publishResult torn st p w = (ok, st', w')"
  shows "sw_fds w' = sw_fds w" and "ok \<Longrightarrow> st' = st\<lparr>rs_payload := p, rs_ready := True\<rparr>"
    and "\<not> ok \<Longrightarrow> rs_ready st' = rs_ready st"
  using assms throws_alloc_fds [of w] by (auto simp: publishResult_def Let_def split: prod.splits if_splits)

lemma publishResult_signals:
  "publishResult torn st p w = (ok, st', w') \<Longrightarrow> cw_signals w' = cw_signals w"
  using throws_alloc_signals [of w] by (auto simp: publishResult_def Let_def split: prod.splits if_splits)

lemma emitPhoto1Result_fds:
  "minted t0 (held B fds) (sw_fds w) \<Longrightarrow> sw_fds (emitPhoto1Result fds w) = t0"
  using closeAll_minted [of t0 "held B fds" "send_nx (PhotoResult (files_of fds w)) w"] by (simp add: emitPhoto1Result_def)

text \<open>
  C13: the photo channel fails closed and leaks nothing. From an unpublished store, whichever seal,
  allocation or emission fails, no descriptor is open afterwards that was not before. The
  operation is told of success with something to deliver exactly when the store has become
  ready, and then it holds the photos; nothing is signalled unless it has. A signal that left
  carries, under each key, the bytes of the first non-empty photo of that key, sealed.
\<close>

theorem photo_channel_fails_closed:
  assumes "photo_emitResult torn st (PhotoPayload ps) w = (ok, st', w')" and "\<not> rs_ready st"
  shows "sw_fds w' = sw_fds w \<and> (rs_ready st' \<longleftrightarrow> ok \<and> kept_photos ps \<noteq> []) \<and> (rs_ready st' \<longrightarrow> rs_payload st' = ps) \<and>
    (cw_signals w' = cw_signals w \<or>
     rs_ready st' \<and> (\<exists>fs. cw_signals w' = cw_signals w @ [PhotoResult fs] \<and>
       (\<forall>k. map_of fs k = map_option (\<lambda>b. Some (sealed_file b)) (first_bytes ps k))))"
proof -
  obtain r w1 where l: "photo_wire_loop ps [] w = (r, w1)" by force
  note spec = photo_wire_from_empty [OF l]
  show ?thesis
  proof (cases r)
    case None
    then show ?thesis using assms l spec by (auto simp: photo_emitResult_def)
  next
    case (Some fds)
    have m: "minted (sw_fds w) (held (chosen ps) fds) (sw_fds w1)" and ks: "keys_of fds = ph_key ` set (kept_photos ps)"
      and sg: "cw_signals w1 = cw_signals w" using spec Some by simp_all
    note e = kept_Nil_keys [OF ks]
    show ?thesis
    proof (cases "fds = []")
      case True
      then show ?thesis using assms l Some m sg e by (auto simp: photo_emitResult_def)
    next
      case False
      obtain pub st2 w2 where p: "publishResult torn st ps w1 = (pub, st2, w2)" by (metis prod_cases3)
      note pc = publishResult_cases [OF p] and ps = publishResult_signals [OF p]
      have m2: "minted (sw_fds w) (held (chosen ps) fds) (sw_fds w2)" using m pc(1) by simp
      show ?thesis
      proof (cases pub)
        case False
        with closeAll_minted [OF m2] show ?thesis using assms l Some \<open>fds \<noteq> []\<close> p pc(3) ps sg
          by (auto simp: photo_emitResult_def)
      next
        case True
        have files: "map_of (files_of fds w2) k = map_option (\<lambda>b. Some (sealed_file b)) (first_bytes ps k)" for k
          unfolding held_files [OF m2] map_of_keyed ks by (rule chosen_files)
        have res: "ok" "st' = st2" "w' = emitPhoto1Result fds w2"
          using assms(1) l Some False p True by (simp_all add: photo_emitResult_def)
        have "cw_signals w' \<in> {cw_signals w, cw_signals w @ [PhotoResult (files_of fds w2)]}"
          using send_nx_signals [of "PhotoResult (files_of fds w2)" w2] ps sg by (simp add: res(3) emitPhoto1Result_def)
        then show ?thesis using res pc(2) [OF True] emitPhoto1Result_fds [OF m2] files False e by auto
      qed
    qed
  qed
qed

definition quiet_world :: chan_world where
  "quiet_world = \<lparr>sw_fds = (\<lambda>_. None), sw_seals = [Sealed 5, Sealed 6, Sealed 7, Sealed 8], sw_allocs = [],
     cw_emits = [], cw_signals = []\<rparr>"

definition two_photos :: "photo list" where
  "two_photos = [\<lparr>ph_key = ''a'', ph_bytes = [1]\<rparr>, \<lparr>ph_key = ''a'', ph_bytes = [2]\<rparr>]"

definition unpublished :: "'p \<Rightarrow> 'p result_state" where
  "unpublished p = \<lparr>rs_ready = False, rs_payload = p\<rparr>"

theorem photo_channel_fails_closed_witness:
  "rs_ready (fst (snd (photo_emitResult (\<lambda>a b. a) (unpublished []) (PhotoPayload two_photos :: unit result_payload) quiet_world))) \<and>
   sw_fds (snd (snd (photo_emitResult (\<lambda>a b. a) (unpublished []) (PhotoPayload two_photos :: unit result_payload) quiet_world))) = (\<lambda>_. None)"
proof -
  let ?r = "photo_emitResult (\<lambda>a b. a) (unpublished []) (PhotoPayload two_photos :: unit result_payload) quiet_world"
  obtain ok st w where r: "?r = (ok, st, w)" by (metis prod_cases3)
  have "fst ?r"
    by (simp add: photo_emitResult_def two_photos_def quiet_world_def publishResult_def unpublished_def smap_find_def close_fd_def)
  then have "ok" unfolding r by simp
  moreover have "kept_photos two_photos \<noteq> []" "sw_fds quiet_world = (\<lambda>_. None)" by (simp_all add: two_photos_def quiet_world_def)
  ultimately show ?thesis using photo_channel_fails_closed [OF r] unfolding r by (simp add: unpublished_def)
qed

lemma zip_first_bytes: "map_of (zip (map ph_key (kept_photos ps)) (map ph_bytes (kept_photos ps))) = first_bytes ps"
  by (simp add: first_bytes_def zip_map_map zip_same_conv_map comp_def)

text \<open>
  A late subscriber gets the photos the signal carried. An answer of \<^verbatim>\<open>GetResult\<close> holds,
  under each key, a fresh descriptor over the bytes of the first non-empty photo of that key in
  the published store, and opens no other; every other outcome leaves the descriptor table as it
  was, and a store that was not published never answers.
\<close>

theorem late_photos_as_signalled:
  assumes "photo_GetResult (Some st) v = (got, v')"
  shows "(case got of
      Answer m \<Rightarrow> rs_ready st \<and>
        minted (sw_fds v) (held (chosen (rs_payload st)) m) (sw_fds v') \<and>
        (\<forall>k. map_option (\<lambda>fd. sw_fds v' (nat fd)) (smap_find m k) =
          map_option (\<lambda>b. Some (sealed_file b)) (first_bytes (rs_payload st) k))
    | _ \<Rightarrow> sw_fds v' = sw_fds v)"
proof -
  let ?ps = "rs_payload st" and ?B = "chosen (rs_payload st)"
  obtain r w1 where s: "sealStoredPhotos st v = (r, w1)" by force
  note spec = photo_fetch_all_or_nothing [OF s]
  show ?thesis
  proof (cases r)
    case None
    then show ?thesis using assms s spec by (auto simp: photo_GetResult_def)
  next
    case (Some ss)
    then have ready: "rs_ready st" and keys: "map sp_key ss = map ph_key (kept_photos ?ps)"
      and m: "minted (sw_fds v) (zip (map sp_fd ss) (map ph_bytes (kept_photos ?ps))) (sw_fds w1)" using spec by simp_all
    obtain r2 w2 where a: "photo_adopt ss [] w1 = (r2, w2)" by force
    have "length (map ph_bytes (kept_photos ?ps)) = length ss" using keys by (metis length_map)
    from photo_adopt_spec [OF a this smap_ok_Nil, of "sw_fds v" ?B]
    have ad: "case r2 of None \<Rightarrow> sw_fds w2 = sw_fds v
      | Some out \<Rightarrow> minted (sw_fds v) (held ?B out) (sw_fds w2) \<and> smap_ok out \<and> keys_of out = sp_key ` set ss"
      using m by (cases r2) (simp_all add: keys zip_first_bytes chosen_Some)
    show ?thesis
    proof (cases r2)
      case None
      then show ?thesis using assms s Some a ad by (auto simp: photo_GetResult_def)
    next
      case (Some out)
      then have res: "got = Answer out" "v' = w2" using assms s \<open>r = Some ss\<close> a by (simp_all add: photo_GetResult_def)
      have mo: "minted (sw_fds v) (held ?B out) (sw_fds w2)" and ks: "keys_of out = ph_key ` set (kept_photos ?ps)"
        using ad Some arg_cong [OF keys, of set] by simp_all
      have "map_option (\<lambda>fd. sw_fds w2 (nat fd)) (smap_find out k) = map_of (files_of out w2) k" for k
        by (simp add: files_of_def smap_find_def map_of_map)
      also have "map_of (files_of out w2) k = map_option (\<lambda>b. Some (sealed_file b)) (first_bytes ?ps k)" for k
        unfolding held_files [OF mo] map_of_keyed ks by (rule chosen_files)
      finally show ?thesis using ready mo by (simp add: res)
    qed
  qed
qed

theorem late_photos_as_signalled_witness:
  "\<exists>m w. photo_GetResult (Some \<lparr>rs_ready = True, rs_payload = two_photos\<rparr>) quiet_world = (Answer m, w) \<and>
     map_option (\<lambda>fd. sw_fds w (nat fd)) (smap_find m ''a'') = Some (Some (sealed_file [1]))"
proof -
  let ?st = "\<lparr>rs_ready = True, rs_payload = two_photos\<rparr>"
  obtain got w where g: "photo_GetResult (Some ?st) quiet_world = (got, w)" by force
  have "fst (photo_GetResult (Some ?st) quiet_world) = Answer [(''a'', 5)]"
    by (simp add: photo_GetResult_def sealStoredPhotos_def two_photos_def quiet_world_def smap_find_def close_fd_def)
  then have "got = Answer [(''a'', 5)]" using g by simp
  moreover have "first_bytes two_photos ''a'' = Some [1]" by (simp add: first_bytes_def two_photos_def)
  ultimately have "map_option (\<lambda>fd. sw_fds w (nat fd)) (smap_find [(''a'', 5)] ''a'') = Some (Some (sealed_file [1]))"
    using late_photos_as_signalled [OF g] by simp
  then show ?thesis using g \<open>got = Answer [(''a'', 5)]\<close> by blast
qed

subsection \<open>The signing channels\<close>

definition row_wire :: "(sign_meta, u32) sealed_row \<Rightarrow> string \<times> int \<times> wire_dict \<times> u32" where
  "row_wire s = (sr_displayName s, sr_fd s, toMetaVariants (sr_meta s), sr_code s)"

lemma row_fd_wire [simp]: "row_fd (row_wire s) = sr_fd s"
  by (simp add: row_fd_def row_wire_def)

lemma batch_adopt_spec:
  assumes "batch_adopt ss rows w = (r, w')"
    and "minted t0 rs (sw_fds w)" and "mset (map fst rs) = mset (map row_fd rows @ map sr_fd ss)"
  shows "(case r of None \<Rightarrow> sw_fds w' = t0 | Some out \<Rightarrow> out = rows @ map row_wire ss \<and> sw_fds w' = sw_fds w) \<and>
    cw_signals w' = cw_signals w"
  using assms
proof (induction ss arbitrary: rows w)
  case Nil
  then show ?case by auto
next
  case (Cons s ss)
  obtain threw w1 where a: "throws_alloc w = (threw, w1)" by force
  have m: "minted t0 rs (sw_fds w1)" and fr: "sw_fds w1 = sw_fds w" "cw_signals w1 = cw_signals w"
    using Cons.prems(2) a throws_alloc_signals [OF a] by simp_all
  show ?case
  proof (cases threw)
    case True
    have "sw_fds (closeAll (map sr_fd ss @ [sr_fd s] @ map row_fd rows) w1) = t0"
      using Cons.prems(3) by (intro closeAll_minted_mset [OF m]) simp
    then show ?thesis using Cons.prems(1) a True fr by auto
  next
    case False
    then have "batch_adopt ss (rows @ [row_wire s]) w1 = (r, w')" using Cons.prems(1) a by (simp add: row_wire_def)
    from Cons.IH [OF this m] Cons.prems(3) fr show ?thesis by (cases r) simp_all
  qed
qed

lemma batch_rows_spec:
  assumes "batch_rows sealed w = (r, w')" and "minted t0 (zip (map sr_fd sealed) bss) (sw_fds w)"
    and "length bss = length sealed"
  shows "(case r of None \<Rightarrow> True \<notin> set (sw_allocs w) \<longrightarrow> sw_fds w' = t0 | Some out \<Rightarrow> out = map row_wire sealed \<and> sw_fds w' = sw_fds w) \<and>
    cw_signals w' = cw_signals w"
proof -
  obtain threw w1 where a: "throws_alloc w = (threw, w1)" by force
  have m: "minted t0 (zip (map sr_fd sealed) bss) (sw_fds w1)" using assms(2) a by simp
  show ?thesis
  proof (cases threw)
    case True
    then show ?thesis using assms(1) a throws_alloc_script [OF a] throws_alloc_signals [OF a] by (auto simp: batch_rows_def)
  next
    case False
    then have "batch_adopt sealed [] w1 = (r, w')" using assms(1) a by (simp add: batch_rows_def)
    from batch_adopt_spec [OF this m] assms(3) a throws_alloc_signals [OF a] show ?thesis
      by (cases r) simp_all
  qed
qed

text \<open>What the wire says of a batch whose rows are \<open>rows\<close>: each name, sealed bytes, metadata and code, in order.\<close>

definition batch_signal :: "sign_row list \<Rightarrow> (string \<times> memfile option \<times> wire_dict \<times> u32) list" where
  "batch_signal rows = map (\<lambda>r. (br_displayName r, Some (sealed_file (br_bytes r)), toMetaVariants (br_meta r), br_code r)) rows"

definition row_files :: "batch_wire \<Rightarrow> (nat \<rightharpoonup> memfile) \<Rightarrow> (string \<times> memfile option \<times> wire_dict \<times> u32) list" where
  "row_files wire t = map (\<lambda>(n, fd, m, c). (n, t (nat fd), m, c)) wire"

lemma row_files_rows:
  assumes "map sealed_row_of sealed = map row_of rows"
    and "minted t0 (zip (map sr_fd sealed) (map br_bytes rows)) t"
  shows "row_files (map row_wire sealed) t = batch_signal rows"
proof (rule nth_equalityI)
  have len: "length sealed = length rows" using assms(1) by (metis length_map)
  then show "length (row_files (map row_wire sealed) t) = length (batch_signal rows)"
    by (simp add: row_files_def batch_signal_def)
  fix i assume "i < length (row_files (map row_wire sealed) t)"
  then have i: "i < length sealed" "i < length rows" using len by (simp_all add: row_files_def)
  have "sealed_row_of (sealed ! i) = row_of (rows ! i)" using assms(1) i by (metis nth_map)
  moreover have "(sr_fd (sealed ! i), br_bytes (rows ! i)) \<in> set (zip (map sr_fd sealed) (map br_bytes rows))"
    using i len by (auto simp: in_set_zip intro!: exI [of _ i])
  then have "t (nat (sr_fd (sealed ! i))) = Some (sealed_file (br_bytes (rows ! i)))"
    using assms(2) by (auto simp: minted_def)
  ultimately show "row_files (map row_wire sealed) t ! i = batch_signal rows ! i"
    using i by (simp add: row_files_def batch_signal_def row_wire_def sealed_row_of_def row_of_def)
qed

lemma sign_emit_spec:
  assumes "sign_emitResult torn st (SignPayload a) w = (ok, st', w')"
  shows "sw_fds w' = sw_fds w \<and> (ok \<longrightarrow> rs_ready st' \<and> rs_payload st' = \<lparr>ar_bytes = ar_bytes a, ar_meta = ar_meta a\<rparr>) \<and>
    (\<not> ok \<longrightarrow> rs_ready st' = rs_ready st \<and> cw_signals w' = cw_signals w) \<and>
    cw_signals w' \<in> {cw_signals w, cw_signals w @ [SignResult (Some (sealed_file (ar_bytes a))) (toMetaVariants (ar_meta a))]}"
proof -
  obtain fd st1 w1 where p: "publishSealedResult torn st (ar_bytes a) (ar_meta a) w = (fd, st1, w1)" by (metis prod_cases3)
  note spec = publishSealedResult_spec [OF p]
  have sg: "cw_signals w1 = cw_signals w"
    using p seal_signals [of "ar_bytes a" w] throws_alloc_signals
    by (fastforce simp: publishSealedResult_def Let_def split: prod.splits if_splits)
  show ?thesis
  proof (cases "fd < 0")
    case True
    then show ?thesis using assms p spec sg by (simp add: sign_emitResult_def sealPublishAndEmitSignResult_def)
  next
    case False
    let ?sg = "SignResult (sw_fds w1 (nat fd)) (toMetaVariants (ar_meta a))"
    have m: "minted (sw_fds w) [(fd, ar_bytes a)] (sw_fds w1)" using spec False by simp
    then have sealed: "sw_fds w1 (nat fd) = Some (sealed_file (ar_bytes a))" by (simp add: minted_def)
    have res: "ok" "st' = st1" "w' = close_fd fd (send_nx ?sg w1)"
      using assms p False
      by (auto simp: sign_emitResult_def sealPublishAndEmitSignResult_def send_nx_def split: prod.splits)
    have "sw_fds w' = sw_fds w"
      using close_minted [of "sw_fds w" fd "ar_bytes a" "[]" "send_nx ?sg w1"] m by (simp add: res(3))
    then show ?thesis using res spec False send_nx_signals [of ?sg w1] sg sealed by (simp add: res(3))
  qed
qed


definition sample_meta :: sign_meta where
  "sample_meta = \<lparr>sm_format = ''pades'', sm_level = ''b-b'', sm_tsaUsed = False, sm_chainComplete = True\<rparr>"

definition sample_artifact :: "sign_meta artifact" where
  "sample_artifact = \<lparr>ar_bytes = [4, 2], ar_meta = sample_meta\<rparr>"


lemma batch_loop_signals: "batch_loop rows sealed w = (r, w') \<Longrightarrow> cw_signals w' = cw_signals w"
proof (induction rows arbitrary: sealed w)
  case (Cons p rows)
  obtain fd w1 where s: "seal (br_bytes p) w = (fd, w1)" by force
  obtain threw w2 where a: "throws_alloc w1 = (threw, w2)" by force
  then show ?case using Cons s seal_signals [OF s] throws_alloc_signals [OF a] by (auto split: if_splits)
qed simp

lemma publishBatch_signals:
  assumes "publishSealedSignBatchResult torn st rows w = (out, st', w')"
  shows "cw_signals w' = cw_signals w"
proof -
  obtain b1 w1 where a1: "throws_alloc w = (b1, w1)" by force
  obtain r w2 where l: "batch_loop rows [] w1 = (r, w2)" by force
  obtain b3 w3 where a3: "throws_alloc w2 = (b3, w3)" by force
  show ?thesis
    using assms a1 l a3 throws_alloc_signals [OF a1] throws_alloc_signals [OF a3] batch_loop_signals [OF l]
    by (cases r) (auto simp: publishSealedSignBatchResult_def split: if_splits)
qed

lemma batch_GetResult_spec:
  assumes "batch_GetResult (Some st) v = (got, v')"
  shows "case got of
       Answer wire \<Rightarrow> rs_ready st \<and> row_files wire (sw_fds v') = batch_signal (rs_payload st) \<and>
         minted (sw_fds v) (zip (map row_fd wire) (map br_bytes (rs_payload st))) (sw_fds v')
     | _ \<Rightarrow> rs_ready st \<and> True \<notin> set (sw_allocs v) \<longrightarrow> sw_fds v' = sw_fds v"
proof -
  obtain r v1 where f: "sealStoredSignBatchResult st v = (r, v1)" by force
  show ?thesis
  proof (cases r)
    case None
    then show ?thesis using assms f fetchBatch_spec [OF f] by (auto simp: batch_GetResult_def)
  next
    case (Some ss)
    then have ready: "rs_ready st" and rows: "map sealed_row_of ss = map row_of (rs_payload st)"
      and m: "minted (sw_fds v) (zip (map sr_fd ss) (map br_bytes (rs_payload st))) (sw_fds v1)"
      and al: "set (sw_allocs v1) \<subseteq> set (sw_allocs v)" using fetchBatch_spec [OF f] by simp_all
    have len: "length (map br_bytes (rs_payload st)) = length ss" using rows by (metis length_map)
    obtain r2 v2 where b: "batch_rows ss v1 = (r2, v2)" by force
    note bs = batch_rows_spec [OF b m len]
    show ?thesis
    proof (cases r2)
      case None
      then show ?thesis using assms f Some b bs al by (auto simp: batch_GetResult_def)
    next
      case wire: (Some wire)
      then have res: "got = Answer wire" "v' = v2" using assms f Some b by (simp_all add: batch_GetResult_def)
      have wr: "wire = map row_wire ss" and fds: "sw_fds v2 = sw_fds v1" using bs wire by simp_all
      show ?thesis using ready row_files_rows [OF rows m] m by (simp add: res wr fds comp_def)
    qed
  qed
qed


definition sample_rows :: "sign_row list" where
  "sample_rows = [\<lparr>br_displayName = ''a.pdf'', br_bytes = [7], br_meta = sample_meta, br_code = 0\<rparr>,
                  \<lparr>br_displayName = ''b.pdf'', br_bytes = [], br_meta = sample_meta, br_code = 3\<rparr>]"

definition stored_rows :: "sign_row list result_state" where
  "stored_rows = \<lparr>rs_ready = True, rs_payload = sample_rows\<rparr>"

lemma sample_batch_published:
  "fst (snd (batch_emitResult (\<lambda>a b. a) (unpublished []) (BatchPayload sample_rows :: unit result_payload) quiet_world)) = stored_rows"
  by (simp add: batch_emitResult_def publishSealedSignBatchResult_def quiet_world_def sample_rows_def unpublished_def
      stored_rows_def batch_rows_def)

lemma sample_batch_fetched:
  "\<exists>wire. fst (batch_GetResult (Some stored_rows) quiet_world) = Answer wire"
  by (simp add: batch_GetResult_def sealStoredSignBatchResult_def quiet_world_def stored_rows_def sample_rows_def batch_rows_def)


text \<open>
  A batch fetch can leak every descriptor it sealed. \<^verbatim>\<open>GetResult\<close> reserves its rows after all of
  them have been sealed and before the first has an owner, outside the handler that would close
  them: when that allocation throws, the call fails and one sealed descriptor per row stays open.
\<close>

theorem batch_reserve_leaks:
  assumes "sealStoredSignBatchResult st v = (Some sealed, v1)" and "throws_alloc v1 = (True, v2)"
  shows "batch_GetResult (Some st) v = (Fails, v2) \<and>
    minted (sw_fds v) (zip (map sr_fd sealed) (map br_bytes (rs_payload st))) (sw_fds v2)"
  using assms fetchBatch_spec [OF assms(1)] by (simp add: batch_GetResult_def batch_rows_def)

theorem batch_reserve_leaks_witness:
  "sw_fds (snd (batch_GetResult (Some stored_rows) (quiet_world\<lparr>sw_allocs := [False, False, False, True]\<rparr>))) 5 = Some (sealed_file [7])"
proof -
  let ?w = "quiet_world\<lparr>sw_allocs := [False, False, False, True]\<rparr>"
  obtain r v1 where f: "sealStoredSignBatchResult stored_rows ?w = (r, v1)" by force
  have "map_option (map sr_fd) (fst (sealStoredSignBatchResult stored_rows ?w)) = Some [5, 6]"
      "sw_allocs (snd (sealStoredSignBatchResult stored_rows ?w)) = [True]"
    by (simp_all add: sealStoredSignBatchResult_def quiet_world_def stored_rows_def sample_rows_def)
  then obtain s where s: "r = Some s" "map sr_fd s = [5, 6]" and t: "sw_allocs v1 = [True]" unfolding f by auto
  obtain v2 where a: "throws_alloc v1 = (True, v2)" using t by (simp add: throws_alloc_def)
  from batch_reserve_leaks [OF f [unfolded s(1)] a] show ?thesis
    unfolding s(2) by (simp add: minted_def) (simp add: stored_rows_def sample_rows_def)
qed

subsection \<open>The inline channels\<close>

text \<open>
  C22: certificates cross the bus unchanged. When the agent publishes a certificate read and the
  module later asks for it, what the module collects is, certificate by certificate and in
  order, what the agent's own snapshots say: identity, usage, key facts and subject name, the
  key type surviving because the library reads back its own tokens. The same list went out in the
  signal if any did, and the module's branch for a subject name of another type is never taken.
\<close>

theorem certificates_reach_module:
  assumes "certificates_emitResult tok torn st (CertificatesPayload certs) w = (ok, st', w')" and "\<not> rs_ready st"
    and "certificates_GetResult tok (Some st') v = (Answer wire, v')" and "\<And>k. keyTypeFromToken L (tok k) = k"
  shows "collectCerts L preAuth wire [] = Inr (List.map_filter (\<lambda>c. certEntryFrom L (neutral_of c) preAuth) certs) \<and>
    (cw_signals w' = cw_signals w \<or> cw_signals w' = cw_signals w @ [CertificatesResult wire])"
proof -
  obtain pub st1 w1 where p: "publishResult torn st certs w = (pub, st1, w1)" by (metis prod_cases3)
  have st': "st' = st1" and w': "w' = emitCertificates1Result tok certs w1"
    using assms(1) p by (simp_all add: certificates_emitResult_def)
  obtain c v1 where rd: "readStoredResult st' v = (c, v1)" by force
  then obtain cs where cs: "c = Some cs" and wire: "wire = buildCertificates1Wire tok cs"
    using assms(3) by (cases c) (auto simp: certificates_GetResult_def split: prod.splits if_splits)
  have "rs_ready st'" and pay: "rs_payload st' = cs"
    using rd cs by (auto simp: readStoredResult_def Let_def split: if_splits prod.splits)
  then have "pub" using publishResult_cases(3) [OF p] assms(2) st' by auto
  then have "cs = certs" using publishResult_cases(2) [OF p] st' pay by simp
  moreover have "cw_signals w' \<in> {cw_signals w, cw_signals w @ [CertificatesResult (buildCertificates1Wire tok certs)]}"
    using send_nx_signals [of "CertificatesResult (buildCertificates1Wire tok certs)" w1] publishResult_signals [OF p]
    by (simp add: w' emitCertificates1Result_def)
  ultimately show ?thesis using certificates_cross_wire [of L tok, OF assms(4)] by (auto simp: wire)
qed

theorem certificates_reach_module_witness:
  "\<exists>wire v. certificates_GetResult two_key_token (Some \<lparr>rs_ready = True, rs_payload = [sample_cert_snapshot]\<rparr>) quiet_world = (Answer wire, v) \<and>
     collectCerts two_key_lib PreReadNone wire [] = Inr [(''Ana'', True)]"
proof -
  let ?c = "[sample_cert_snapshot]" and ?st = "\<lparr>rs_ready = True, rs_payload = [sample_cert_snapshot]\<rparr>"
  obtain ok st w where e: "certificates_emitResult two_key_token (\<lambda>a b. a) (unpublished []) (CertificatesPayload ?c) quiet_world = (ok, st, w)"
    by (metis prod_cases3)
  have "fst (snd (certificates_emitResult two_key_token (\<lambda>a b. a) (unpublished []) (CertificatesPayload ?c) quiet_world)) = ?st"
    by (simp add: certificates_emitResult_def publishResult_def quiet_world_def unpublished_def)
  then have st: "st = ?st" unfolding e by simp
  have "\<exists>wire. fst (certificates_GetResult two_key_token (Some ?st) quiet_world) = Answer wire"
    by (simp add: certificates_GetResult_def readStoredResult_def quiet_world_def)
  then obtain wire v where g: "certificates_GetResult two_key_token (Some ?st) quiet_world = (Answer wire, v)" by (metis prod.collapse)
  have "keyTypeFromToken two_key_lib (two_key_token k) = k" for k by (simp add: two_key_lib_def two_key_token_def)
  with certificates_reach_module [OF e _ g [folded st], of two_key_lib PreReadNone] g show ?thesis
    by (simp add: unpublished_def map_filter_simps)
      (simp add: two_key_lib_def neutral_of_def subject_of_def sample_cert_snapshot_def fields_under_def sample_group_def
        cert_field_def sample_field_def)
qed

text \<open>The credential dictionaries, key by key.\<close>

definition emplace_opt :: "string \<times> variant option \<Rightarrow> wire_dict \<Rightarrow> wire_dict" where
  "emplace_opt kv m = (case snd kv of Some v \<Rightarrow> smap_emplace (fst kv) v m | None \<Rightarrow> m)"

lemma emplace_as_opt:
  "smap_emplace k v = emplace_opt (k, Some v)" "emplaceInt k i = emplace_opt (k, map_option VInt32 i)"
  "emplaceStr k s = emplace_opt (k, map_option VString s)"
  by (auto simp: fun_eq_iff emplace_opt_def emplaceInt_def emplaceStr_def split: option.split)

lemma find_fold_opt:
  "smap_ok m \<Longrightarrow> distinct (map fst kvs) \<Longrightarrow> (\<forall>k \<in> fst ` set kvs. smap_find m k = None) \<Longrightarrow>
   (k, v) \<in> set kvs \<Longrightarrow> smap_find (fold emplace_opt kvs m) k = v"
proof (induction kvs arbitrary: m)
  case (Cons kv kvs)
  let ?m = "emplace_opt kv m"
  have ok: "smap_ok ?m" using Cons.prems(1) by (simp add: emplace_opt_def smap_ok_emplace split: option.split)
  have fd: "smap_find ?m k' = (if k' = fst kv then snd kv else smap_find m k')" for k'
    using Cons.prems(1,3) by (auto simp: emplace_opt_def smap_find_emplace split: option.splits)
  have kept: "k' \<notin> fst ` set kvs \<Longrightarrow> smap_ok n \<Longrightarrow> smap_find (fold emplace_opt kvs n) k' = smap_find n k'" for k' n
    by (induction kvs arbitrary: n)
      (auto simp: emplace_opt_def smap_find_emplace smap_ok_emplace split: option.splits)
  show ?case
  proof (cases "kv = (k, v)")
    case True
    then show ?thesis using kept [of k ?m] ok Cons.prems(2) fd by simp
  next
    case False
    then have "(k, v) \<in> set kvs" using Cons.prems(4) by simp
    moreover have "\<forall>k' \<in> fst ` set kvs. smap_find ?m k' = None" unfolding fd
      using Cons.prems(2,3) by (intro ballI) (metis distinct.simps(2) image_eqI image_set list.set_intros(2) list.simps(9))
    ultimately show ?thesis using Cons.IH [OF ok] Cons.prems(2) by simp
  qed
qed simp

text \<open>The entries of a credential record, in the order they are written.\<close>

definition record_entries :: "credential_record \<Rightarrow> (string \<times> variant option) list" where
  "record_entries r =
     [(''id'', Some (VString (cdr_id r))), (''label'', Some (VString (cdr_label r))),
      (''kind'', Some (VString (cdr_kind r))), (''state'', Some (VString (cdr_state r))),
      (''retries_left'', map_option VInt32 (cdr_retriesLeft r)), (''retries_max'', map_option VInt32 (cdr_retriesMax r)),
      (''uses_left'', map_option VInt32 (cdr_usesLeft r)), (''uses_max'', map_option VInt32 (cdr_usesMax r)),
      (''unblocks_left'', map_option VInt32 (cdr_unblocksLeft r)),
      (''can_change'', Some (VBool (cdr_canChange r))), (''unblockable'', Some (VBool (cdr_unblockable r))),
      (''activatable'', Some (VBool (cdr_activatable r))),
      (''key_activation_pending'', Some (VBool (cdr_keyActivationPending r))),
      (''key_activatable'', Some (VBool (cdr_keyActivatable r))), (''recovery'', Some (cdr_recovery r)),
      (''blocked_guidance_key'', map_option VString (cdr_blockedGuidanceKey r)),
      (''blocked_guidance_fallback'', map_option VString (cdr_blockedGuidanceFallback r)),
      (''key_activation_guidance_key'', map_option VString (cdr_keyActivationGuidanceKey r)),
      (''key_activation_guidance_fallback'', map_option VString (cdr_keyActivationGuidanceFallback r))]"

lemma record_dict_entries: "toCredentialRecordDict r = fold emplace_opt (record_entries r) []"
  by (simp only: toCredentialRecordDict_def record_entries_def emplace_as_opt fold.simps comp_apply id_apply)

lemma record_keys_distinct: "distinct (map fst (record_entries r))"
  by (simp add: record_entries_def)

lemma record_dict_find: "(k, v) \<in> set (record_entries r) \<Longrightarrow> smap_find (toCredentialRecordDict r) k = v"
  unfolding record_dict_entries
  by (rule find_fold_opt [OF smap_ok_Nil record_keys_distinct]) (simp_all add: smap_find_def)

lemma map_option_inj: "inj f \<Longrightarrow> map_option f a = map_option f b \<longleftrightarrow> a = b"
  by (metis inj_map_eq_map option.inj_map inj_eq)

lemma record_entries_inj:
  assumes "record_entries r = record_entries s" shows "r = s"
proof -
  have "inj VInt32" "inj VString" by (auto intro: injI)
  then show ?thesis using assms by (cases r, cases s) (simp add: record_entries_def map_option_inj)
qed

lemma credential_token_inj: "credentialOutcomeToken a = credentialOutcomeToken b \<longleftrightarrow> a = b"
  by (cases a; cases b) (simp_all add: credentialOutcomeToken_def)

lemma result_dict_find:
  "smap_find (toCredentialResultDict r) ''outcome'' = Some (VString (credentialOutcomeToken (cop_outcome r)))"
  "smap_find (toCredentialResultDict r) ''blocked'' = Some (VBool (cop_blocked r))"
  "smap_find (toCredentialResultDict r) ''retries_left'' = map_option VInt32 (cop_retriesLeft r)"
  by (auto simp: toCredentialResultDict_def emplaceInt_def smap_find_emplace smap_ok_emplace smap_find_def [of "[]"]
    split: option.split)

text \<open>
  Nothing of a credential listing is lost on the wire. The dictionary of a record determines
  the record: no two records that differ in any member, present or absent, are sent alike; and the
  dictionary of an outcome determines the outcome, the blocked flag and the retry counter, an
  absent counter included.
\<close>

theorem credential_wire_faithful:
  "(toCredentialRecordDict r = toCredentialRecordDict s \<longleftrightarrow> r = s) \<and>
   (toCredentialResultDict x = toCredentialResultDict y \<longleftrightarrow> x = y)"
proof (intro conjI iffI)
  assume eq: "toCredentialRecordDict r = toCredentialRecordDict s"
  have "record_entries r = record_entries s"
  proof (rule nth_equalityI)
    show len: "length (record_entries r) = length (record_entries s)" by (simp add: record_entries_def)
    fix i assume i: "i < length (record_entries r)"
    have key: "map fst (record_entries r) = map fst (record_entries s)" by (simp add: record_entries_def)
    then have k: "fst (record_entries r ! i) = fst (record_entries s ! i)" using i len by (metis nth_map)
    have "smap_find (toCredentialRecordDict r) (fst (record_entries r ! i)) = snd (record_entries r ! i)"
      "smap_find (toCredentialRecordDict s) (fst (record_entries s ! i)) = snd (record_entries s ! i)"
      by (rule record_dict_find, use i len in simp)+
    then have "snd (record_entries r ! i) = snd (record_entries s ! i)" unfolding eq k by simp
    with k show "record_entries r ! i = record_entries s ! i" by (rule prod_eqI)
  qed
  then show "r = s" by (rule record_entries_inj)
next
  assume eq: "toCredentialResultDict x = toCredentialResultDict y"
  have "inj VInt32" by (auto intro: injI)
  then show "x = y" using result_dict_find [of x] result_dict_find [of y] eq
    by (cases x, cases y) (simp add: credential_token_inj map_option_inj)
qed simp_all

end
