(* ===== verification/Manager_Object.thy ===== *)
theory Manager_Object
  imports Card_Object Sealed_Memfd
begin

text \<open>
  The root object (\<^verbatim>\<open>agent/src/dbus/ManagerObject.cpp\<close>): \<^verbatim>\<open>Manager1\<close>, \<^verbatim>\<open>Config1\<close> and the
  \<^verbatim>\<open>Pkcs11_1\<close> forwarders. The configuration store, the anchor cache, the rate limiter and the
  PKCS#11 broker are the agent library's: their states are type variables and their operations
  parameters. What a call does to them is recorded, so that an order or an absence can be
  stated. The configuration methods are deferred as the card's are: an entry that refuses at
  once or names the action asked for and the body a grant runs.
\<close>

subsection \<open>Error names and actions\<close>

definition kErrUnknownKey :: string where "kErrUnknownKey = ''org.librescrs.Agent.Error.UnknownConfigKey''"
definition kErrReadOnly :: string where "kErrReadOnly = ''org.librescrs.Agent.Error.ReadOnlyConfig''"
definition kErrInvalidValue :: string where "kErrInvalidValue = ''org.librescrs.Agent.Error.InvalidConfigValue''"
definition kErrInputTooLarge :: string where "kErrInputTooLarge = ''org.librescrs.Agent.Error.InputTooLarge''"
definition kErrNotAMasterList :: string where "kErrNotAMasterList = ''org.librescrs.Agent.Error.NotAMasterList''"
definition kErrEmptyMasterList :: string where "kErrEmptyMasterList = ''org.librescrs.Agent.Error.EmptyMasterList''"
definition kErrMalformedMasterList :: string where
  "kErrMalformedMasterList = ''org.librescrs.Agent.Error.MalformedMasterList''"
definition kErrBadMasterListSignature :: string where
  "kErrBadMasterListSignature = ''org.librescrs.Agent.Error.BadMasterListSignature''"
definition kErrMasterListSignerChanged :: string where
  "kErrMasterListSignerChanged = ''org.librescrs.Agent.Error.MasterListSignerChanged''"
definition kErrMasterListReplayed :: string where
  "kErrMasterListReplayed = ''org.librescrs.Agent.Error.MasterListReplayed''"
definition kErrAnchorCacheNotWritable :: string where
  "kErrAnchorCacheNotWritable = ''org.librescrs.Agent.Error.AnchorCacheNotWritable''"
definition kErrInternalPkcs11 :: string where "kErrInternalPkcs11 = ''org.librescrs.Agent.Error.Internal''"

lemmas master_list_names = kErrNotAMasterList_def kErrEmptyMasterList_def kErrMalformedMasterList_def
  kErrBadMasterListSignature_def kErrMasterListSignerChanged_def kErrMasterListReplayed_def
  kErrAnchorCacheNotWritable_def

text \<open>\<open>DbusMutable\<close> stands for every enumerator the code does not name.\<close>

datatype mutability = FileOnly | ReadOnly | DbusMutable | DbusMutableTrust

definition actionFor :: "string \<Rightarrow> string \<Rightarrow> mutability \<Rightarrow> string" where
  "actionFor kActionConfigure kActionConfigureTrust m =
    (if m = DbusMutableTrust then kActionConfigureTrust else kActionConfigure)"

subsection \<open>Country signing anchors\<close>

record accepted_signer =
  as_fingerprint :: bytes
  as_identityEstablished :: bool
  as_signedAt :: "64 word option"

record anchor_state =
  an_anchorCount :: u32
  an_issuerCount :: u32
  an_signers :: "accepted_signer list"
  an_acceptedAt :: "64 word option"

record csca_anchor_state =
  ca_anchors :: u32
  ca_issuers :: u32
  ca_replayRefusalActive :: bool
  ca_signer :: string
  ca_signerPinned :: bool
  ca_acceptedAt :: "64 word option"
  ca_signedAt :: "64 word option"

record trust_lib =
  replayRefusalActive :: "anchor_state \<Rightarrow> bool"
  everyPublisherEstablished :: "anchor_state \<Rightarrow> bool"
  toHex :: "bytes \<Rightarrow> string"

definition toRecordedState :: "trust_lib \<Rightarrow> anchor_state \<Rightarrow> csca_anchor_state" where
  "toRecordedState T st =
    (let only = (case an_signers st of [s] \<Rightarrow> Some s | _ \<Rightarrow> None) in
     \<lparr>ca_anchors = an_anchorCount st, ca_issuers = an_issuerCount st,
      ca_replayRefusalActive = replayRefusalActive T st,
      ca_signer = (case only of Some s \<Rightarrow> toHex T (as_fingerprint s) | None \<Rightarrow> []),
      ca_signerPinned = everyPublisherEstablished T st,
      ca_acceptedAt = an_acceptedAt st,
      ca_signedAt = (case only of Some s \<Rightarrow> as_signedAt s | None \<Rightarrow> None)\<rparr>)"

definition anchorStateDict :: "csca_anchor_state option \<Rightarrow> opt_dict" where
  "anchorStateDict st =
    (case st of
       None \<Rightarrow> []
     | Some s \<Rightarrow>
         let out = smap_assign ''anchors'' (VUInt32 (ca_anchors s)) [];
             out = smap_assign ''issuers'' (VUInt32 (ca_issuers s)) out;
             out = (if ca_signer s \<noteq> [] then smap_assign ''signer'' (VString (ca_signer s)) out else out);
             out = smap_assign ''signerPinned'' (VBool (ca_signerPinned s)) out;
             out = (case ca_acceptedAt s of Some t \<Rightarrow> smap_assign ''acceptedAt'' (VInt64 t) out | None \<Rightarrow> out);
             out = smap_assign ''replayRefusalActive'' (VBool (ca_replayRefusalActive s)) out in
         case ca_signedAt s of Some t \<Rightarrow> smap_assign ''signedAt'' (VInt64 t) out | None \<Rightarrow> out)"

datatype import_refusal =
  NotAMasterList | EmptyList | Malformed | BadSignature | CacheNotWritable | Replayed | SignerChanged

record refusal =
  rf_reason :: import_refusal
  rf_trustedSigner :: "bytes option"
  rf_seenSigner :: "bytes option"
  rf_trustedSignedAt :: "64 word option"
  rf_seenSignedAt :: "64 word option"

text \<open>\<^verbatim>\<open>std::to_string\<close> of a signed 64-bit integer.\<close>

definition show_i64 :: "64 word \<Rightarrow> string" where
  "show_i64 w = (if sint w < 0 then ''-'' @ show_nat (nat (- sint w)) else show_nat (nat (sint w)))"

definition throwRefusal :: "trust_lib \<Rightarrow> refusal \<Rightarrow> bus_error" where
  "throwRefusal T r =
    (case rf_reason r of
       NotAMasterList \<Rightarrow> BusErr kErrNotAMasterList ''The file is not an ICAO master list''
     | EmptyList \<Rightarrow> BusErr kErrEmptyMasterList ''The master list carries no country signing certificate''
     | Malformed \<Rightarrow> BusErr kErrMalformedMasterList ''The master list's content cannot be read''
     | BadSignature \<Rightarrow> BusErr kErrBadMasterListSignature ''The signature over the master list does not verify''
     | CacheNotWritable \<Rightarrow>
         BusErr kErrAnchorCacheNotWritable ''The master list verified but the anchors could not be stored''
     | Replayed \<Rightarrow> BusErr kErrMasterListReplayed
         (''The master list is not newer than the one already installed'' @
          (case rf_trustedSignedAt r of Some t \<Rightarrow> ''; installed list signed at '' @ show_i64 t | None \<Rightarrow> []) @
          (case rf_seenSignedAt r of Some t \<Rightarrow> ''; offered list signed at '' @ show_i64 t
            | None \<Rightarrow> ''; the offered list carries no signing time at all''))
     | SignerChanged \<Rightarrow> BusErr kErrMasterListSignerChanged
         (''The master list is signed by a publisher this agent does not follow'' @
          (case rf_trustedSigner r of Some f \<Rightarrow> ''; trusted signer '' @ toHex T f | None \<Rightarrow> []) @
          (case rf_seenSigner r of Some f \<Rightarrow> ''; offered signer '' @ toHex T f | None \<Rightarrow> [])))"

subsection \<open>The object\<close>

record set_result =
  set_ok :: bool
  set_errorName :: string
  set_message :: string

type_synonym tsl_source = "string \<times> bool \<times> bool"

text \<open>The configuration store with its state \<open>'cfg\<close>.\<close>

record 'cfg store_lib =
  mutabilityOf :: "string \<Rightarrow> mutability option"
  setDefaultLevel :: "string \<Rightarrow> 'cfg \<Rightarrow> set_result \<times> 'cfg"
  setTsaUrls :: "string list \<Rightarrow> 'cfg \<Rightarrow> set_result \<times> 'cfg"
  setTslSources :: "tsl_source list \<Rightarrow> 'cfg \<Rightarrow> set_result \<times> 'cfg"
  setDefaultReason :: "string \<Rightarrow> 'cfg \<Rightarrow> set_result \<times> 'cfg"
  setDefaultLocation :: "string \<Rightarrow> 'cfg \<Rightarrow> set_result \<times> 'cfg"
  resetKey :: "string \<Rightarrow> bool \<Rightarrow> 'cfg \<Rightarrow> set_result \<times> 'cfg"
  recordCscaAnchorState :: "csca_anchor_state \<Rightarrow> 'cfg \<Rightarrow> 'cfg"
  cscaAnchorState :: "'cfg \<Rightarrow> csca_anchor_state option"
  cscaCacheDir :: "'cfg \<Rightarrow> string"
  discardStaleAnchorReport :: "'cfg \<Rightarrow> 'cfg"
  tslSources :: "'cfg \<Rightarrow> tsl_source list"

record ('cfg, 'cache) manager_lib =
  store :: "'cfg store_lib"
  trust :: trust_lib
  mgr_rate_allows :: "string list \<Rightarrow> string \<Rightarrow> bool"
  mgr_readBoundedRegularFd :: "nat \<Rightarrow> read_status \<times> bytes"
  importMasterList :: "bytes \<Rightarrow> string \<Rightarrow> 64 word \<Rightarrow> 'cache \<Rightarrow> (refusal + anchor_state) \<times> 'cache"
  now_seconds :: "64 word"
  kActionConfigure :: string
  kActionConfigureTrust :: string
  isValidLayoutRect :: "double \<Rightarrow> double \<Rightarrow> double \<Rightarrow> double \<Rightarrow> bool"
  layoutVisualSignature :: "string \<Rightarrow> double \<Rightarrow> double \<Rightarrow> double \<Rightarrow> double \<Rightarrow> double \<times> double \<times> string list \<times> bool"
  appearanceFontBytes :: bytes
  kAgentFeatures :: "string list"

record ('cfg, 'cache) manager =
  mg_version :: string
  mg_config :: 'cfg
  mg_cache :: 'cache
  mg_charges :: "string list"
  mg_fd_reads :: "nat list"
  mg_imports :: "bytes list"
  mg_changed :: "string list"

definition ManagerObject_ctor ::
  "('cfg, 'cache) manager_lib \<Rightarrow> string \<Rightarrow> 'cfg \<Rightarrow> 'cache \<Rightarrow> ('cfg, 'cache) manager" where
  "ManagerObject_ctor L version cfg cache =
    \<lparr>mg_version = version, mg_config = discardStaleAnchorReport (store L) cfg, mg_cache = cache, mg_charges = [],
     mg_fd_reads = [], mg_imports = [], mg_changed = []\<rparr>"

definition Version :: "('cfg, 'cache) manager \<Rightarrow> string" where
  "Version g = mg_version g"

definition Features :: "('cfg, 'cache) manager_lib \<Rightarrow> string list" where
  "Features L = kAgentFeatures L"

definition LayoutVisualSignature ::
  "('cfg, 'cache) manager_lib \<Rightarrow> string \<Rightarrow> double \<Rightarrow> double \<Rightarrow> double \<Rightarrow> double \<Rightarrow>
     bus_error + (double \<times> double \<times> string list \<times> bool)" where
  "LayoutVisualSignature L text x y width height =
    (if \<not> isValidLayoutRect L x y width height
     then Inl (BusErr kErrInvalidRequest ''LayoutVisualSignature requires a finite box with a positive width/height'')
     else Inr (layoutVisualSignature L text x y width height))"

definition GetAppearanceFont ::
  "('cfg, 'cache) manager_lib \<Rightarrow> create_env \<Rightarrow> fdtable \<Rightarrow> ((bus_error + int) \<times> fdtable) option" where
  "GetAppearanceFont L env t =
    (case makeSealedMemfd env ''librescrs-font'' (appearanceFontBytes L) t of
       None \<Rightarrow> None
     | Some ((fd, err), t) \<Rightarrow>
         Some (if fd < 0
               then (Inl (BusErr kErrCommunication ''failed to seal the appearance font into a memfd''), t)
               else (Inr fd, t)))"

definition TslSources :: "('cfg, 'cache) manager_lib \<Rightarrow> ('cfg, 'cache) manager \<Rightarrow> tsl_source list" where
  "TslSources L g = tslSources (store L) (mg_config g)"

definition CscaAnchorState :: "('cfg, 'cache) manager_lib \<Rightarrow> ('cfg, 'cache) manager \<Rightarrow> opt_dict" where
  "CscaAnchorState L g = anchorStateDict (cscaAnchorState (store L) (mg_config g))"

definition emitConfigChanged :: "bool \<Rightarrow> string \<Rightarrow> ('cfg, 'cache) manager \<Rightarrow> ('cfg, 'cache) manager" where
  "emitConfigChanged threw key g = (if threw then g else g\<lparr>mg_changed := mg_changed g @ [key]\<rparr>)"

text \<open>The in-flight message: its sender and the pid of its credentials may be missing.\<close>

definition callerBusName :: "string option \<Rightarrow> string" where
  "callerBusName sender = (case sender of Some s \<Rightarrow> s | None \<Rightarrow> [])"

subsection \<open>The deferred configuration methods\<close>

datatype ('r, 'w) config_entry =
    RefusedAtEntry bus_error
  | DeferredTo string string "'w \<Rightarrow> (bus_error + 'r) \<times> 'w"

text \<open>The completion, as for the card's methods: the body's effects happen exactly when it runs.\<close>

definition answer_config :: "('r, 'w) config_entry \<Rightarrow> outcome \<Rightarrow> 'r pending \<Rightarrow> 'w \<Rightarrow> 'r pending \<times> 'w" where
  "answer_config e outc p w =
    (case e of
       RefusedAtEntry err \<Rightarrow> (send (Err err) (p\<lparr>answered := True\<rparr>), w)
     | DeferredTo action denied granted \<Rightarrow>
         (authorizeThenReply denied
            (case fst (granted w) of Inl err \<Rightarrow> ThrowsBus err | Inr r \<Rightarrow> Results r) outc p,
          if outc = Granted \<and> \<not> m_closed p then snd (granted w) else w))"

definition set_with ::
  "(variant \<Rightarrow> 'a option) \<Rightarrow> ('a \<Rightarrow> 'cfg \<Rightarrow> set_result \<times> 'cfg) \<Rightarrow> variant \<Rightarrow> 'cfg \<Rightarrow> (set_result \<times> 'cfg) option" where
  "set_with get put v cfg = (case get v of None \<Rightarrow> None | Some x \<Rightarrow> Some (put x cfg))"

definition setValueGranted ::
  "('cfg, 'cache) manager_lib \<Rightarrow> string \<Rightarrow> variant \<Rightarrow> ('cfg, 'cache) manager \<Rightarrow> (bus_error + unit) \<times> ('cfg, 'cache) manager" where
  "setValueGranted L key v g =
    (let S = store L; cfg = mg_config g;
         r = (if key = ''DefaultLevel'' then set_with get_string (setDefaultLevel S) v cfg
              else if key = ''TsaUrls'' then set_with get_strings (setTsaUrls S) v cfg
              else if key = ''TslSources'' then set_with get_sources (setTslSources S) v cfg
              else if key = ''DefaultReason'' then set_with get_string (setDefaultReason S) v cfg
              else if key = ''DefaultLocation'' then set_with get_string (setDefaultLocation S) v cfg
              else Some (\<lparr>set_ok = False, set_errorName = kErrUnknownKey,
                          set_message = ''No setter for config key: '' @ key\<rparr>, cfg)) in
     case r of
       None \<Rightarrow> (Inl (BusErr kErrInvalidValue (''Wrong value type for config key: '' @ key)), g)
     | Some (res, cfg') \<Rightarrow>
         (if set_ok res then Inr () else Inl (BusErr (set_errorName res) (set_message res)), g\<lparr>mg_config := cfg'\<rparr>))"

definition config_entry_for ::
  "('cfg, 'cache) manager_lib \<Rightarrow> string \<Rightarrow> string \<Rightarrow> ('w \<Rightarrow> (bus_error + 'r) \<times> 'w) \<Rightarrow> ('r, 'w) config_entry" where
  "config_entry_for L key denied granted =
    (case mutabilityOf (store L) key of
       None \<Rightarrow> RefusedAtEntry (BusErr kErrUnknownKey (''Unknown config key: '' @ key))
     | Some m \<Rightarrow>
         if m = FileOnly \<or> m = ReadOnly
         then RefusedAtEntry (BusErr kErrReadOnly (''Config key not settable over D-Bus: '' @ key))
         else DeferredTo (actionFor (kActionConfigure L) (kActionConfigureTrust L) m) denied granted)"

definition SetValue ::
  "('cfg, 'cache) manager_lib \<Rightarrow> string \<Rightarrow> variant \<Rightarrow> (unit, ('cfg, 'cache) manager) config_entry" where
  "SetValue L key v = config_entry_for L key (''Not authorized to set '' @ key) (setValueGranted L key v)"

definition resetGranted ::
  "('cfg, 'cache) manager_lib \<Rightarrow> string \<Rightarrow> ('cfg, 'cache) manager \<Rightarrow> (bus_error + unit) \<times> ('cfg, 'cache) manager" where
  "resetGranted L key g =
    (let (res, cfg') = resetKey (store L) key True (mg_config g) in
     (if set_ok res then Inr () else Inl (BusErr (set_errorName res) (set_message res)), g\<lparr>mg_config := cfg'\<rparr>))"

definition Reset :: "('cfg, 'cache) manager_lib \<Rightarrow> string \<Rightarrow> (unit, ('cfg, 'cache) manager) config_entry" where
  "Reset L key = config_entry_for L key (''Not authorized to reset '' @ key) (resetGranted L key)"

definition importCscaMasterListGranted ::
  "('cfg, 'cache) manager_lib \<Rightarrow> nat \<Rightarrow> string \<Rightarrow> ('cfg, 'cache) manager \<Rightarrow>
     (bus_error + opt_dict) \<times> ('cfg, 'cache) manager" where
  "importCscaMasterListGranted L masterList sender g =
    (let allowed = mgr_rate_allows L (mg_charges g) sender;
         g = g\<lparr>mg_charges := mg_charges g @ [sender]\<rparr> in
     if \<not> allowed then (Inl (BusErr kErrRateLimited ''Too many anchor imports; try again shortly''), g)
     else
       let (st, bs) = mgr_readBoundedRegularFd L masterList;
           g = g\<lparr>mg_fd_reads := mg_fd_reads g @ [masterList]\<rparr> in
       if st = NotRegular
       then (Inl (BusErr kErrInvalidRequest ''The master list must be a regular file or memfd (no pipes/sockets)''), g)
       else if st = TooLarge then (Inl (BusErr kErrInputTooLarge ''The master list exceeds the size limit''), g)
       else if st = ReadError then (Inl (BusErr kErrInvalidRequest ''The master list could not be read''), g)
       else
         let (imported, cache) = importMasterList L bs (cscaCacheDir (store L) (mg_config g)) (now_seconds L) (mg_cache g);
             g = g\<lparr>mg_cache := cache, mg_imports := mg_imports g @ [bs]\<rparr> in
         (case imported of
            Inl refused \<Rightarrow> (Inl (throwRefusal (trust L) refused), g)
          | Inr st \<Rightarrow>
              let recorded = toRecordedState (trust L) st in
              (Inr (anchorStateDict (Some recorded)),
               g\<lparr>mg_config := recordCscaAnchorState (store L) recorded (mg_config g)\<rparr>)))"

definition ImportCscaMasterList ::
  "('cfg, 'cache) manager_lib \<Rightarrow> nat \<Rightarrow> string option \<Rightarrow> (opt_dict, ('cfg, 'cache) manager) config_entry" where
  "ImportCscaMasterList L masterList sender =
    DeferredTo (kActionConfigureTrust L) ''Not authorized to import country signing anchors''
      (importCscaMasterListGranted L masterList (callerBusName sender))"

subsection \<open>The PKCS#11 forwarders\<close>

text \<open>
  The broker with its outcomes \<open>'oc\<close> and login outcomes \<open>'lo\<close>; a mechanism is \<open>'m\<close>. What it is
  asked is a call; what its reply comes to is an outcome, a value, or nothing, when the
  operation is torn down: the reply handle then answers its fallback.
\<close>

datatype broker_key = BrokerRsa bytes bytes | BrokerEc string bytes bytes

record broker_caller =
  bk_busName :: string
  bk_label :: string

datatype 'm broker_call =
    AskCertDer string string broker_caller
  | AskPublicKey string string broker_caller
  | AskLogin string broker_caller
  | AskLogout string broker_caller
  | AskLoginActive string broker_caller
  | AskSignRaw string string 'm bytes broker_caller
  | AskDecrypt string string 'm bytes broker_caller
  | AskDerive string string bytes broker_caller

record ('oc, 'lo, 'm) broker_lib =
  crypto_sync_error :: "'oc \<Rightarrow> string"
  login_sync_error :: "'lo \<Rightarrow> string"
  oc_CardError :: 'oc
  oc_NotSupported :: 'oc
  lo_CardError :: 'lo
  bk_signMechanismFromToken :: "string \<Rightarrow> 'm option"
  bk_decryptMechanismFromToken :: "string \<Rightarrow> 'm option"
  answer_bytes :: "'m broker_call \<Rightarrow> ('oc + bytes) option"
  answer_key :: "'m broker_call \<Rightarrow> ('oc + broker_key) option"
  answer_login :: "'m broker_call \<Rightarrow> ('lo + u32) option"
  answer_active :: "'m broker_call \<Rightarrow> bool"

definition resolveCaller :: "string \<Rightarrow> string \<Rightarrow> broker_caller" where
  "resolveCaller busName label = \<lparr>bk_busName = busName, bk_label = label\<rparr>"

definition deferReply :: "('o \<Rightarrow> string) \<Rightarrow> 'o \<Rightarrow> ('o + 'v) option \<Rightarrow> bus_error + 'v" where
  "deferReply sync fallback r =
    (let failed = (\<lambda>oc. Inl (BusErr (syncErrorBusName (sync oc)) ''pkcs11 operation failed'')) in
     case r of None \<Rightarrow> failed fallback | Some (Inl oc) \<Rightarrow> failed oc | Some (Inr v) \<Rightarrow> Inr v)"

definition deferConvertedReply ::
  "('oc, 'lo, 'm) broker_lib \<Rightarrow> (broker_key \<Rightarrow> 'v option) \<Rightarrow> ('oc + broker_key) option \<Rightarrow> bus_error + 'v" where
  "deferConvertedReply B convert r =
    (case deferReply (crypto_sync_error B) (oc_CardError B) r of
       Inl e \<Rightarrow> Inl e
     | Inr key \<Rightarrow>
         (case convert key of
            None \<Rightarrow> Inl (BusErr (syncErrorBusName (crypto_sync_error B (oc_NotSupported B))) ''key of another kind'')
          | Some v \<Rightarrow> Inr v))"

definition failNoPkcs11 :: "bus_error" where
  "failNoPkcs11 = BusErr kErrInternalPkcs11 ''PKCS#11 surface not wired''"

text \<open>A forwarded call: the reply, and what the broker was asked.\<close>

definition forward :: "bool \<Rightarrow> 'm broker_call \<Rightarrow> ('m broker_call \<Rightarrow> bus_error + 'v) \<Rightarrow> (bus_error + 'v) \<times> 'm broker_call list" where
  "forward wired q answer = (if \<not> wired then (Inl failNoPkcs11, []) else (answer q, [q]))"

definition CertDer :: "('oc, 'lo, 'm) broker_lib \<Rightarrow> bool \<Rightarrow> string \<Rightarrow> string \<Rightarrow> string option \<Rightarrow> string \<Rightarrow>
    (bus_error + bytes) \<times> 'm broker_call list" where
  "CertDer B wired reader certId sender label =
    forward wired (AskCertDer reader certId (resolveCaller (callerBusName sender) label))
      (\<lambda>q. deferReply (crypto_sync_error B) (oc_CardError B) (answer_bytes B q))"

definition PublicKey :: "('oc, 'lo, 'm) broker_lib \<Rightarrow> bool \<Rightarrow> string \<Rightarrow> string \<Rightarrow> string option \<Rightarrow> string \<Rightarrow>
    (bus_error + (bytes \<times> bytes)) \<times> 'm broker_call list" where
  "PublicKey B wired reader certId sender label =
    forward wired (AskPublicKey reader certId (resolveCaller (callerBusName sender) label))
      (\<lambda>q. deferConvertedReply B (\<lambda>k. case k of BrokerRsa m e \<Rightarrow> Some (m, e) | _ \<Rightarrow> None) (answer_key B q))"

definition EcPublicKey :: "('oc, 'lo, 'm) broker_lib \<Rightarrow> bool \<Rightarrow> string \<Rightarrow> string \<Rightarrow> string option \<Rightarrow> string \<Rightarrow>
    (bus_error + (string \<times> bytes \<times> bytes)) \<times> 'm broker_call list" where
  "EcPublicKey B wired reader certId sender label =
    forward wired (AskPublicKey reader certId (resolveCaller (callerBusName sender) label))
      (\<lambda>q. deferConvertedReply B (\<lambda>k. case k of BrokerEc c x y \<Rightarrow> Some (c, x, y) | _ \<Rightarrow> None) (answer_key B q))"

definition Login :: "('oc, 'lo, 'm) broker_lib \<Rightarrow> bool \<Rightarrow> string \<Rightarrow> string option \<Rightarrow> string \<Rightarrow>
    (bus_error + u32) \<times> 'm broker_call list" where
  "Login B wired reader sender label =
    forward wired (AskLogin reader (resolveCaller (callerBusName sender) label))
      (\<lambda>q. deferReply (login_sync_error B) (lo_CardError B) (answer_login B q))"

definition Logout :: "bool \<Rightarrow> string \<Rightarrow> string option \<Rightarrow> string \<Rightarrow> (bus_error + unit) \<times> 'm broker_call list" where
  "Logout wired reader sender label =
    forward wired (AskLogout reader (resolveCaller (callerBusName sender) label)) (\<lambda>q. Inr ())"

definition LoginState :: "('oc, 'lo, 'm) broker_lib \<Rightarrow> bool \<Rightarrow> string \<Rightarrow> string option \<Rightarrow> string \<Rightarrow>
    (bus_error + bool) \<times> 'm broker_call list" where
  "LoginState B wired reader sender label =
    forward wired (AskLoginActive reader (resolveCaller (callerBusName sender) label)) (\<lambda>q. Inr (answer_active B q))"

definition SignRaw :: "('oc, 'lo, 'm) broker_lib \<Rightarrow> bool \<Rightarrow> string \<Rightarrow> string \<Rightarrow> string \<Rightarrow> bytes \<Rightarrow> string option \<Rightarrow> string \<Rightarrow>
    (bus_error + bytes) \<times> 'm broker_call list" where
  "SignRaw B wired reader certId mech input sender label =
    (case bk_signMechanismFromToken B mech of
       None \<Rightarrow> (Inl (BusErr kErrInvalidRequest (''unknown mechanism: '' @ mech)), [])
     | Some m \<Rightarrow> forward wired (AskSignRaw reader certId m input (resolveCaller (callerBusName sender) label))
         (\<lambda>q. deferReply (crypto_sync_error B) (oc_CardError B) (answer_bytes B q)))"

definition Decrypt :: "('oc, 'lo, 'm) broker_lib \<Rightarrow> bool \<Rightarrow> string \<Rightarrow> string \<Rightarrow> string \<Rightarrow> bytes \<Rightarrow> string option \<Rightarrow> string \<Rightarrow>
    (bus_error + bytes) \<times> 'm broker_call list" where
  "Decrypt B wired reader certId mech ciphertext sender label =
    (case bk_decryptMechanismFromToken B mech of
       None \<Rightarrow> (Inl (BusErr kErrInvalidRequest (''unknown mechanism: '' @ mech)), [])
     | Some m \<Rightarrow> forward wired (AskDecrypt reader certId m ciphertext (resolveCaller (callerBusName sender) label))
         (\<lambda>q. deferReply (crypto_sync_error B) (oc_CardError B) (answer_bytes B q)))"

definition Derive :: "('oc, 'lo, 'm) broker_lib \<Rightarrow> bool \<Rightarrow> string \<Rightarrow> string \<Rightarrow> bytes \<Rightarrow> string option \<Rightarrow> string \<Rightarrow>
    (bus_error + bytes) \<times> 'm broker_call list" where
  "Derive B wired reader certId point sender label =
    forward wired (AskDerive reader certId point (resolveCaller (callerBusName sender) label))
      (\<lambda>q. deferReply (crypto_sync_error B) (oc_CardError B) (answer_bytes B q))"

subsection \<open>What the anchor report says\<close>


lemma anchor_dict_find:
  "smap_find (anchorStateDict (Some s)) ''anchors'' = Some (VUInt32 (ca_anchors s))"
  "smap_find (anchorStateDict (Some s)) ''issuers'' = Some (VUInt32 (ca_issuers s))"
  "smap_find (anchorStateDict (Some s)) ''signer'' = (if ca_signer s = [] then None else Some (VString (ca_signer s)))"
  "smap_find (anchorStateDict (Some s)) ''signerPinned'' = Some (VBool (ca_signerPinned s))"
  "smap_find (anchorStateDict (Some s)) ''acceptedAt'' = map_option VInt64 (ca_acceptedAt s)"
  "smap_find (anchorStateDict (Some s)) ''replayRefusalActive'' = Some (VBool (ca_replayRefusalActive s))"
  "smap_find (anchorStateDict (Some s)) ''signedAt'' = map_option VInt64 (ca_signedAt s)"
  by (auto simp: anchorStateDict_def Let_def smap_find_def split: option.split)

lemma anchorStateDict_None: "anchorStateDict None = []"
  by (simp add: anchorStateDict_def)

lemma anchor_dict_inj: "anchorStateDict x = anchorStateDict y \<longleftrightarrow> x = y"
proof
  assume eq: "anchorStateDict x = anchorStateDict y"
  have inj: "inj VInt64" by (auto intro: injI)
  show "x = y"
  proof (cases x; cases y)
    fix s t assume s: "x = Some s" and t: "y = Some t"
    note fs = anchor_dict_find [of s, folded s] and ft = anchor_dict_find [of t, folded t]
    have "ca_signer s = ca_signer t" using fs(3) ft(3) unfolding eq by (auto split: if_splits)
    moreover have "ca_acceptedAt s = ca_acceptedAt t" "ca_signedAt s = ca_signedAt t"
      using fs(5,7) ft(5,7) option.inj_map [OF inj] unfolding eq by (simp_all add: inj_eq)
    ultimately have "s = t"
      using fs(1,2,4,6) ft(1,2,4,6) unfolding eq by (cases s, cases t) simp
    then show ?thesis by (simp add: s t)
  next
    fix s assume "x = None" "y = Some s"
    then have "anchorStateDict (Some s) = []" using eq anchorStateDict_None by metis
    then show ?thesis using anchor_dict_find(1) [of s] by (simp add: smap_find_def)
  next
    fix s assume "y = None" "x = Some s"
    then have "anchorStateDict (Some s) = []" using eq anchorStateDict_None by metis
    then show ?thesis using anchor_dict_find(1) [of s] by (simp add: smap_find_def)
  qed simp
qed simp

lemma recorded_signer:
  "ca_signer (toRecordedState T st) = (case an_signers st of [s] \<Rightarrow> toHex T (as_fingerprint s) | _ \<Rightarrow> [])"
  "ca_signedAt (toRecordedState T st) = (case an_signers st of [s] \<Rightarrow> as_signedAt s | _ \<Rightarrow> None)"
  by (auto simp: toRecordedState_def Let_def split: list.split)

lemma singleton_case: "(case xs of [x] \<Rightarrow> f x | _ \<Rightarrow> d) = (if \<exists>x. xs = [x] then f (hd xs) else d)"
  by (auto split: list.split)

text \<open>
  The anchor report says only what is true of the whole import. A publisher and a signing
  date are named exactly when the import follows one publisher, whose they are; whether the
  publishers are established and whether a rollback can be refused are always reported, as
  the library judges the whole; and no two reports, the absent one included, are served alike.
\<close>

theorem anchor_report_of_the_whole:
  "(smap_find (anchorStateDict (Some (toRecordedState T st))) ''signer'' = Some v \<longleftrightarrow>
      (\<exists>s. an_signers st = [s] \<and> toHex T (as_fingerprint s) \<noteq> [] \<and> v = VString (toHex T (as_fingerprint s)))) \<and>
   (smap_find (anchorStateDict (Some (toRecordedState T st))) ''signedAt'' = Some v' \<longleftrightarrow>
      (\<exists>s t. an_signers st = [s] \<and> as_signedAt s = Some t \<and> v' = VInt64 t)) \<and>
   smap_find (anchorStateDict (Some (toRecordedState T st))) ''signerPinned'' = Some (VBool (everyPublisherEstablished T st)) \<and>
   smap_find (anchorStateDict (Some (toRecordedState T st))) ''replayRefusalActive'' = Some (VBool (replayRefusalActive T st)) \<and>
   (anchorStateDict x = anchorStateDict y \<longleftrightarrow> x = y)"
  unfolding anchor_dict_find anchor_dict_inj recorded_signer singleton_case
  by (auto simp: toRecordedState_def Let_def)

text \<open>Each refusal of a master list has an error name of its own.\<close>

lemma refusal_names_distinct:
  "err_name (throwRefusal T r) = err_name (throwRefusal T' r') \<longleftrightarrow> rf_reason r = rf_reason r'"
  by (cases "rf_reason r"; cases "rf_reason r'") (simp_all add: throwRefusal_def master_list_names)

subsection \<open>Configuration changes\<close>

lemma answer_config_frame:
  "\<not> (outc = Granted \<and> \<not> m_closed p) \<Longrightarrow> snd (answer_config e outc p w) = w"
  by (auto simp: answer_config_def split: config_entry.split)

lemma answer_config_refused: "snd (answer_config (RefusedAtEntry err) outc p w) = w"
  by (simp add: answer_config_def)



subsection \<open>A sample agent\<close>

text \<open>A store of a default level and an anchor report; a cache that keeps the last list.\<close>

definition sample_store :: "(string \<times> csca_anchor_state option) store_lib" where
  "sample_store =
    \<lparr>mutabilityOf = (\<lambda>k. if k = ''DefaultLevel'' then Some DbusMutable else if k = ''TsaUrls'' then Some DbusMutableTrust else None),
     setDefaultLevel = (\<lambda>l cfg. (\<lparr>set_ok = True, set_errorName = [], set_message = []\<rparr>, (l, snd cfg))),
     setTsaUrls = (\<lambda>u cfg. (\<lparr>set_ok = True, set_errorName = [], set_message = []\<rparr>, cfg)),
     setTslSources = (\<lambda>u cfg. (\<lparr>set_ok = True, set_errorName = [], set_message = []\<rparr>, cfg)),
     setDefaultReason = (\<lambda>u cfg. (\<lparr>set_ok = True, set_errorName = [], set_message = []\<rparr>, cfg)),
     setDefaultLocation = (\<lambda>u cfg. (\<lparr>set_ok = True, set_errorName = [], set_message = []\<rparr>, cfg)),
     resetKey = (\<lambda>k d cfg. (\<lparr>set_ok = True, set_errorName = [], set_message = []\<rparr>, ([], snd cfg))),
     recordCscaAnchorState = (\<lambda>s cfg. (fst cfg, Some s)), cscaAnchorState = snd, cscaCacheDir = (\<lambda>_. ''/cache''),
     discardStaleAnchorReport = (\<lambda>cfg. cfg), tslSources = (\<lambda>_. [])\<rparr>"

definition sample_anchors :: anchor_state where
  "sample_anchors = \<lparr>an_anchorCount = 3, an_issuerCount = 2,
     an_signers = [\<lparr>as_fingerprint = [1], as_identityEstablished = False, as_signedAt = None\<rparr>], an_acceptedAt = Some 7\<rparr>"

definition sample_manager_lib :: "(string \<times> csca_anchor_state option, bytes) manager_lib" where
  "sample_manager_lib =
    \<lparr>store = sample_store,
     trust = \<lparr>replayRefusalActive = (\<lambda>_. True), everyPublisherEstablished = (\<lambda>_. False), toHex = (\<lambda>_. ''01'')\<rparr>,
     mgr_rate_allows = (\<lambda>cs c. length cs < 2), mgr_readBoundedRegularFd = (\<lambda>fd. (ReadOk, [9])),
     importMasterList = (\<lambda>bs dir now c. (Inr sample_anchors, bs)), now_seconds = 7,
     kActionConfigure = ''configure'', kActionConfigureTrust = ''configure.trust'',
     isValidLayoutRect = (\<lambda>x y w h. True), layoutVisualSignature = (\<lambda>t x y w h. (x, y, [t], False)),
     appearanceFontBytes = [0], kAgentFeatures = []\<rparr>"

definition sample_manager :: "(string \<times> csca_anchor_state option, bytes) manager" where
  "sample_manager = ManagerObject_ctor sample_manager_lib ''1'' (''b-b'', None) []"



end
