(* ===== verification/Raw_Crypto.thy ===== *)
theory Raw_Crypto
  imports Manager_Object Pkcs11_Client
begin

text \<open>
  The PKCS#11 path from end to end: the module's calls (\<^verbatim>\<open>pkcs11-module/src/DBusAgentClient.cpp\<close>)
  answered by the agent's root object (\<^verbatim>\<open>agent/src/dbus/ManagerObject.cpp\<close>). The bus between
  them carries a method's arguments and its results or the name of its error.
\<close>

definition to_thrown :: "bus_error + 'v \<Rightarrow> thrown + 'v" where
  "to_thrown r = (case r of Inl e \<Rightarrow> Inl (BusError (err_name e)) | Inr v \<Rightarrow> Inr v)"

definition no_method :: "thrown + 'v" where
  "no_method = Inl (BusError ''org.freedesktop.DBus.Error.UnknownMethod'')"

definition agent_bytes :: "('oc, 'lo, 'm) broker_lib \<Rightarrow> bool \<Rightarrow> string option \<Rightarrow> string \<Rightarrow> bus_call \<Rightarrow> thrown + bytes" where
  "agent_bytes B wired sender label q =
    (case bc_args q of
       [VPath r, VString c] \<Rightarrow>
         if bc_method q = ''CertDer'' then to_thrown (fst (CertDer B wired r c sender label)) else no_method
     | [VPath r, VString c, VBytes p] \<Rightarrow>
         if bc_method q = ''Derive'' then to_thrown (fst (Derive B wired r c p sender label)) else no_method
     | [VPath r, VString c, VString m, VBytes i] \<Rightarrow>
         if bc_method q = ''SignRaw'' then to_thrown (fst (SignRaw B wired r c m i sender label))
         else if bc_method q = ''Decrypt'' then to_thrown (fst (Decrypt B wired r c m i sender label))
         else no_method
     | _ \<Rightarrow> no_method)"

definition agent_bus :: "('oc, 'lo, 'm) broker_lib \<Rightarrow> bool \<Rightarrow> string option \<Rightarrow> string \<Rightarrow> pkcs11_bus" where
  "agent_bus B wired sender label =
    \<lparr>pb_bytes = agent_bytes B wired sender label,
     pb_rsa = (\<lambda>q. case bc_args q of
       [VPath r, VString c] \<Rightarrow>
         if bc_method q = ''PublicKey'' then to_thrown (fst (PublicKey B wired r c sender label)) else no_method
     | _ \<Rightarrow> no_method),
     pb_ec = (\<lambda>q. case bc_args q of
       [VPath r, VString c] \<Rightarrow>
         if bc_method q = ''EcPublicKey'' then to_thrown (fst (EcPublicKey B wired r c sender label)) else no_method
     | _ \<Rightarrow> no_method),
     pb_idle = (\<lambda>q. case bc_args q of
       [VPath r] \<Rightarrow> if bc_method q = ''Login'' then to_thrown (fst (Login B wired r sender label)) else no_method
     | _ \<Rightarrow> no_method),
     pb_active = (\<lambda>q. case bc_args q of
       [VPath r] \<Rightarrow> if bc_method q = ''LoginState'' then to_thrown (fst (LoginState B wired r sender label)) else no_method
     | _ \<Rightarrow> no_method),
     pb_none = (\<lambda>q. case bc_args q of
       [VPath r] \<Rightarrow>
         if bc_method q = ''Logout''
         then to_thrown (fst (Logout wired r sender label :: (bus_error + unit) \<times> 'm broker_call list)) else no_method
     | _ \<Rightarrow> no_method)\<rparr>"

text \<open>What the module should report of the broker's answer.\<close>

definition sync_status :: "string \<Rightarrow> status" where
  "sync_status token = mapErrorName (syncErrorBusName token)"

definition broker_result :: "('oc, 'lo, 'm) broker_lib \<Rightarrow> 'm broker_call \<Rightarrow> bytes_result" where
  "broker_result B q =
    (case answer_bytes B q of
       Some (Inr bs) \<Rightarrow> \<lparr>by_status = StatusOk, by_bytes = bs\<rparr>
     | Some (Inl oc) \<Rightarrow> \<lparr>by_status = sync_status (crypto_sync_error B oc), by_bytes = []\<rparr>
     | None \<Rightarrow> \<lparr>by_status = sync_status (crypto_sync_error B (oc_CardError B)), by_bytes = []\<rparr>)"

lemma status_of_sync: "statusFromException (BusError (syncErrorBusName token)) = sync_status token"
  by (simp add: statusFromException_def sync_status_def syncErrorBusName_def kSyncErrorBusPrefix_def agentErrorPrefix_def)

lemma bytes_call_answer:
  assumes "cl_ok c" and "pb_bytes B q = to_thrown (deferReply (crypto_sync_error K) (oc_CardError K) (answer_bytes K call))"
  shows "bytes_call B q c = (broker_result K call, c\<lparr>cl_calls := cl_calls c @ [q]\<rparr>)"
  using assms
  by (auto simp: bytes_call_def to_thrown_def deferReply_def broker_result_def status_of_sync split: option.splits sum.splits)

lemmas agent_bus_simps = agent_bus_def agent_bytes_def forward_def CertDer_def Derive_def SignRaw_def Decrypt_def

text \<open>
  C26: the module's raw operations come to exactly what the card broker answered. A signature is
  asked of the broker with the reader, the certificate, the mechanism and the bytes the
  application gave, for the module's own bus name, and the module reports the broker's bytes or
  the status its refusal stands for, a torn-down operation reading as the card error; a
  mechanism the vocabulary cannot carry is refused with no call at all. The same holds of
  decryption, key derivation and certificate retrieval.
\<close>

theorem raw_operations_end_to_end:
  assumes "cl_ok c" and "bk_signMechanismFromToken B = signMechanismFromToken L"
    and "bk_decryptMechanismFromToken B (mechanismToken L (rsaPkcs1Decrypt L)) = Some (rsaPkcs1Decrypt L)"
  shows "(fst (signRaw L (agent_bus B True sender label) reader certId m input c) =
      (if mechanismToken L m \<noteq> [] \<and> signMechanismFromToken L (mechanismToken L m) = Some m
       then broker_result B (AskSignRaw reader certId m input (resolveCaller (callerBusName sender) label))
       else \<lparr>by_status = NotSupported, by_bytes = []\<rparr>)) \<and>
    (\<not> (mechanismToken L m \<noteq> [] \<and> signMechanismFromToken L (mechanismToken L m) = Some m) \<longrightarrow>
      snd (signRaw L (agent_bus B True sender label) reader certId m input c) = c) \<and>
    fst (decrypt L (agent_bus B True sender label) reader certId input c) =
      broker_result B (AskDecrypt reader certId (rsaPkcs1Decrypt L) input (resolveCaller (callerBusName sender) label)) \<and>
    fst (derive (agent_bus B True sender label) reader certId input c) =
      broker_result B (AskDerive reader certId input (resolveCaller (callerBusName sender) label)) \<and>
    fst (certDer (agent_bus B True sender label) reader certId c) =
      broker_result B (AskCertDer reader certId (resolveCaller (callerBusName sender) label))"
proof -
  let ?bus = "agent_bus B True sender label" and ?who = "resolveCaller (callerBusName sender) label"
  have dec: "fst (decrypt L ?bus reader certId input c) = broker_result B (AskDecrypt reader certId (rsaPkcs1Decrypt L) input ?who)"
    unfolding decrypt_def using assms by (subst bytes_call_answer) (simp_all add: agent_bus_simps)
  have der: "fst (derive ?bus reader certId input c) = broker_result B (AskDerive reader certId input ?who)"
    unfolding derive_def using assms by (subst bytes_call_answer) (simp_all add: agent_bus_simps)
  have cert: "fst (certDer ?bus reader certId c) = broker_result B (AskCertDer reader certId ?who)"
    unfolding certDer_def using assms by (subst bytes_call_answer) (simp_all add: agent_bus_simps)
  show ?thesis
  proof (cases "mechanismToken L m \<noteq> [] \<and> signMechanismFromToken L (mechanismToken L m) = Some m")
    case True
    then have "fst (signRaw L ?bus reader certId m input c) = broker_result B (AskSignRaw reader certId m input ?who)"
      unfolding signRaw_def Let_def using assms by (simp, subst bytes_call_answer) (simp_all add: agent_bus_simps)
    then show ?thesis using True dec der cert by simp
  next
    case False
    then show ?thesis using dec der cert by (auto simp: signRaw_def)
  qed
qed

text \<open>A broker that signs with a fixed signature, has no key agreement and no certificate to give.\<close>

definition sample_broker :: "(nat, nat, nat) broker_lib" where
  "sample_broker =
     \<lparr>crypto_sync_error = (\<lambda>oc. if oc = 0 then ''CommunicationError'' else ''NotSupported''),
      login_sync_error = (\<lambda>lo. ''AuthFailed''), oc_CardError = 0, oc_NotSupported = 1, lo_CardError = 0,
      bk_signMechanismFromToken = (\<lambda>t. Some 0), bk_decryptMechanismFromToken = (\<lambda>t. Some 1),
      answer_bytes = (\<lambda>q. case q of AskSignRaw r c m i who \<Rightarrow> Some (Inr (i @ [7])) | AskDerive r c p who \<Rightarrow> Some (Inl 1)
        | AskDecrypt r c m i who \<Rightarrow> Some (Inr (filter (\<lambda>b. b \<noteq> 0) i)) | _ \<Rightarrow> None),
      answer_key = (\<lambda>q. Some (Inr (BrokerRsa [3] [5]))),
      answer_login = (\<lambda>q. Some (Inr 300)), answer_active = (\<lambda>q. True)\<rparr>"

theorem raw_operations_end_to_end_witness:
  "fst (signRaw sample_lib (agent_bus sample_broker True (Some '':1.9'') ''app'') ''/r'' ''c1'' 0 [1, 2]
     (client_init True :: string client)) = \<lparr>by_status = StatusOk, by_bytes = [1, 2, 7]\<rparr> \<and>
   fst (derive (agent_bus sample_broker True (Some '':1.9'') ''app'') ''/r'' ''c1'' [4] (client_init True :: string client)) =
     \<lparr>by_status = NotSupported, by_bytes = []\<rparr> \<and>
   fst (certDer (agent_bus sample_broker True (Some '':1.9'') ''app'') ''/r'' ''c1'' (client_init True :: string client)) =
     \<lparr>by_status = Communication, by_bytes = []\<rparr>"
proof -
  let ?c = "client_init True :: string client"
  have facts: "cl_ok ?c" "bk_signMechanismFromToken sample_broker = signMechanismFromToken sample_lib"
    "bk_decryptMechanismFromToken sample_broker (mechanismToken sample_lib (rsaPkcs1Decrypt sample_lib)) =
      Some (rsaPkcs1Decrypt sample_lib)"
    "mechanismToken sample_lib 0 \<noteq> []" "signMechanismFromToken sample_lib (mechanismToken sample_lib 0) = Some 0"
    by (simp_all add: client_init_def sample_broker_def sample_lib_def)
  note applied = raw_operations_end_to_end [OF facts(1-3), where m = 0 and sender = "Some '':1.9''" and label = "''app''"
      and reader = "''/r''" and certId = "''c1''"]
  show ?thesis
    using applied [of "[1, 2]"] applied [of "[4]"] facts(4,5)
    by (simp add: broker_result_def sample_broker_def [THEN arg_cong, of answer_bytes]
        sample_broker_def [THEN arg_cong, of crypto_sync_error] sample_broker_def [THEN arg_cong, of oc_CardError]
        sync_status_def mapErrorName_def syncErrorBusName_def kSyncErrorBusPrefix_def err_names)
qed

text \<open>What the module should report of the broker's public key, asked for one of the two families.\<close>

definition key_result :: "('oc, 'lo, 'm) broker_lib \<Rightarrow> bool \<Rightarrow> 'm broker_call \<Rightarrow> status + public_key" where
  "key_result B wants_rsa q =
    (case answer_key B q of
       None \<Rightarrow> Inl (sync_status (crypto_sync_error B (oc_CardError B)))
     | Some (Inl oc) \<Rightarrow> Inl (sync_status (crypto_sync_error B oc))
     | Some (Inr (BrokerRsa m e)) \<Rightarrow>
         if wants_rsa then Inr (RsaKey m e) else Inl (sync_status (crypto_sync_error B (oc_NotSupported B)))
     | Some (Inr (BrokerEc crv x y)) \<Rightarrow>
         if wants_rsa then Inl (sync_status (crypto_sync_error B (oc_NotSupported B))) else Inr (EcKey crv x y))"

text \<open>
  A public key the module has not cached is the one the broker answered for that reader and
  certificate, for the module's own bus name; a key of the other family, a refusal and a
  torn-down operation read as their status and are not cached. A key that was answered is
  answered again from the cache, without a call.
\<close>

theorem public_key_end_to_end:
  assumes "cl_ok c" and "cl_pubKeyCache c certId = None" and "keyTypeRsa L \<noteq> keyTypeEc L"
    and "keyType = (if wants_rsa then keyTypeRsa L else keyTypeEc L)"
    and "publicKey L (agent_bus B True sender label) [] reader certId keyType c = (r, c')"
  shows "r = key_result B wants_rsa (AskPublicKey reader certId (resolveCaller (callerBusName sender) label)) \<and>
    (case r of
       Inl s \<Rightarrow> cl_pubKeyCache c' = cl_pubKeyCache c
     | Inr key \<Rightarrow> publicKey L (agent_bus B True sender label) [] reader certId keyType c' = (Inr key, c'))"
  using assms
  by (auto simp: publicKey_def Let_def agent_bus_def PublicKey_def EcPublicKey_def forward_def deferConvertedReply_def
      deferReply_def key_result_def to_thrown_def status_of_sync key_family_def deliver_def
      split: option.splits sum.splits broker_key.splits if_splits prod.splits)

theorem public_key_end_to_end_witness:
  "fst (publicKey sample_lib (agent_bus sample_broker True (Some '':1.9'') ''app'') [] ''/r'' ''c1'' 0
      (client_init True :: string client)) = Inr (RsaKey [3] [5]) \<and>
   fst (publicKey sample_lib (agent_bus sample_broker True (Some '':1.9'') ''app'') [] ''/r'' ''c1'' 1
      (client_init True :: string client)) = Inl NotSupported"
proof -
  let ?c = "client_init True :: string client"
  have facts: "cl_ok ?c" "cl_pubKeyCache ?c ''c1'' = None" "keyTypeRsa sample_lib \<noteq> keyTypeEc sample_lib"
    by (simp_all add: client_init_def sample_lib_def)
  have kinds: "(0 :: nat) = (if True then keyTypeRsa sample_lib else keyTypeEc sample_lib)"
    "(1 :: nat) = (if False then keyTypeRsa sample_lib else keyTypeEc sample_lib)"
    by (simp_all add: sample_lib_def)
  note applied = public_key_end_to_end [OF facts kinds(1) prod.collapse [symmetric], THEN conjunct1]
    public_key_end_to_end [OF facts kinds(2) prod.collapse [symmetric], THEN conjunct1]
  show ?thesis
    unfolding applied
    by (simp add: key_result_def sample_broker_def [THEN arg_cong, of answer_key]
        sample_broker_def [THEN arg_cong, of crypto_sync_error] sample_broker_def [THEN arg_cong, of oc_NotSupported]
        sync_status_def mapErrorName_def syncErrorBusName_def kSyncErrorBusPrefix_def err_names)
qed

end
