(* ===== verification/Startup_Paths.thy ===== *)
theory Startup_Paths
  imports LL_Prelude
begin

text \<open>
  What the agent decides about the disk before it serves anything: where its configuration and
  its caches live (\<^verbatim>\<open>agent/src/ConfigPaths.cpp\<close>) and where the card plugins are and what it says
  about them (\<^verbatim>\<open>agent/src/PluginDirectory.cpp\<close>). A \<^verbatim>\<open>std::filesystem::path\<close> is its native string;
  the environment, the temporary directory and the probe of a directory are parameters.
\<close>

subsection \<open>Paths\<close>

text \<open>\<^verbatim>\<open>operator/\<close> of \<^verbatim>\<open>std::filesystem::path\<close> on POSIX: an absolute right operand replaces the left one.\<close>

definition is_absolute :: "string \<Rightarrow> bool" where
  "is_absolute p \<longleftrightarrow> p \<noteq> [] \<and> hd p = CHR ''/''"

definition has_filename :: "string \<Rightarrow> bool" where
  "has_filename p \<longleftrightarrow> p \<noteq> [] \<and> last p \<noteq> CHR ''/''"

definition path_append :: "string \<Rightarrow> string \<Rightarrow> string" where
  "path_append p q = (if is_absolute q then q else if has_filename p then p @ ''/'' @ q else p @ q)"

lemma path_append_absolute: "is_absolute p \<Longrightarrow> is_absolute (path_append p q)"
  by (auto simp: path_append_def is_absolute_def hd_append)

lemma path_append_nonempty: "q \<noteq> [] \<Longrightarrow> path_append p q \<noteq> []"
  by (simp add: path_append_def)

subsection \<open>The configuration file and the cache root\<close>

text \<open>
  The environment the process was started with; \<^verbatim>\<open>temp_directory_path\<close> throws, \<^const>\<open>None\<close>, when
  the temporary directory is not one.
\<close>

record start_env =
  env_get :: "string \<Rightarrow> string option"
  env_temp :: "string option"

definition env_nonempty :: "start_env \<Rightarrow> string \<Rightarrow> string option" where
  "env_nonempty E var = (case env_get E var of None \<Rightarrow> None | Some x \<Rightarrow> if x = [] then None else Some x)"

definition xdgDir :: "start_env \<Rightarrow> string \<Rightarrow> string \<Rightarrow> string option" where
  "xdgDir E xdgVar homeSuffix =
    (case env_nonempty E xdgVar of
       Some x \<Rightarrow> Some (path_append x ''librescrs'')
     | None \<Rightarrow>
         (case env_nonempty E ''HOME'' of
            Some home \<Rightarrow> Some (path_append (path_append home homeSuffix) ''librescrs'')
          | None \<Rightarrow> None))"

definition systemdDir :: "start_env \<Rightarrow> string \<Rightarrow> string option" where
  "systemdDir E var =
    (case env_nonempty E var of
       None \<Rightarrow> None
     | Some d \<Rightarrow>
         let v = (case index_of (\<lambda>c. c = CHR '':'') d of Some colon \<Rightarrow> take colon d | None \<Rightarrow> d) in
         if v = [] then None else Some v)"

definition cacheDir :: "start_env \<Rightarrow> string option" where
  "cacheDir E =
    (case systemdDir E ''CACHE_DIRECTORY'' of Some d \<Rightarrow> Some d | None \<Rightarrow> xdgDir E ''XDG_CACHE_HOME'' ''.cache'')"

definition resolveConfigFile :: "start_env \<Rightarrow> string option" where
  "resolveConfigFile E =
    (case systemdDir E ''CONFIGURATION_DIRECTORY'' of
       Some d \<Rightarrow> Some (path_append d ''agent.conf'')
     | None \<Rightarrow>
         (case xdgDir E ''XDG_CONFIG_HOME'' ''.config'' of
            Some d \<Rightarrow> Some (path_append d ''agent.conf'')
          | None \<Rightarrow> map_option (\<lambda>t. path_append (path_append t ''librescrs'') ''agent.conf'') (env_temp E)))"

definition resolveCacheRoot :: "start_env \<Rightarrow> string option" where
  "resolveCacheRoot E =
    (case cacheDir E of Some c \<Rightarrow> Some c | None \<Rightarrow> map_option (\<lambda>t. path_append t ''librescrs'') (env_temp E))"

text \<open>The first entry of a colon-separated list, as the comment on \<^verbatim>\<open>systemdDir\<close> describes it.\<close>

definition first_entry :: "string \<Rightarrow> string" where
  "first_entry v = takeWhile (\<lambda>c. c \<noteq> CHR '':'') v"

lemma upto_first_colon: "(case index_of (\<lambda>c. c = CHR '':'') v of Some colon \<Rightarrow> take colon v | None \<Rightarrow> v) = first_entry v"
  by (induction v) (auto simp: first_entry_def split: option.splits)

lemma systemdDir_first:
  "systemdDir E var = (case env_get E var of None \<Rightarrow> None | Some v \<Rightarrow> if first_entry v = [] then None else Some (first_entry v))"
  by (auto simp: systemdDir_def env_nonempty_def upto_first_colon Let_def first_entry_def split: option.splits)

text \<open>An environment in which a variable that is set names absolute directories only.\<close>

definition absolute_env :: "start_env \<Rightarrow> string list \<Rightarrow> bool" where
  "absolute_env E vars \<longleftrightarrow>
    list_all (\<lambda>var. case env_get E var of None \<Rightarrow> True | Some v \<Rightarrow> first_entry v = [] \<or> is_absolute v) vars \<and>
    (case env_temp E of None \<Rightarrow> False | Some t \<Rightarrow> is_absolute t)"

lemma first_entry_absolute: "is_absolute v \<Longrightarrow> is_absolute (first_entry v)"
  by (cases v) (auto simp: is_absolute_def first_entry_def)

lemma systemdDir_absolute:
  "absolute_env E vars \<Longrightarrow> var \<in> set vars \<Longrightarrow> systemdDir E var = Some d \<Longrightarrow> is_absolute d"
  by (auto simp: absolute_env_def systemdDir_first list_all_iff first_entry_absolute split: option.splits if_splits)

text \<open>
  The variables read whole are not lists: a value that begins with a colon would be a relative
  directory, so here they have to be absolute or unset or empty.
\<close>

definition plain_vars_absolute :: "start_env \<Rightarrow> string list \<Rightarrow> bool" where
  "plain_vars_absolute E vars \<longleftrightarrow> list_all (\<lambda>var. case env_nonempty E var of None \<Rightarrow> True | Some v \<Rightarrow> is_absolute v) vars"

lemma xdgDir_absolute:
  "plain_vars_absolute E [xdgVar, ''HOME''] \<Longrightarrow> xdgDir E xdgVar sub = Some d \<Longrightarrow> is_absolute d"
  by (auto simp: plain_vars_absolute_def xdgDir_def path_append_absolute split: option.splits)

lemma path_append_agent_conf: "is_absolute d \<Longrightarrow> \<exists>pre. path_append d ''agent.conf'' = pre @ ''/agent.conf''"
proof -
  assume d: "is_absolute d"
  show ?thesis
  proof (cases "has_filename d")
    case True
    then show ?thesis by (simp add: path_append_def is_absolute_def)
  next
    case False
    with d have "d = butlast d @ ''/''" using append_butlast_last_id [of d] by (simp add: has_filename_def is_absolute_def)
    then obtain pre where "d = pre @ ''/''" by blast
    then show ?thesis using False by (simp add: path_append_def is_absolute_def)
  qed
qed

text \<open>
  The agent never resolves its configuration or its cache against the working directory.
  Whatever the systemd lists are, an empty first entry and a leading colon included, when the
  directories the environment does name are absolute the configuration file and the cache root
  are found, are absolute, and the file is the \<^verbatim>\<open>agent.conf\<close> of its directory; the first entry of
  a systemd list is the one used when it is not empty.
\<close>

theorem start_paths_absolute:
  assumes "absolute_env E [''CONFIGURATION_DIRECTORY'', ''CACHE_DIRECTORY'']"
    and "plain_vars_absolute E [''XDG_CONFIG_HOME'', ''XDG_CACHE_HOME'', ''HOME'']"
  shows "\<exists>pre root. resolveConfigFile E = Some (pre @ ''/agent.conf'') \<and> is_absolute (pre @ ''/agent.conf'') \<and>
    resolveCacheRoot E = Some root \<and> is_absolute root \<and>
    (\<forall>v. env_get E ''CONFIGURATION_DIRECTORY'' = Some v \<and> first_entry v \<noteq> [] \<longrightarrow>
       pre @ ''/agent.conf'' = path_append (first_entry v) ''agent.conf'') \<and>
    (\<forall>v. env_get E ''CACHE_DIRECTORY'' = Some v \<and> first_entry v \<noteq> [] \<longrightarrow> root = first_entry v)"
proof -
  from assms(1) obtain t where t: "env_temp E = Some t" "is_absolute t"
    by (auto simp: absolute_env_def split: option.splits)
  have sys: "systemdDir E var = Some d \<Longrightarrow> is_absolute d"
    if "var \<in> set [''CONFIGURATION_DIRECTORY'', ''CACHE_DIRECTORY'']" for var d
    using systemdDir_absolute [OF assms(1) that] .
  have xdg: "xdgDir E var sub = Some d \<Longrightarrow> is_absolute d" if "var \<in> {''XDG_CONFIG_HOME'', ''XDG_CACHE_HOME''}" for var sub d
    using that assms(2) by (intro xdgDir_absolute [of E var sub d]) (auto simp: plain_vars_absolute_def)
  have first: "systemdDir E var = Some (first_entry v)" if "env_get E var = Some v \<and> first_entry v \<noteq> []" for var v
    using that by (simp add: systemdDir_first)
  have "\<exists>d. resolveConfigFile E = Some (path_append d ''agent.conf'') \<and> is_absolute d \<and>
      (\<forall>x. systemdDir E ''CONFIGURATION_DIRECTORY'' = Some x \<longrightarrow> d = x)"
    using sys [of "''CONFIGURATION_DIRECTORY''"] xdg [of "''XDG_CONFIG_HOME''" "''.config''"] t path_append_absolute [OF t(2)]
    unfolding resolveConfigFile_def
    by (cases "systemdDir E ''CONFIGURATION_DIRECTORY''"; cases "xdgDir E ''XDG_CONFIG_HOME'' ''.config''") auto
  then obtain d where d: "resolveConfigFile E = Some (path_append d ''agent.conf'')" "is_absolute d"
    "\<forall>v. env_get E ''CONFIGURATION_DIRECTORY'' = Some v \<and> first_entry v \<noteq> [] \<longrightarrow> d = first_entry v"
    using first [of "''CONFIGURATION_DIRECTORY''"] by blast
  have "\<exists>root. resolveCacheRoot E = Some root \<and> is_absolute root \<and>
      (\<forall>x. systemdDir E ''CACHE_DIRECTORY'' = Some x \<longrightarrow> root = x)"
    using sys [of "''CACHE_DIRECTORY''"] xdg [of "''XDG_CACHE_HOME''" "''.cache''"] t path_append_absolute [OF t(2)]
    unfolding resolveCacheRoot_def cacheDir_def
    by (cases "systemdDir E ''CACHE_DIRECTORY''"; cases "xdgDir E ''XDG_CACHE_HOME'' ''.cache''") auto
  then obtain root where root: "resolveCacheRoot E = Some root" "is_absolute root"
    "\<forall>v. env_get E ''CACHE_DIRECTORY'' = Some v \<and> first_entry v \<noteq> [] \<longrightarrow> root = first_entry v"
    using first [of "''CACHE_DIRECTORY''"] by blast
  from path_append_agent_conf [OF d(2)] obtain pre where pre: "path_append d ''agent.conf'' = pre @ ''/agent.conf''" ..
  show ?thesis
    using d root pre path_append_absolute [OF d(2), of "''agent.conf''"] by (intro exI [of _ pre] exI [of _ root]) auto
qed

text \<open>A unit whose configuration list begins with a colon, as systemd never writes it but a wrapper may.\<close>

definition odd_env :: start_env where
  "odd_env = \<lparr>env_get = [''CONFIGURATION_DIRECTORY'' \<mapsto> '':/etc/x'', ''CACHE_DIRECTORY'' \<mapsto> ''/c/a:/c/b'', ''HOME'' \<mapsto> ''/home/u''],
    env_temp = Some ''/tmp''\<rparr>"

theorem start_paths_absolute_witness:
  "(\<exists>pre root. resolveConfigFile odd_env = Some (pre @ ''/agent.conf'') \<and> is_absolute (pre @ ''/agent.conf'') \<and>
      resolveCacheRoot odd_env = Some root \<and> root = ''/c/a'') \<and>
   resolveConfigFile odd_env = Some ''/home/u/.config/librescrs/agent.conf''"
proof -
  have "absolute_env odd_env [''CONFIGURATION_DIRECTORY'', ''CACHE_DIRECTORY'']"
    "plain_vars_absolute odd_env [''XDG_CONFIG_HOME'', ''XDG_CACHE_HOME'', ''HOME'']"
    "env_get odd_env ''CACHE_DIRECTORY'' = Some ''/c/a:/c/b''" "first_entry ''/c/a:/c/b'' = ''/c/a''"
    by (simp_all add: absolute_env_def plain_vars_absolute_def odd_env_def first_entry_def is_absolute_def env_nonempty_def)
  moreover have "resolveConfigFile odd_env = Some ''/home/u/.config/librescrs/agent.conf''"
    by (simp add: resolveConfigFile_def systemdDir_first xdgDir_def odd_env_def first_entry_def env_nonempty_def
        path_append_def is_absolute_def has_filename_def)
  ultimately show ?thesis using start_paths_absolute [of odd_env] by force
qed

subsection \<open>The plugin directory\<close>

datatype plugin_source = Environment | CompiledDefault
datatype plugin_verdict = Chosen | Unset
datatype plugin_dir_state = Present | Absent | Unreadable

record plugin_candidate =
  pc_source :: plugin_source
  pc_path :: string
  pc_verdict :: plugin_verdict

record plugin_resolution =
  pr_dir :: string
  pr_dirState :: plugin_dir_state
  pr_dirError :: string
  pr_candidates :: "plugin_candidate list"

record plugin_inputs =
  pi_environment :: string
  pi_compiledDefault :: string

datatype load_status = Loaded | DlopenFailed | MissingFactory | AbiMismatch | FactoryThrew

record load_outcome =
  lo_soPath :: string
  lo_status :: load_status
  lo_diagnostic :: string

datatype log_level = Info | Warn | LogError | Trace

text \<open>The error code of \<^verbatim>\<open>is_directory\<close>: the two that mean nothing is there, and any other with its message.\<close>

datatype fs_error = NoSuchFile | NotADirectory | OtherFsError string

definition kTag :: string where "kTag = ''card plugins''"

text \<open>The dash of the messages, in UTF-8.\<close>

definition em_dash :: string where "em_dash = [CHR 0xE2, CHR 0x80, CHR 0x94]"

definition sourceName :: "plugin_source \<Rightarrow> string" where
  "sourceName s = (case s of Environment \<Rightarrow> ''LIBRESCRS_PLUGIN_DIR'' | CompiledDefault \<Rightarrow> ''the compiled-in default'')"

definition statusName :: "load_status \<Rightarrow> string" where
  "statusName s =
    (case s of
       Loaded \<Rightarrow> ''loaded''
     | DlopenFailed \<Rightarrow> ''dlopen failed''
     | MissingFactory \<Rightarrow> ''no plugin entry points''
     | AbiMismatch \<Rightarrow> ''plugin ABI mismatch''
     | FactoryThrew \<Rightarrow> ''the plugin factory failed'')"

definition rejectionLine :: "plugin_candidate \<Rightarrow> string" where
  "rejectionLine c =
    (case pc_source c of
       Environment \<Rightarrow> kTag @ '': LIBRESCRS_PLUGIN_DIR is not set''
     | CompiledDefault \<Rightarrow> kTag @ '': '' @ sourceName (pc_source c) @ '' did not supply a directory'')"

definition emptyDirLine :: "plugin_resolution \<Rightarrow> string" where
  "emptyDirLine r =
    (let intro = kTag @ '': loaded 0 plugins from '' @ pr_dir r @ '' '' @ em_dash in
     case pr_dirState r of
       Absent \<Rightarrow>
         intro @ '' that directory does not exist; no card can be used until it does and holds plugins''
     | Unreadable \<Rightarrow>
         intro @ '' that directory could not be read ('' @ pr_dirError r @ ''); no card can be used until that is fixed''
     | Present \<Rightarrow> intro @ '' no card can be used until this directory holds plugins'')"

definition resolvePluginDir :: "(string \<Rightarrow> bool \<times> fs_error option) \<Rightarrow> plugin_inputs \<Rightarrow> plugin_resolution" where
  "resolvePluginDir is_directory inputs =
    (let (dir, candidates) =
       (if pi_environment inputs \<noteq> []
        then (pi_environment inputs,
              [\<lparr>pc_source = Environment, pc_path = pi_environment inputs, pc_verdict = Chosen\<rparr>])
        else (pi_compiledDefault inputs,
              [\<lparr>pc_source = Environment, pc_path = [], pc_verdict = Unset\<rparr>,
               \<lparr>pc_source = CompiledDefault, pc_path = pi_compiledDefault inputs, pc_verdict = Chosen\<rparr>]));
         (there, ec) = is_directory dir;
         (dirState, dirError) =
           (if there then (Present, [])
            else (case ec of
                    None \<Rightarrow> (Absent, [])
                  | Some NoSuchFile \<Rightarrow> (Absent, [])
                  | Some NotADirectory \<Rightarrow> (Absent, [])
                  | Some (OtherFsError message) \<Rightarrow> (Unreadable, message)))
     in \<lparr>pr_dir = dir, pr_dirState = dirState, pr_dirError = dirError, pr_candidates = candidates\<rparr>)"

definition candidate_line :: "plugin_candidate \<Rightarrow> log_level \<times> string" where
  "candidate_line c =
    (if pc_verdict c = Chosen then (Info, kTag @ '': using '' @ pc_path c @ '' ('' @ sourceName (pc_source c) @ '')'')
     else (Info, rejectionLine c))"

definition loaded_line :: "plugin_resolution \<Rightarrow> nat \<Rightarrow> log_level \<times> string" where
  "loaded_line r loaded =
    (if loaded = 0 then (Warn, emptyDirLine r)
     else (Info, kTag @ '': loaded '' @ show_nat loaded @ '' plugin'' @ (if loaded = 1 then [] else ''s'') @
             '' from '' @ pr_dir r))"

definition outcome_line :: "load_outcome \<Rightarrow> log_level \<times> string" where
  "outcome_line oc =
    (let line = kTag @ '': '' @ lo_soPath oc @ '' was not loaded ('' @ statusName (lo_status oc) @ '')'' in
     (Warn, if lo_diagnostic oc \<noteq> [] then line @ '': '' @ lo_diagnostic oc else line))"

definition pluginLoadReportLines :: "plugin_resolution \<Rightarrow> nat \<Rightarrow> load_outcome list \<Rightarrow> (log_level \<times> string) list" where
  "pluginLoadReportLines r loaded report =
    map candidate_line (pr_candidates r) @ [loaded_line r loaded] @
    map outcome_line (filter (\<lambda>oc. lo_status oc \<noteq> Loaded) report)"

text \<open>What reaches the log, by severity; a diagnostic-only line would be dropped.\<close>

definition reportPluginLoad :: "plugin_resolution \<Rightarrow> nat \<Rightarrow> load_outcome list \<Rightarrow> (log_level \<times> string) list" where
  "reportPluginLoad r loaded report = filter (\<lambda>(level, line). level \<noteq> Trace) (pluginLoadReportLines r loaded report)"

text \<open>What the header promises of a resolution, whatever is on disk.\<close>

definition resolution_ok :: "plugin_resolution \<Rightarrow> bool" where
  "resolution_ok r \<longleftrightarrow>
    pr_candidates r \<noteq> [] \<and> pc_verdict (last (pr_candidates r)) = Chosen \<and> pc_path (last (pr_candidates r)) = pr_dir r \<and>
    list_all (\<lambda>c. pc_verdict c = Unset \<and> pc_path c = []) (butlast (pr_candidates r)) \<and>
    (pr_dirState r \<noteq> Unreadable \<longrightarrow> pr_dirError r = [])"

lemma resolvePluginDir_ok: "resolution_ok (resolvePluginDir is_directory inputs)"
  by (auto simp: resolution_ok_def resolvePluginDir_def Let_def split: prod.splits option.splits fs_error.splits)

lemma candidate_line_info [simp]: "fst (candidate_line c) = Info"
  by (simp add: candidate_line_def)

lemma outcome_line_warn [simp]: "fst (outcome_line oc) = Warn"
  by (simp add: outcome_line_def Let_def)

text \<open>The three instructions are never confused, for one directory or for any two directories of equal length.\<close>

lemma emptyDirLine_tells_states:
  assumes "emptyDirLine r = emptyDirLine r'" and "length (pr_dir r) = length (pr_dir r')"
  shows "pr_dir r = pr_dir r' \<and> pr_dirState r = pr_dirState r'"
  using assms
  by (cases "pr_dirState r"; cases "pr_dirState r'") (simp_all add: emptyDirLine_def Let_def em_dash_def)

lemma warn_lines:
  "filter (\<lambda>l. fst l = Warn) (reportPluginLoad r loaded report) =
    (if loaded = 0 then [(Warn, emptyDirLine r)] else []) @
    map outcome_line (filter (\<lambda>oc. lo_status oc \<noteq> Loaded) report)"
proof -
  have info: "filter (\<lambda>l. fst l = Warn) (map candidate_line cs) = []" for cs
    by (simp add: filter_empty_conv)
  have warn: "filter (\<lambda>l. fst l = Warn) (map outcome_line ocs) = map outcome_line ocs" for ocs
    by (simp add: filter_id_conv)
  have "filter (\<lambda>l. fst l = Warn) (reportPluginLoad r loaded report) =
      filter (\<lambda>l. fst l = Warn) (pluginLoadReportLines r loaded report)"
    by (auto simp: reportPluginLoad_def intro: filter_cong)
  also have "\<dots> = (if loaded = 0 then [(Warn, emptyDirLine r)] else []) @
      map outcome_line (filter (\<lambda>oc. lo_status oc \<noteq> Loaded) report)"
    by (simp add: pluginLoadReportLines_def info warn loaded_line_def)
  finally show ?thesis .
qed

lemma report_keeps_lines: "reportPluginLoad r loaded report = pluginLoadReportLines r loaded report"
proof -
  have "fst l \<noteq> Trace" if "l \<in> set (pluginLoadReportLines r loaded report)" for l
    using that candidate_line_info outcome_line_warn
    by (auto simp: pluginLoadReportLines_def loaded_line_def split: if_splits)
  then show ?thesis by (simp add: reportPluginLoad_def filter_id_conv case_prod_beta)
qed

text \<open>
  The plugin report tells the operator what is wrong. Whatever is on disk, the directory the
  agent uses is the last candidate it tried, the one marked as chosen, and the log names it; no
  line is lost on the way to the log. There is one warning for the directory exactly when no
  plugin was loaded, and it tells a missing, an unreadable and an empty directory apart; there
  is one warning per file that was not loaded and none for a file that was.
\<close>

theorem plugin_report_complete:
  "let r = resolvePluginDir is_directory inputs; lines = reportPluginLoad r loaded report in
   resolution_ok r \<and> lines = pluginLoadReportLines r loaded report \<and>
   candidate_line (last (pr_candidates r)) =
     (Info, kTag @ '': using '' @ pr_dir r @ '' ('' @ sourceName (pc_source (last (pr_candidates r))) @ '')'') \<and>
   candidate_line (last (pr_candidates r)) \<in> set lines \<and>
   filter (\<lambda>l. fst l = Warn) lines =
     (if loaded = 0 then [(Warn, emptyDirLine r)] else []) @
     map outcome_line (filter (\<lambda>oc. lo_status oc \<noteq> Loaded) report) \<and>
   (\<forall>probe. emptyDirLine (resolvePluginDir probe inputs) = emptyDirLine r \<longrightarrow>
      pr_dirState (resolvePluginDir probe inputs) = pr_dirState r)"
proof -
  let ?r = "resolvePluginDir is_directory inputs"
  have ok: "resolution_ok ?r" by (rule resolvePluginDir_ok)
  then have chosen: "candidate_line (last (pr_candidates ?r)) =
      (Info, kTag @ '': using '' @ pr_dir ?r @ '' ('' @ sourceName (pc_source (last (pr_candidates ?r))) @ '')'')"
    by (simp add: candidate_line_def resolution_ok_def)
  from ok have "candidate_line (last (pr_candidates ?r)) \<in> set (pluginLoadReportLines ?r loaded report)"
    by (simp add: pluginLoadReportLines_def resolution_ok_def)
  moreover have "pr_dir (resolvePluginDir probe inputs) = pr_dir ?r" for probe
    by (simp add: resolvePluginDir_def Let_def split: prod.splits)
  ultimately show ?thesis
    unfolding Let_def using ok chosen report_keeps_lines warn_lines emptyDirLine_tells_states by metis
qed

definition no_plugins_yet :: plugin_inputs where
  "no_plugins_yet = \<lparr>pi_environment = [], pi_compiledDefault = ''/usr/lib/p''\<rparr>"

theorem plugin_report_complete_witness:
  "filter (\<lambda>l. fst l = Warn) (reportPluginLoad (resolvePluginDir (\<lambda>p. (False, Some NoSuchFile)) no_plugins_yet) 0
      [\<lparr>lo_soPath = ''a.so'', lo_status = AbiMismatch, lo_diagnostic = []\<rparr>]) =
     [(Warn, emptyDirLine (resolvePluginDir (\<lambda>p. (False, Some NoSuchFile)) no_plugins_yet)),
      (Warn, ''card plugins: a.so was not loaded (plugin ABI mismatch)'')] \<and>
   emptyDirLine (resolvePluginDir (\<lambda>p. (False, Some (OtherFsError ''EACCES''))) no_plugins_yet) \<noteq>
     emptyDirLine (resolvePluginDir (\<lambda>p. (False, Some NoSuchFile)) no_plugins_yet)"
proof -
  let ?gone = "\<lambda>p :: string. (False, Some NoSuchFile)" and ?denied = "\<lambda>p :: string. (False, Some (OtherFsError ''EACCES''))"
  have differ: "pr_dirState (resolvePluginDir ?denied no_plugins_yet) \<noteq> pr_dirState (resolvePluginDir ?gone no_plugins_yet)"
    by (simp add: resolvePluginDir_def no_plugins_yet_def)
  note report = plugin_report_complete [of ?gone no_plugins_yet 0
      "[\<lparr>lo_soPath = ''a.so'', lo_status = AbiMismatch, lo_diagnostic = []\<rparr>]", unfolded Let_def]
  from report [THEN conjunct2, THEN conjunct2, THEN conjunct2, THEN conjunct2, THEN conjunct1]
  have "filter (\<lambda>l. fst l = Warn) (reportPluginLoad (resolvePluginDir ?gone no_plugins_yet) 0
      [\<lparr>lo_soPath = ''a.so'', lo_status = AbiMismatch, lo_diagnostic = []\<rparr>]) =
      [(Warn, emptyDirLine (resolvePluginDir ?gone no_plugins_yet))] @
      [outcome_line \<lparr>lo_soPath = ''a.so'', lo_status = AbiMismatch, lo_diagnostic = []\<rparr>]" by simp
  moreover have "outcome_line \<lparr>lo_soPath = ''a.so'', lo_status = AbiMismatch, lo_diagnostic = []\<rparr> =
      (Warn, ''card plugins: a.so was not loaded (plugin ABI mismatch)'')"
    by (simp add: outcome_line_def statusName_def kTag_def)
  moreover from report have "emptyDirLine (resolvePluginDir ?denied no_plugins_yet) \<noteq>
      emptyDirLine (resolvePluginDir ?gone no_plugins_yet)"
    using differ by blast
  ultimately show ?thesis by (metis append_Cons append_Nil)
qed

end
