(* ===== verification/Session_Watch.thy ===== *)
theory Session_Watch
  imports Std_Map
begin

text \<open>
  The logind watch (\<^verbatim>\<open>agent/src/SessionLifecycleWatch.cpp\<close>): the events by which the holder's
  session goes away, and the agent's answer to them. The core's own \<^verbatim>\<open>quiesce\<close> is a parameter: what
  it leaves of the core, and whether it threw.
\<close>

datatype quiesce_reason = SystemSleep | ScreenLocked | SessionInactive

text \<open>What the watch can hear on the system bus; only the session's own signals need a session.\<close>

datatype logind_signal =
    PrepareForSleep bool
  | SessionLock
  | SessionPropertiesChanged string "(string, variant) smap"

datatype watch_action = LockState | CoreQuiesce quiesce_reason | UnlockState | LogQuiesced quiesce_reason | LogQuiesceFailed quiesce_reason

record 'core quiesce_world =
  qw_core :: 'core
  qw_trace :: "watch_action list"

type_synonym 'core core_quiesce = "quiesce_reason \<Rightarrow> 'core \<Rightarrow> bool \<times> 'core"

definition kSessionIface :: string where "kSessionIface = ''org.freedesktop.login1.Session''"

definition qw_do :: "watch_action \<Rightarrow> 'core quiesce_world \<Rightarrow> 'core quiesce_world" where
  "qw_do a w = w\<lparr>qw_trace := qw_trace w @ [a]\<rparr>"

text \<open>The guard leaves its scope whether the core returned or threw; only a return reaches the log line.\<close>

definition quiesceUnderLock :: "'core core_quiesce \<Rightarrow> quiesce_reason \<Rightarrow> 'core quiesce_world \<Rightarrow> bool \<times> 'core quiesce_world" where
  "quiesceUnderLock quiesce reason w =
    (let w = qw_do LockState w;
         (threw, c) = quiesce reason (qw_core w);
         w = qw_do UnlockState (qw_do (CoreQuiesce reason) (w\<lparr>qw_core := c\<rparr>)) in
     if threw then (True, w) else (False, qw_do (LogQuiesced reason) w))"

definition deliver_reason ::
  "('core quiesce_world \<Rightarrow> bool \<times> 'core quiesce_world) \<Rightarrow> quiesce_reason \<Rightarrow> 'core quiesce_world \<Rightarrow> 'core quiesce_world" where
  "deliver_reason onQuiesce reason w = (let (threw, w) = onQuiesce w in if threw then qw_do (LogQuiesceFailed reason) w else w)"

record session_watch =
  sw_sessionPath :: string
  sw_session :: bool

text \<open>\<^verbatim>\<open>GetSession("auto")\<close> answers a session's path, or fails and leaves the watch without one.\<close>

definition watchSession :: "string option \<Rightarrow> session_watch \<Rightarrow> session_watch" where
  "watchSession answer s = (case answer of None \<Rightarrow> s | Some path \<Rightarrow> s\<lparr>sw_sessionPath := path, sw_session := True\<rparr>)"

definition SessionLifecycleWatch_ctor :: "string option \<Rightarrow> session_watch" where
  "SessionLifecycleWatch_ctor answer = watchSession answer \<lparr>sw_sessionPath = [], sw_session = False\<rparr>"

definition changed_boolean :: "(string, variant) smap \<Rightarrow> string \<Rightarrow> bool option" where
  "changed_boolean changed name = (case smap_find changed name of None \<Rightarrow> None | Some v \<Rightarrow> get_bool v)"

definition onPropertiesChanged ::
  "'core core_quiesce \<Rightarrow> string \<Rightarrow> (string, variant) smap \<Rightarrow> 'core quiesce_world \<Rightarrow> 'core quiesce_world" where
  "onPropertiesChanged quiesce iface changed w =
    (if iface \<noteq> kSessionIface then w
     else
       let w = (if changed_boolean changed ''Active'' = Some False
                then deliver_reason (quiesceUnderLock quiesce SessionInactive) SessionInactive w else w) in
       if changed_boolean changed ''LockedHint'' = Some True
       then deliver_reason (quiesceUnderLock quiesce ScreenLocked) ScreenLocked w else w)"

definition on_logind :: "'core core_quiesce \<Rightarrow> session_watch \<Rightarrow> logind_signal \<Rightarrow> 'core quiesce_world \<Rightarrow> 'core quiesce_world" where
  "on_logind quiesce s e w =
    (case e of
       PrepareForSleep start \<Rightarrow>
         if start then deliver_reason (quiesceUnderLock quiesce SystemSleep) SystemSleep w else w
     | SessionLock \<Rightarrow>
         if sw_session s then deliver_reason (quiesceUnderLock quiesce ScreenLocked) ScreenLocked w else w
     | SessionPropertiesChanged iface changed \<Rightarrow>
         if sw_session s then onPropertiesChanged quiesce iface changed w else w)"

definition watchSessionLifecycle ::
  "'core core_quiesce \<Rightarrow> string option \<Rightarrow> logind_signal list \<Rightarrow> 'core quiesce_world \<Rightarrow> 'core quiesce_world" where
  "watchSessionLifecycle quiesce answer es w = fold (on_logind quiesce (SessionLifecycleWatch_ctor answer)) es w"

subsection \<open>What the core is told\<close>

text \<open>The events by which the session goes away, as the class comment lists them.\<close>

fun left_by :: "bool \<Rightarrow> logind_signal \<Rightarrow> quiesce_reason list" where
  "left_by session (PrepareForSleep start) = (if start then [SystemSleep] else [])"
| "left_by session SessionLock = (if session then [ScreenLocked] else [])"
| "left_by session (SessionPropertiesChanged iface changed) =
     (if session \<and> iface = kSessionIface
      then (if smap_find changed ''Active'' = Some (VBool False) then [SessionInactive] else []) @
           (if smap_find changed ''LockedHint'' = Some (VBool True) then [ScreenLocked] else [])
      else [])"

text \<open>One answered event: the core is told once, under the lock, and the outcome is logged.\<close>

fun answers :: "'core core_quiesce \<Rightarrow> quiesce_reason list \<Rightarrow> 'core \<Rightarrow> watch_action list \<times> 'core" where
  "answers quiesce [] c = ([], c)"
| "answers quiesce (r # rs) c =
     (let (threw, c1) = quiesce r c; (rest, c2) = answers quiesce rs c1 in
      ([LockState, CoreQuiesce r, UnlockState, if threw then LogQuiesceFailed r else LogQuiesced r] @ rest, c2))"

definition after_answers :: "'core core_quiesce \<Rightarrow> quiesce_reason list \<Rightarrow> 'core quiesce_world \<Rightarrow> 'core quiesce_world" where
  "after_answers quiesce rs w =
    (case answers quiesce rs (qw_core w) of (acts, c) \<Rightarrow> w\<lparr>qw_core := c, qw_trace := qw_trace w @ acts\<rparr>)"

lemma deliver_answers: "deliver_reason (quiesceUnderLock quiesce r) r w = after_answers quiesce [r] w"
  by (simp add: deliver_reason_def quiesceUnderLock_def after_answers_def qw_do_def Let_def split: prod.splits)

lemma answers_append:
  "answers quiesce (rs @ rs') c =
    (let (a, c1) = answers quiesce rs c; (b, c2) = answers quiesce rs' c1 in (a @ b, c2))"
  by (induction rs arbitrary: c) (simp_all add: Let_def split: prod.splits)

lemma after_answers_append: "after_answers quiesce (rs @ rs') w = after_answers quiesce rs' (after_answers quiesce rs w)"
  by (simp add: after_answers_def answers_append Let_def split: prod.splits)

lemma after_answers_Nil [simp]: "after_answers quiesce [] w = w"
  by (simp add: after_answers_def)

lemma changed_boolean_iff: "changed_boolean changed name = Some b \<longleftrightarrow> smap_find changed name = Some (VBool b)"
  by (auto simp: changed_boolean_def split: option.splits elim: get_bool_SomeE)

lemma on_logind_answers: "on_logind quiesce s e w = after_answers quiesce (left_by (sw_session s) e) w"
  by (cases e)
    (simp_all add: on_logind_def onPropertiesChanged_def deliver_answers changed_boolean_iff after_answers_append Let_def)

lemma ctor_session [simp]: "sw_session (SessionLifecycleWatch_ctor answer) \<longleftrightarrow> answer \<noteq> None"
  by (cases answer) (simp_all add: SessionLifecycleWatch_ctor_def watchSession_def)

lemma fold_on_logind:
  "fold (on_logind quiesce s) es w = after_answers quiesce (concat (map (left_by (sw_session s)) es)) w"
  by (induction es arbitrary: w) (simp_all add: on_logind_answers after_answers_append)

fun told_core :: "watch_action list \<Rightarrow> quiesce_reason list" where
  "told_core [] = []"
| "told_core (CoreQuiesce r # acts) = r # told_core acts"
| "told_core (_ # acts) = told_core acts"

lemma told_core_append [simp]: "told_core (xs @ ys) = told_core xs @ told_core ys"
  by (induction xs rule: told_core.induct) simp_all

lemma told_core_answers: "told_core (fst (answers quiesce rs c)) = rs"
  by (induction rs arbitrary: c) (simp_all add: Let_def split: prod.splits, metis fst_conv)

text \<open>The core is only ever told with the state lock held, and the lock is free when the handler returns.\<close>

fun lock_held :: "bool \<Rightarrow> watch_action list \<Rightarrow> bool option" where
  "lock_held h [] = Some h"
| "lock_held h (LockState # acts) = (if h then None else lock_held True acts)"
| "lock_held h (UnlockState # acts) = (if h then lock_held False acts else None)"
| "lock_held h (CoreQuiesce r # acts) = (if h then lock_held h acts else None)"
| "lock_held h (_ # acts) = lock_held h acts"

lemma lock_held_answers: "lock_held False (fst (answers quiesce rs c)) = Some False"
  by (induction rs arbitrary: c) (simp_all add: Let_def split: prod.splits, metis fst_conv)

text \<open>
  C33: the core is told that the holder's session went away exactly when logind says so. Over any
  sequence of logind's signals it hears, in their order, of every sleep that begins, every lock
  request, every locked hint that turns true and every session that turns inactive, and of
  nothing else: not of waking, of unlocking, of becoming active, of a property of another
  interface or of another type, and of nothing but sleep when logind named no session. It is
  told with the state lock held, the lock is free after every event, and a core that throws
  stops neither the remaining reports of the event nor those of later events.
\<close>

theorem lifecycle_told_exactly:
  "let w' = watchSessionLifecycle quiesce answer es \<lparr>qw_core = c, qw_trace = []\<rparr> in
   told_core (qw_trace w') = concat (map (left_by (answer \<noteq> None)) es) \<and>
   lock_held False (qw_trace w') = Some False \<and>
   qw_core w' = snd (answers quiesce (concat (map (left_by (answer \<noteq> None)) es)) c)"
proof -
  let ?rs = "concat (map (left_by (answer \<noteq> None)) es)"
  have "watchSessionLifecycle quiesce answer es \<lparr>qw_core = c, qw_trace = []\<rparr> =
      after_answers quiesce ?rs \<lparr>qw_core = c, qw_trace = []\<rparr>"
    by (simp add: watchSessionLifecycle_def fold_on_logind)
  then show ?thesis
    using told_core_answers [of quiesce ?rs c] lock_held_answers [of quiesce ?rs c]
    by (simp add: after_answers_def Let_def split: prod.splits)
qed

end
