(* ===== verification/Agent_Service.thy ===== *)
theory Agent_Service
  imports Session_Watch Bus_Exporter "HOL-Library.Sublist"
begin

text \<open>
  The agent's host (\<^verbatim>\<open>agent/src/AgentService.cpp\<close>): how the four ownership layers are put together
  on the bus, and how they are taken apart again. A step is a call that may throw or fail; which
  ones do is a parameter. The trace records every step that was tried, in order; the members
  record which of them hold an object.
\<close>

datatype svc_step =
    BlockShutdownSignals | OpenSessionBus | RequestName | MakePolkitAuthorizer | MakeDefaultAuthorizer
  | MakePrompter | ResetPrompter | MakeExporter | EmplaceCore | SetReaderIdentityResolver | PublishAnchorDirectory
  | ObservePresence | MakeFrontend | SetOnKeyRemoved | SetOnChanged | WatchCancelOperations | WatchRevokeLeases
  | NewEventLoop | AttachSessionBus | AddSigterm | AddSigint | MakeLoopPoster | DeliverAnswersThrough | AttachLoopPoster
  | OpenSystemBus | WatchLifecycle | AttachSystemBus | MakeBridge | StartBridge | NotifyReady
  | DropLifecycle | StopBridge | ClearDisconnectHandlers | ClearObservers
  | UnrefSigterm | UnrefSigint | DetachSessionBus | DetachSystemBus | UnrefEventLoop
  | RequestCryptoShutdown | CancelPrompt string | SleepBetweenRounds | ReleaseName

datatype authorizer_kind = PolkitKind | DefaultKind

text \<open>The handlers of a vanished client, by what they do.\<close>

datatype disconnect_handler = CancelOperations | RevokeLeases

record agent_service =
  sv_connection :: bool
  sv_systemBus :: bool
  sv_event :: bool
  sv_sigtermSource :: bool
  sv_sigintSource :: bool
  sv_authorizer :: "authorizer_kind option"
  sv_prompter :: bool
  sv_loopPoster :: bool
  sv_exporter :: bool
  sv_core :: bool
  sv_frontend :: bool
  sv_bridge :: bool
  sv_lifecycle :: bool
  sv_named :: bool
  sv_attached :: bool
  sv_sysAttached :: bool
  sv_posts :: bool
  sv_answersOnLoop :: bool
  sv_observed :: bool
  sv_handlers :: "disconnect_handler list"
  sv_trace :: "svc_step list"

definition AgentService_ctor :: agent_service where
  "AgentService_ctor =
    \<lparr>sv_connection = False, sv_systemBus = False, sv_event = False, sv_sigtermSource = False, sv_sigintSource = False,
     sv_authorizer = None, sv_prompter = False, sv_loopPoster = False, sv_exporter = False, sv_core = False,
     sv_frontend = False, sv_bridge = False, sv_lifecycle = False, sv_named = False, sv_attached = False,
     sv_sysAttached = False, sv_posts = False, sv_answersOnLoop = False, sv_observed = False, sv_handlers = [],
     sv_trace = []\<rparr>"

subsection \<open>Assembling the layers\<close>

text \<open>
  A sequence of calls: each is tried and, when it does not fail, has its effect; the first that
  fails ends the sequence. The answer says whether all of them went through. Three calls cannot
  fail: \<^verbatim>\<open>resetPrompter\<close> is \<^verbatim>\<open>noexcept\<close>, the other two only store what they are given.
\<close>

definition fallible :: "svc_step \<Rightarrow> bool" where
  "fallible step \<longleftrightarrow> step \<noteq> ResetPrompter \<and> step \<noteq> DeliverAnswersThrough \<and> step \<noteq> AttachLoopPoster"

type_synonym svc_call = "svc_step \<times> (agent_service \<Rightarrow> agent_service)"

fun run_calls :: "(svc_step \<Rightarrow> bool) \<Rightarrow> svc_call list \<Rightarrow> agent_service \<Rightarrow> bool \<times> agent_service" where
  "run_calls fails [] s = (True, s)"
| "run_calls fails ((step, upd) # rest) s =
     (let s = s\<lparr>sv_trace := sv_trace s @ [step]\<rparr> in
      if fallible step \<and> fails step then (False, s) else run_calls fails rest (upd s))"

definition no_effect :: "agent_service \<Rightarrow> agent_service" where "no_effect s = s"

text \<open>\<^verbatim>\<open>blockShutdownSignals\<close>, the session bus and the name.\<close>

definition openBus :: "svc_call list" where
  "openBus =
    [(BlockShutdownSignals, no_effect),
     (OpenSessionBus, sv_connection_update (\<lambda>_. True)),
     (RequestName, sv_named_update (\<lambda>_. True))]"

text \<open>Polkit, or the default authorizer when there is no system bus.\<close>

definition chooseAuthorizer :: "(svc_step \<Rightarrow> bool) \<Rightarrow> agent_service \<Rightarrow> agent_service" where
  "chooseAuthorizer fails s =
    (let s = s\<lparr>sv_trace := sv_trace s @ [MakePolkitAuthorizer]\<rparr> in
     if fails MakePolkitAuthorizer
     then s\<lparr>sv_trace := sv_trace s @ [MakeDefaultAuthorizer], sv_authorizer := Some DefaultKind\<rparr>
     else s\<lparr>sv_authorizer := Some PolkitKind\<rparr>)"

text \<open>The layers: prompter and transport, the core, the frontend, and the callbacks between them.\<close>

definition assembleLayers :: "bool \<Rightarrow> svc_call list" where
  "assembleLayers has_plugins =
    [(MakePrompter, sv_prompter_update (\<lambda>_. True)),
     (ResetPrompter, no_effect),
     (MakeExporter, sv_exporter_update (\<lambda>_. True)),
     (EmplaceCore, sv_core_update (\<lambda>_. True)),
     (SetReaderIdentityResolver, no_effect)] @
    (if has_plugins then [(PublishAnchorDirectory, no_effect)] else []) @
    [(ObservePresence, sv_observed_update (\<lambda>_. True)),
     (MakeFrontend, sv_frontend_update (\<lambda>_. True)),
     (SetOnKeyRemoved, no_effect),
     (SetOnChanged, no_effect),
     (WatchCancelOperations, sv_handlers_update (onClientDisconnect CancelOperations)),
     (WatchRevokeLeases, sv_handlers_update (onClientDisconnect RevokeLeases))]"

text \<open>The loop; the polkit answers are brought onto it when polkit is what authorizes.\<close>

definition installEventLoop :: "agent_service \<Rightarrow> svc_call list" where
  "installEventLoop s =
    [(NewEventLoop, sv_event_update (\<lambda>_. True)),
     (AttachSessionBus, sv_attached_update (\<lambda>_. True)),
     (AddSigterm, sv_sigtermSource_update (\<lambda>_. True)),
     (AddSigint, sv_sigintSource_update (\<lambda>_. True)),
     (MakeLoopPoster, sv_loopPoster_update (\<lambda>_. True))] @
    (if sv_authorizer s = Some PolkitKind
     then [(DeliverAnswersThrough, sv_answersOnLoop_update (\<lambda>_. True))] else []) @
    (if sv_exporter s then [(AttachLoopPoster, sv_posts_update (\<lambda>_. True))] else [])"

text \<open>The logind watch; without a system bus the agent runs without it.\<close>

definition watchLifecycle :: "(svc_step \<Rightarrow> bool) \<Rightarrow> agent_service \<Rightarrow> agent_service" where
  "watchLifecycle fails s =
    (let (ok, s) = run_calls fails
       [(OpenSystemBus, sv_systemBus_update (\<lambda>_. True)),
        (WatchLifecycle, sv_lifecycle_update (\<lambda>_. True)),
        (AttachSystemBus, sv_sysAttached_update (\<lambda>_. True))] s in
     if ok then s else s\<lparr>sv_lifecycle := False, sv_systemBus := False\<rparr>)"

definition startMonitor :: "svc_call list" where
  "startMonitor = [(MakeBridge, sv_bridge_update (\<lambda>_. True)), (StartBridge, no_effect)]"

definition registerOnBus :: "(svc_step \<Rightarrow> bool) \<Rightarrow> bool \<Rightarrow> agent_service \<Rightarrow> bool \<times> agent_service" where
  "registerOnBus fails has_plugins s =
    (let (ok, s) = run_calls fails openBus s in
     if \<not> ok then (False, s)
     else
       let s = chooseAuthorizer fails s;
           (ok, s) = run_calls fails (assembleLayers has_plugins) s in
       if \<not> ok then (False, s)
       else
         let (ok, s) = run_calls fails (installEventLoop s) s in
         if \<not> ok then (False, s)
         else
           let s = watchLifecycle fails s;
               (ok, s) = run_calls fails startMonitor s in
           if \<not> ok then (False, s)
           else (True, s\<lparr>sv_trace := sv_trace s @ [NotifyReady]\<rparr>))"

subsection \<open>What a sequence of calls does\<close>

text \<open>Effects leave the trace alone.\<close>

definition keeps_trace :: "svc_call list \<Rightarrow> bool" where
  "keeps_trace calls \<longleftrightarrow> (\<forall>(step, upd) \<in> set calls. \<forall>s. sv_trace (upd s) = sv_trace s)"

lemma run_calls_trace:
  assumes "keeps_trace calls" and "run_calls fails calls s = (ok, s')"
  shows "\<exists>went. prefix went (map fst calls) \<and> sv_trace s' = sv_trace s @ went \<and>
    (ok \<longleftrightarrow> \<not> (\<exists>step \<in> set (map fst calls). fallible step \<and> fails step)) \<and> (ok \<longrightarrow> went = map fst calls)"
  using assms
proof (induction calls arbitrary: s)
  case (Cons call calls)
  obtain step upd where [simp]: "call = (step, upd)" by (cases call)
  show ?case
  proof (cases "fallible step \<and> fails step")
    case True
    with Cons.prems show ?thesis by (intro exI [of _ "[step]"]) auto
  next
    case False
    with Cons.prems have run: "run_calls fails calls (upd (s\<lparr>sv_trace := sv_trace s @ [step]\<rparr>)) = (ok, s')"
      by (simp add: Let_def split: if_splits)
    have "keeps_trace calls" using Cons.prems(1) by (simp add: keeps_trace_def)
    from Cons.IH [OF this run] obtain went where
      "prefix went (map fst calls)" "sv_trace s' = sv_trace (upd (s\<lparr>sv_trace := sv_trace s @ [step]\<rparr>)) @ went"
      "ok \<longleftrightarrow> \<not> (\<exists>step \<in> set (map fst calls). fallible step \<and> fails step)" "ok \<longrightarrow> went = map fst calls"
      by blast
    moreover have "sv_trace (upd (s\<lparr>sv_trace := sv_trace s @ [step]\<rparr>)) = sv_trace s @ [step]"
      using Cons.prems(1) by (simp add: keeps_trace_def)
    ultimately show ?thesis using False by (intro exI [of _ "step # went"]) auto
  qed
qed (simp add: keeps_trace_def)

lemma stages_keep_trace [simp]:
  "keeps_trace openBus" "keeps_trace (assembleLayers p)" "keeps_trace (installEventLoop s)" "keeps_trace startMonitor"
  by (auto simp: keeps_trace_def openBus_def assembleLayers_def installEventLoop_def startMonitor_def no_effect_def)

text \<open>When every call went through, the state is the effects' doing.\<close>

fun all_effects :: "svc_call list \<Rightarrow> agent_service \<Rightarrow> agent_service" where
  "all_effects [] s = s"
| "all_effects ((step, upd) # rest) s = all_effects rest (upd (s\<lparr>sv_trace := sv_trace s @ [step]\<rparr>))"

text \<open>A condition on every state a sequence can stop in.\<close>

fun along :: "(agent_service \<Rightarrow> bool) \<Rightarrow> svc_call list \<Rightarrow> agent_service \<Rightarrow> bool" where
  "along I [] s = I s"
| "along I ((step, upd) # rest) s =
     (I (s\<lparr>sv_trace := sv_trace s @ [step]\<rparr>) \<and> along I rest (upd (s\<lparr>sv_trace := sv_trace s @ [step]\<rparr>)))"

lemma run_calls_all: "run_calls fails calls s = (True, s') \<Longrightarrow> s' = all_effects calls s"
  by (induction fails calls s rule: run_calls.induct) (auto simp: Let_def split: if_splits)

lemma run_calls_along: "run_calls fails calls s = (ok, s') \<Longrightarrow> along I calls s \<Longrightarrow> I s'"
  by (induction fails calls s rule: run_calls.induct) (auto simp: Let_def split: if_splits)

subsection \<open>What borrows what\<close>

text \<open>
  The borrows the header's layer notes name: a member that exists finds everything it holds a
  reference to.
\<close>

definition borrows_ok :: "agent_service \<Rightarrow> bool" where
  "borrows_ok s \<longleftrightarrow>
    (sv_authorizer s \<noteq> None \<longrightarrow> sv_connection s) \<and>
    (sv_exporter s \<longrightarrow> sv_connection s) \<and>
    (sv_core s \<longrightarrow> sv_authorizer s \<noteq> None \<and> sv_prompter s \<and> sv_exporter s) \<and>
    (sv_frontend s \<longrightarrow> sv_core s \<and> sv_exporter s \<and> sv_connection s) \<and>
    (sv_bridge s \<longrightarrow> sv_core s) \<and>
    (sv_lifecycle s \<longrightarrow> sv_systemBus s \<and> sv_core s) \<and>
    (sv_observed s \<longrightarrow> sv_core s \<and> sv_exporter s) \<and>
    (sv_handlers s \<noteq> [] \<longrightarrow> sv_core s \<and> sv_exporter s) \<and>
    (sv_attached s \<longrightarrow> sv_connection s \<and> sv_event s) \<and>
    (sv_sysAttached s \<longrightarrow> sv_systemBus s \<and> sv_event s) \<and>
    (sv_posts s \<longrightarrow> sv_exporter s \<and> sv_loopPoster s) \<and>
    (sv_named s \<longrightarrow> sv_connection s)"

text \<open>The members no later stage has touched yet.\<close>

definition before_layers :: "agent_service \<Rightarrow> bool" where
  "before_layers s \<longleftrightarrow> \<not> sv_exporter s \<and> \<not> sv_core s \<and> \<not> sv_frontend s \<and> \<not> sv_observed s \<and> sv_handlers s = [] \<and> \<not> sv_prompter s"

definition before_loop :: "agent_service \<Rightarrow> bool" where
  "before_loop s \<longleftrightarrow> \<not> sv_event s \<and> \<not> sv_sigtermSource s \<and> \<not> sv_sigintSource s \<and> \<not> sv_attached s \<and> \<not> sv_loopPoster s \<and> \<not> sv_posts s \<and>
    \<not> sv_answersOnLoop s \<and> \<not> sv_bridge s \<and> \<not> sv_lifecycle s \<and> \<not> sv_systemBus s \<and> \<not> sv_sysAttached s"

definition layers_up :: "agent_service \<Rightarrow> bool" where
  "layers_up s \<longleftrightarrow> sv_connection s \<and> sv_named s \<and> sv_authorizer s \<noteq> None \<and> sv_prompter s \<and> sv_exporter s \<and> sv_core s \<and>
    sv_frontend s \<and> sv_observed s \<and> sv_handlers s = [CancelOperations, RevokeLeases]"

lemma openBus_state:
  assumes "run_calls fails openBus AgentService_ctor = (ok, s)"
  shows "borrows_ok s \<and> before_layers s \<and> before_loop s \<and> sv_authorizer s = None \<and> (ok \<longrightarrow> sv_connection s \<and> sv_named s)"
  using assms
  by (auto simp: openBus_def AgentService_ctor_def Let_def no_effect_def borrows_ok_def before_layers_def before_loop_def
      split: if_splits)

lemma chooseAuthorizer_state:
  assumes "borrows_ok s" "before_layers s" "before_loop s" "sv_connection s" "sv_named s"
  shows "borrows_ok (chooseAuthorizer fails s) \<and> before_layers (chooseAuthorizer fails s) \<and> before_loop (chooseAuthorizer fails s) \<and>
    sv_connection (chooseAuthorizer fails s) \<and> sv_named (chooseAuthorizer fails s) \<and>
    sv_authorizer (chooseAuthorizer fails s) = Some (if fails MakePolkitAuthorizer then DefaultKind else PolkitKind)"
  using assms by (simp add: chooseAuthorizer_def Let_def borrows_ok_def before_layers_def before_loop_def)

definition layers_partly :: "authorizer_kind option \<Rightarrow> agent_service \<Rightarrow> bool" where
  "layers_partly kind s \<longleftrightarrow> borrows_ok s \<and> before_loop s \<and> sv_authorizer s = kind"

lemmas stage_defs = no_effect_def borrows_ok_def before_layers_def before_loop_def layers_up_def onClientDisconnect_def
  layers_partly_def

lemma assembleLayers_state:
  assumes "run_calls fails (assembleLayers p) s = (ok, s')" "before_layers s" "before_loop s" "sv_connection s" "sv_named s"
    "sv_authorizer s \<noteq> None"
  shows "borrows_ok s' \<and> before_loop s' \<and> sv_authorizer s' = sv_authorizer s \<and> (ok \<longrightarrow> layers_up s')"
proof -
  have "along (layers_partly (sv_authorizer s)) (assembleLayers p) s"
    using assms(2-) by (simp add: assembleLayers_def stage_defs)
  from run_calls_along [OF assms(1) this] have "layers_partly (sv_authorizer s) s'" .
  moreover have "layers_up s'" if ok
    using run_calls_all [of fails "assembleLayers p" s s'] assms that by (simp add: assembleLayers_def stage_defs)
  ultimately show ?thesis by (simp add: layers_partly_def)
qed

definition loop_partly :: "authorizer_kind option \<Rightarrow> agent_service \<Rightarrow> bool" where
  "loop_partly kind s \<longleftrightarrow> borrows_ok s \<and> layers_up s \<and> sv_authorizer s = kind \<and>
    \<not> sv_bridge s \<and> \<not> sv_lifecycle s \<and> \<not> sv_systemBus s \<and> \<not> sv_sysAttached s"

lemma installEventLoop_state:
  assumes "run_calls fails (installEventLoop s) s = (ok, s')" "borrows_ok s" "before_loop s" "layers_up s"
  shows "loop_partly (sv_authorizer s) s' \<and>
    (ok \<longrightarrow> sv_event s' \<and> sv_attached s' \<and> sv_sigtermSource s' \<and> sv_sigintSource s' \<and> sv_posts s' \<and>
       (sv_answersOnLoop s' \<longleftrightarrow> sv_authorizer s = Some PolkitKind))"
proof -
  have "along (loop_partly (sv_authorizer s)) (installEventLoop s) s"
    using assms(2-) by (simp add: installEventLoop_def stage_defs loop_partly_def)
  from run_calls_along [OF assms(1) this] have "loop_partly (sv_authorizer s) s'" .
  moreover have "sv_event s' \<and> sv_attached s' \<and> sv_sigtermSource s' \<and> sv_sigintSource s' \<and> sv_posts s' \<and>
      (sv_answersOnLoop s' \<longleftrightarrow> sv_authorizer s = Some PolkitKind)" if ok
    using run_calls_all [of fails "installEventLoop s" s s'] assms that by (simp add: installEventLoop_def stage_defs)
  ultimately show ?thesis by simp
qed

subsection \<open>The whole start\<close>

lemma watchLifecycle_state:
  assumes "loop_partly kind s" "sv_event s"
  shows "borrows_ok (watchLifecycle fails s) \<and> layers_up (watchLifecycle fails s) \<and> \<not> sv_bridge (watchLifecycle fails s) \<and>
    (sv_lifecycle (watchLifecycle fails s) \<longleftrightarrow> \<not> fails OpenSystemBus \<and> \<not> fails WatchLifecycle \<and> \<not> fails AttachSystemBus) \<and>
    (sv_systemBus (watchLifecycle fails s) \<longleftrightarrow> sv_lifecycle (watchLifecycle fails s)) \<and>
    sv_event (watchLifecycle fails s) \<and> sv_attached (watchLifecycle fails s) = sv_attached s \<and>
    sv_sigtermSource (watchLifecycle fails s) = sv_sigtermSource s \<and> sv_sigintSource (watchLifecycle fails s) = sv_sigintSource s \<and>
    sv_posts (watchLifecycle fails s) = sv_posts s \<and> sv_answersOnLoop (watchLifecycle fails s) = sv_answersOnLoop s \<and>
    sv_authorizer (watchLifecycle fails s) = sv_authorizer s"
  using assms
  by (cases "fails OpenSystemBus"; cases "fails WatchLifecycle"; cases "fails AttachSystemBus")
    (simp_all add: watchLifecycle_def Let_def fallible_def loop_partly_def borrows_ok_def layers_up_def)

definition lifecycle_steps :: "(svc_step \<Rightarrow> bool) \<Rightarrow> svc_step list" where
  "lifecycle_steps fails =
    OpenSystemBus # (if fails OpenSystemBus then [] else WatchLifecycle # (if fails WatchLifecycle then [] else [AttachSystemBus]))"

lemma watchLifecycle_trace: "sv_trace (watchLifecycle fails s) = sv_trace s @ lifecycle_steps fails"
  by (simp add: watchLifecycle_def Let_def fallible_def lifecycle_steps_def)

lemma chooseAuthorizer_trace:
  "sv_trace (chooseAuthorizer fails s) =
    sv_trace s @ MakePolkitAuthorizer # (if fails MakePolkitAuthorizer then [MakeDefaultAuthorizer] else [])"
  by (simp add: chooseAuthorizer_def Let_def)

text \<open>The steps in the order of the source, and those a start cannot do without.\<close>

definition loop_steps :: "bool \<Rightarrow> svc_step list" where
  "loop_steps polkit =
    [NewEventLoop, AttachSessionBus, AddSigterm, AddSigint, MakeLoopPoster] @
    (if polkit then [DeliverAnswersThrough] else []) @ [AttachLoopPoster]"

definition full_run :: "(svc_step \<Rightarrow> bool) \<Rightarrow> bool \<Rightarrow> svc_step list" where
  "full_run fails p =
    map fst openBus @
    (MakePolkitAuthorizer # (if fails MakePolkitAuthorizer then [MakeDefaultAuthorizer] else [])) @
    map fst (assembleLayers p) @ loop_steps (\<not> fails MakePolkitAuthorizer) @ lifecycle_steps fails @
    map fst startMonitor @ [NotifyReady]"

definition mandatory :: "bool \<Rightarrow> svc_step list" where
  "mandatory p =
    [BlockShutdownSignals, OpenSessionBus, RequestName, MakePrompter, MakeExporter, EmplaceCore, SetReaderIdentityResolver] @
    (if p then [PublishAnchorDirectory] else []) @
    [ObservePresence, MakeFrontend, SetOnKeyRemoved, SetOnChanged, WatchCancelOperations, WatchRevokeLeases,
     NewEventLoop, AttachSessionBus, AddSigterm, AddSigint, MakeLoopPoster, MakeBridge, StartBridge]"

definition running :: "(svc_step \<Rightarrow> bool) \<Rightarrow> agent_service \<Rightarrow> bool" where
  "running fails s \<longleftrightarrow>
    layers_up s \<and> sv_event s \<and> sv_attached s \<and> sv_sigtermSource s \<and> sv_sigintSource s \<and> sv_posts s \<and> sv_bridge s \<and>
    sv_authorizer s = Some (if fails MakePolkitAuthorizer then DefaultKind else PolkitKind) \<and>
    (sv_answersOnLoop s \<longleftrightarrow> \<not> fails MakePolkitAuthorizer) \<and>
    (sv_lifecycle s \<longleftrightarrow> \<not> fails OpenSystemBus \<and> \<not> fails WatchLifecycle \<and> \<not> fails AttachSystemBus)"

lemma installEventLoop_steps:
  "layers_up s \<Longrightarrow> map fst (installEventLoop s) = loop_steps (sv_authorizer s = Some PolkitKind)"
  by (simp add: installEventLoop_def loop_steps_def layers_up_def)

lemma startMonitor_state:
  assumes "run_calls fails startMonitor s = (ok, s')" "borrows_ok s" "layers_up s"
  shows "borrows_ok s' \<and> (ok \<longrightarrow> s' = s\<lparr>sv_bridge := True, sv_trace := sv_trace s @ [MakeBridge, StartBridge]\<rparr>)"
proof -
  have "along borrows_ok startMonitor s"
    using assms(2,3) by (simp add: startMonitor_def no_effect_def borrows_ok_def layers_up_def)
  from run_calls_along [OF assms(1) this] have "borrows_ok s'" .
  moreover have "s' = s\<lparr>sv_bridge := True, sv_trace := sv_trace s @ [MakeBridge, StartBridge]\<rparr>" if ok
    using run_calls_all [of fails startMonitor s s'] assms(1) that by (simp add: startMonitor_def no_effect_def)
  ultimately show ?thesis by blast
qed

text \<open>A start, seen from outside: how far it got along its full run, and what stands.\<close>

definition start_outcome :: "(svc_step \<Rightarrow> bool) \<Rightarrow> bool \<Rightarrow> bool \<Rightarrow> agent_service \<Rightarrow> bool" where
  "start_outcome fails p ok s \<longleftrightarrow>
    borrows_ok s \<and> (\<exists>rest. full_run fails p = sv_trace s @ rest \<and> (rest = [] \<longleftrightarrow> ok)) \<and>
    (ok \<longleftrightarrow> \<not> (\<exists>step \<in> set (mandatory p). fails step)) \<and> (ok \<longrightarrow> running fails s)"

lemma mandatory_stages:
  "set (mandatory p) = {step. fallible step \<and>
     step \<in> set (map fst openBus) \<union> set (map fst (assembleLayers p)) \<union> set (loop_steps q) \<union> set (map fst startMonitor)}"
  by (auto simp: mandatory_def openBus_def assembleLayers_def loop_steps_def startMonitor_def fallible_def)

lemma start_failed:
  assumes "borrows_ok s" and "full_run fails p = before @ stage @ after" and "sv_trace s = before @ went" and "prefix went stage"
    and "\<exists>step \<in> set (mandatory p). fails step" and "after \<noteq> []"
  shows "start_outcome fails p False s"
  using assms by (auto simp: start_outcome_def prefix_def)

text \<open>
  The seams between the stages: how much of the full run lies behind, and that nothing a start
  cannot do without has failed on the way.
\<close>

definition choice_steps :: "(svc_step \<Rightarrow> bool) \<Rightarrow> svc_step list" where
  "choice_steps fails = MakePolkitAuthorizer # (if fails MakePolkitAuthorizer then [MakeDefaultAuthorizer] else [])"

definition chosen_kind :: "(svc_step \<Rightarrow> bool) \<Rightarrow> authorizer_kind option" where
  "chosen_kind fails = Some (if fails MakePolkitAuthorizer then DefaultKind else PolkitKind)"

definition clean :: "(svc_step \<Rightarrow> bool) \<Rightarrow> svc_step list \<Rightarrow> bool" where
  "clean fails steps \<longleftrightarrow> \<not> (\<exists>step \<in> set steps. fallible step \<and> fails step)"

lemma full_run_stages:
  "full_run fails p = map fst openBus @ choice_steps fails @ map fst (assembleLayers p) @
    loop_steps (\<not> fails MakePolkitAuthorizer) @ lifecycle_steps fails @ map fst startMonitor @ [NotifyReady]"
  by (simp add: full_run_def choice_steps_def)

lemma clean_mandatory:
  "(\<exists>step \<in> set (mandatory p). fails step) \<longleftrightarrow>
    \<not> (clean fails (map fst openBus) \<and> clean fails (map fst (assembleLayers p)) \<and> clean fails (loop_steps q) \<and>
       clean fails (map fst startMonitor))"
  by (auto simp: mandatory_stages [of p q] clean_def)

lemma stage_went:
  assumes "keeps_trace calls" "run_calls fails calls s = (ok, s')"
  shows "ok \<longleftrightarrow> clean fails (map fst calls)" and "ok \<Longrightarrow> sv_trace s' = sv_trace s @ map fst calls"
    and "\<exists>went. prefix went (map fst calls) \<and> sv_trace s' = sv_trace s @ went"
  using run_calls_trace [OF assms] unfolding clean_def by blast+

lemma stage_stops:
  assumes "keeps_trace calls" "run_calls fails calls s = (False, s')" "borrows_ok s'"
    and "full_run fails p = sv_trace s @ map fst calls @ after" "after \<noteq> []" "\<exists>step \<in> set (mandatory p). fails step"
  shows "start_outcome fails p False s'"
proof -
  from stage_went(3) [OF assms(1,2)] obtain went where "prefix went (map fst calls)" "sv_trace s' = sv_trace s @ went" by blast
  with start_failed [OF assms(3,4)] assms(5,6) show ?thesis by blast
qed

lemma finish_start:
  assumes "run_calls fails startMonitor s = (ok, s')" "borrows_ok s" "layers_up s"
    and "full_run fails p = sv_trace s @ map fst startMonitor @ [NotifyReady]"
    and "clean fails (map fst openBus)" "clean fails (map fst (assembleLayers p))" "clean fails (loop_steps q)"
    and "running fails (s\<lparr>sv_bridge := True\<rparr>)"
  shows "start_outcome fails p ok (if ok then s'\<lparr>sv_trace := sv_trace s' @ [NotifyReady]\<rparr> else s')"
proof (cases ok)
  case True
  with assms(1) have went: "sv_trace s' = sv_trace s @ map fst startMonitor" "clean fails (map fst startMonitor)"
    using stage_went [OF stages_keep_trace(4) assms(1)] by simp_all
  from startMonitor_state [OF assms(1-3)] True
  have s': "borrows_ok s'" "s' = s\<lparr>sv_bridge := True, sv_trace := sv_trace s @ [MakeBridge, StartBridge]\<rparr>" by blast+
  have "borrows_ok (s'\<lparr>sv_trace := sv_trace s' @ [NotifyReady]\<rparr>)" using s'(1) by (simp add: borrows_ok_def)
  moreover have "running fails (s'\<lparr>sv_trace := sv_trace s' @ [NotifyReady]\<rparr>)"
    using assms(8) unfolding s'(2) by (simp add: running_def layers_up_def)
  moreover have "\<not> (\<exists>step \<in> set (mandatory p). fails step)"
    using clean_mandatory [of p fails q] assms(5-7) went(2) by simp
  ultimately show ?thesis using True assms(4) went(1) by (simp add: start_outcome_def)
next
  case False
  then have "\<not> clean fails (map fst startMonitor)" using stage_went(1) [OF stages_keep_trace(4) assms(1)] by simp
  then have "\<exists>step \<in> set (mandatory p). fails step" using clean_mandatory [of p fails q] by blast
  moreover from False assms(1) have "run_calls fails startMonitor s = (False, s')" by simp
  moreover from startMonitor_state [OF assms(1-3)] have "borrows_ok s'" by simp
  ultimately have "start_outcome fails p False s'"
    using stage_stops [OF stages_keep_trace(4), of fails s s' p "[NotifyReady]"] assms(4) by blast
  with False show ?thesis by simp
qed

text \<open>The stages after the layers, and after the name, as \<^const>\<open>registerOnBus\<close> runs them.\<close>

definition after_loop :: "(svc_step \<Rightarrow> bool) \<Rightarrow> agent_service \<Rightarrow> bool \<times> agent_service" where
  "after_loop fails s =
    (let (ok, s) = run_calls fails startMonitor (watchLifecycle fails s) in
     if \<not> ok then (False, s) else (True, s\<lparr>sv_trace := sv_trace s @ [NotifyReady]\<rparr>))"

definition after_layers :: "(svc_step \<Rightarrow> bool) \<Rightarrow> agent_service \<Rightarrow> bool \<times> agent_service" where
  "after_layers fails s =
    (let (ok, s) = run_calls fails (installEventLoop s) s in if \<not> ok then (False, s) else after_loop fails s)"

definition after_name :: "(svc_step \<Rightarrow> bool) \<Rightarrow> bool \<Rightarrow> agent_service \<Rightarrow> bool \<times> agent_service" where
  "after_name fails p s =
    (let (ok, s) = run_calls fails (assembleLayers p) (chooseAuthorizer fails s) in
     if \<not> ok then (False, s) else after_layers fails s)"

lemma registerOnBus_stages:
  "registerOnBus fails p s =
    (let (ok, s) = run_calls fails openBus s in if \<not> ok then (False, s) else after_name fails p s)"
  by (simp add: registerOnBus_def after_name_def after_layers_def after_loop_def Let_def split: prod.splits)

lemma after_loop_outcome:
  assumes "after_loop fails s = (ok, s')" and "loop_partly (chosen_kind fails) s" "sv_event s" "sv_attached s"
    "sv_sigtermSource s" "sv_sigintSource s" "sv_posts s" "sv_answersOnLoop s \<longleftrightarrow> \<not> fails MakePolkitAuthorizer"
    and "full_run fails p = sv_trace s @ lifecycle_steps fails @ map fst startMonitor @ [NotifyReady]"
    and "clean fails (map fst openBus)" "clean fails (map fst (assembleLayers p))" "clean fails (loop_steps q)"
  shows "start_outcome fails p ok s'"
proof -
  let ?w = "watchLifecycle fails s"
  obtain ok1 s1 where run: "run_calls fails startMonitor ?w = (ok1, s1)" by fastforce
  note w = watchLifecycle_state [OF assms(2,3), of fails]
  have "running fails (?w\<lparr>sv_bridge := True\<rparr>)"
    using w assms(2-8) by (simp add: running_def chosen_kind_def loop_partly_def layers_up_def)
  then have "start_outcome fails p ok1 (if ok1 then s1\<lparr>sv_trace := sv_trace s1 @ [NotifyReady]\<rparr> else s1)"
    using finish_start [OF run _ _ _ assms(10-12)] w assms(9) by (simp add: watchLifecycle_trace)
  moreover have "(ok, s') = (ok1, if ok1 then s1\<lparr>sv_trace := sv_trace s1 @ [NotifyReady]\<rparr> else s1)"
    using assms(1) run by (simp add: after_loop_def split: if_splits)
  ultimately show ?thesis by simp
qed

lemma after_layers_outcome:
  assumes "after_layers fails s = (ok, s')" and "borrows_ok s" "before_loop s" "layers_up s" "sv_authorizer s = chosen_kind fails"
    and "full_run fails p = sv_trace s @ loop_steps (\<not> fails MakePolkitAuthorizer) @ lifecycle_steps fails @
      map fst startMonitor @ [NotifyReady]"
    and "clean fails (map fst openBus)" "clean fails (map fst (assembleLayers p))"
  shows "start_outcome fails p ok s'"
proof -
  obtain ok1 s1 where run: "run_calls fails (installEventLoop s) s = (ok1, s1)" by fastforce
  have steps: "map fst (installEventLoop s) = loop_steps (\<not> fails MakePolkitAuthorizer)"
    using installEventLoop_steps [OF assms(4)] assms(5) by (simp add: chosen_kind_def)
  note went = stage_went [OF stages_keep_trace(3) run, unfolded steps]
  note state = installEventLoop_state [OF run assms(2-4), unfolded assms(5)]
  show ?thesis
  proof (cases ok1)
    case True
    then have "after_loop fails s1 = (ok, s')" using assms(1) run by (simp add: after_layers_def)
    then show ?thesis
      using state True went(1,2) assms(6)
      by (intro after_loop_outcome [OF _ _ _ _ _ _ _ _ _ assms(7,8), where q = "\<not> fails MakePolkitAuthorizer" and s = s1])
        (simp_all add: chosen_kind_def)
  next
    case False
    then have "ok = False" "s' = s1" using assms(1) run by (simp_all add: after_layers_def)
    moreover have "\<exists>step \<in> set (mandatory p). fails step"
      using clean_mandatory [of p fails "\<not> fails MakePolkitAuthorizer"] went(1) False by blast
    ultimately show ?thesis
      using stage_stops [OF stages_keep_trace(3), of fails s s s1 p "lifecycle_steps fails @ map fst startMonitor @ [NotifyReady]"]
        run False state assms(6) by (simp add: steps loop_partly_def)
  qed
qed

lemma after_name_outcome:
  assumes "after_name fails p s = (ok, s')" and "borrows_ok s" "before_layers s" "before_loop s" "sv_connection s" "sv_named s"
    and "sv_trace s = map fst openBus" "clean fails (map fst openBus)"
  shows "start_outcome fails p ok s'"
proof -
  define c where "c = chooseAuthorizer fails s"
  obtain ok1 s1 where run: "run_calls fails (assembleLayers p) c = (ok1, s1)" by fastforce
  from chooseAuthorizer_state [OF assms(2-6), of fails]
  have c: "before_layers c" "before_loop c" "sv_connection c" "sv_named c" "sv_authorizer c = chosen_kind fails"
    by (simp_all add: c_def chosen_kind_def)
  have trace: "sv_trace c = map fst openBus @ choice_steps fails"
    by (simp add: c_def chooseAuthorizer_trace choice_steps_def assms(7))
  note went = stage_went [OF stages_keep_trace(2) run]
  have state: "borrows_ok s1" "before_loop s1" "sv_authorizer s1 = chosen_kind fails" "ok1 \<longrightarrow> layers_up s1"
    using assembleLayers_state [OF run c(1-4)] c(5) by (simp_all add: chosen_kind_def)
  show ?thesis
  proof (cases ok1)
    case True
    then have "after_layers fails s1 = (ok, s')" using assms(1) run by (simp add: after_name_def c_def)
    then show ?thesis
      using state True went(1,2) trace
      by (intro after_layers_outcome [OF _ _ _ _ _ _ assms(8), where s = s1]) (simp_all add: full_run_stages)
  next
    case False
    then have "ok = False" "s' = s1" using assms(1) run by (simp_all add: after_name_def c_def)
    moreover have "\<exists>step \<in> set (mandatory p). fails step"
      using clean_mandatory [of p fails True] went(1) False by blast
    ultimately show ?thesis
      using stage_stops [OF stages_keep_trace(2), of fails p c s1 p] run False state trace by (simp add: full_run_stages)
  qed
qed

lemma register_outcome:
  assumes "registerOnBus fails p AgentService_ctor = (ok, s)"
  shows "start_outcome fails p ok s"
proof -
  obtain ok1 s1 where run: "run_calls fails openBus AgentService_ctor = (ok1, s1)" by fastforce
  have fresh: "sv_trace AgentService_ctor = []" by (simp add: AgentService_ctor_def)
  note went = stage_went [OF stages_keep_trace(1) run, unfolded fresh append_Nil]
  note state = openBus_state [OF run]
  show ?thesis
  proof (cases ok1)
    case True
    then have "after_name fails p s1 = (ok, s)" using assms run by (simp add: registerOnBus_stages)
    then show ?thesis using state True went by (intro after_name_outcome [of fails p s1]) simp_all
  next
    case False
    then have "ok = False" "s = s1" using assms run by (simp_all add: registerOnBus_stages)
    moreover have "\<exists>step \<in> set (mandatory p). fails step"
      using clean_mandatory [of p fails True] went(1) False by blast
    ultimately show ?thesis
      using stage_stops [OF stages_keep_trace(1), of fails AgentService_ctor s1 p] run False state fresh
      by (simp add: full_run_stages)
  qed
qed

text \<open>What has to have gone before a step, as the comments of the source ask for it.\<close>

definition start_order :: "(svc_step \<times> svc_step) list" where
  "start_order =
    [(BlockShutdownSignals, EmplaceCore), (BlockShutdownSignals, StartBridge), (RequestName, MakeFrontend),
     (MakeExporter, EmplaceCore), (MakePrompter, EmplaceCore), (SetReaderIdentityResolver, MakeFrontend),
     (EmplaceCore, MakeFrontend), (ObservePresence, StartBridge), (SetOnKeyRemoved, StartBridge),
     (MakeLoopPoster, StartBridge), (AttachLoopPoster, StartBridge), (StartBridge, NotifyReady)]"

definition preceded :: "svc_step list \<Rightarrow> svc_step \<times> svc_step \<Rightarrow> bool" where
  "preceded trace = (\<lambda>(first, second). second \<in> set trace \<longrightarrow> first \<in> set (takeWhile (\<lambda>x. x \<noteq> second) trace))"

lemma preceded_prefix: "preceded (xs @ ys) pair \<Longrightarrow> preceded xs pair"
  by (auto simp: preceded_def takeWhile_append1 split: prod.splits)

lemma full_run_order: "list_all (preceded (full_run fails p)) start_order"
  by (cases p; cases "fails MakePolkitAuthorizer"; cases "fails OpenSystemBus"; cases "fails WatchLifecycle")
    (simp_all add: start_order_def preceded_def full_run_def openBus_def assembleLayers_def loop_steps_def lifecycle_steps_def
      startMonitor_def)

lemma full_run_anchors: "preceded (full_run fails True) (PublishAnchorDirectory, MakeFrontend)"
  by (simp add: preceded_def full_run_def openBus_def assembleLayers_def)

lemma ready_last: "full_run fails p = sv_trace s @ rest \<Longrightarrow> NotifyReady \<in> set (sv_trace s) \<longleftrightarrow> rest = []"
proof -
  assume full: "full_run fails p = sv_trace s @ rest"
  obtain pre where pre: "full_run fails p = pre @ [NotifyReady]" "NotifyReady \<notin> set pre"
    by (rule that [of "butlast (full_run fails p)"])
      (auto simp: full_run_def openBus_def assembleLayers_def loop_steps_def lifecycle_steps_def startMonitor_def butlast_append)
  show ?thesis
  proof (cases rest rule: rev_cases)
    case Nil
    with full pre(1) have "sv_trace s = pre @ [NotifyReady]" by simp
    with Nil show ?thesis by simp
  next
    case (snoc rest' x)
    with full pre(1) have "pre = sv_trace s @ rest'" by simp
    with snoc pre(2) show ?thesis by simp
  qed
qed

text \<open>
  C29: the agent says it is ready exactly when it is. Whichever steps of the start fail, the start
  succeeds if and only if every step it cannot do without succeeded, and only then is systemd told
  that the agent is ready; then all four layers stand, the well-known name is held, the bus and the
  two shutdown signals are on the loop, both handlers of a vanished client are registered in their
  order, the presence source runs, polkit authorizes unless there was no system bus, and the
  lifecycle watch is there unless one of its own steps failed. A start that fails has told nobody
  it is ready. In every case no member that was made lacks a member it borrows.
\<close>

theorem ready_iff_complete:
  assumes "registerOnBus fails p AgentService_ctor = (ok, s)"
  shows "(ok \<longleftrightarrow> \<not> (\<exists>step \<in> set (mandatory p). fails step)) \<and> (NotifyReady \<in> set (sv_trace s) \<longleftrightarrow> ok) \<and>
    (ok \<longrightarrow> running fails s) \<and> borrows_ok s"
proof -
  from register_outcome [OF assms] obtain rest where "borrows_ok s" "full_run fails p = sv_trace s @ rest" "rest = [] \<longleftrightarrow> ok"
    "ok \<longleftrightarrow> \<not> (\<exists>step \<in> set (mandatory p). fails step)" "ok \<longrightarrow> running fails s"
    unfolding start_outcome_def by blast
  with ready_last show ?thesis by metis
qed

text \<open>A session without a system bus.\<close>

definition no_system_bus :: "svc_step \<Rightarrow> bool" where
  "no_system_bus step \<longleftrightarrow> step = MakePolkitAuthorizer \<or> step = OpenSystemBus"

lemma no_system_bus_clean: "\<not> (\<exists>step \<in> set (mandatory True). no_system_bus step)"
  by (simp add: mandatory_def no_system_bus_def)

theorem ready_iff_complete_witness:
  "fst (registerOnBus no_system_bus True AgentService_ctor) \<and>
   sv_authorizer (snd (registerOnBus no_system_bus True AgentService_ctor)) = Some DefaultKind \<and>
   \<not> sv_lifecycle (snd (registerOnBus no_system_bus True AgentService_ctor)) \<and>
   \<not> fst (registerOnBus (\<lambda>step. step = RequestName) True AgentService_ctor)"
proof -
  note up = ready_iff_complete [OF prod.collapse [symmetric], of no_system_bus True]
  note down = ready_iff_complete [OF prod.collapse [symmetric], of "\<lambda>step. step = RequestName" True]
  from up no_system_bus_clean have "fst (registerOnBus no_system_bus True AgentService_ctor)"
    "running no_system_bus (snd (registerOnBus no_system_bus True AgentService_ctor))" by blast+
  moreover from down have "\<not> fst (registerOnBus (\<lambda>step. step = RequestName) True AgentService_ctor)"
    by (simp add: mandatory_def)
  ultimately show ?thesis by (simp add: running_def no_system_bus_def)
qed

text \<open>
  The start keeps the order its comments ask for, wherever it stops. The shutdown signals are
  blocked before anything that spawns a thread; the name is claimed before an object is exported;
  the core is built after what it borrows and before the frontend that borrows it; the loop and
  its poster stand, and the transport observes the registry, before the presence source starts;
  with plugins, the anchor directory is published before the tree is exported; and the ready
  notice is the last step.
\<close>

theorem start_in_order:
  assumes "registerOnBus fails p AgentService_ctor = (ok, s)"
  shows "list_all (preceded (sv_trace s)) start_order \<and> (p \<longrightarrow> preceded (sv_trace s) (PublishAnchorDirectory, MakeFrontend)) \<and>
    (ok \<longrightarrow> last (sv_trace s) = NotifyReady)"
proof -
  from register_outcome [OF assms] obtain rest where run: "full_run fails p = sv_trace s @ rest" "rest = [] \<longleftrightarrow> ok"
    unfolding start_outcome_def by blast
  have "list_all (preceded (sv_trace s)) start_order"
    using full_run_order [of fails p] preceded_prefix unfolding run(1) list_all_iff by blast
  moreover have "preceded (sv_trace s) (PublishAnchorDirectory, MakeFrontend)" if p
    using full_run_anchors [of fails] that run(1) preceded_prefix by auto
  moreover have "last (sv_trace s) = NotifyReady" if ok
    using that run(2) arg_cong [OF run(1), of last] by (simp add: full_run_def)
  ultimately show ?thesis by blast
qed

theorem start_in_order_witness:
  "last (sv_trace (snd (registerOnBus no_system_bus True AgentService_ctor))) = NotifyReady \<and>
   list_all (preceded (sv_trace (snd (registerOnBus (\<lambda>step. step = MakeFrontend) True AgentService_ctor)))) start_order"
proof -
  have "fst (registerOnBus no_system_bus True AgentService_ctor)"
    using register_outcome [OF prod.collapse [symmetric], of no_system_bus True] no_system_bus_clean
    unfolding start_outcome_def by blast
  then show ?thesis
    using start_in_order [OF prod.collapse [symmetric], of no_system_bus True]
      start_in_order [OF prod.collapse [symmetric], of "\<lambda>step. step = MakeFrontend" True] by blast
qed

end
