(* ===== verification/Agent_Shutdown.thy ===== *)
theory Agent_Shutdown
  imports Agent_Service
begin

text \<open>
  Taking the agent apart (\<^verbatim>\<open>AgentService::quiesce\<close>, \<^verbatim>\<open>teardownEventLoop\<close> and the destructor): the
  inbound edges first, then the loop, then every prompt that still stands, and last the members
  against the order of their declaration. The prompt gate of the core and the prompter that
  dismisses a prompt are parameters.
\<close>

record 'g prompt_gate =
  pg_liveIds :: "'g \<Rightarrow> string list"
  pg_cancel :: "string \<Rightarrow> 'g \<Rightarrow> 'g"
  pg_pending :: "'g \<Rightarrow> bool"
  pg_sleep :: "'g \<Rightarrow> 'g"

definition svc_log :: "svc_step \<Rightarrow> agent_service \<Rightarrow> agent_service" where
  "svc_log step s = s\<lparr>sv_trace := sv_trace s @ [step]\<rparr>"

text \<open>A step taken only when its guard holds of the state it finds.\<close>

definition svc_when :: "(agent_service \<Rightarrow> bool) \<Rightarrow> svc_step \<Rightarrow> (agent_service \<Rightarrow> agent_service) \<Rightarrow> agent_service \<Rightarrow> agent_service" where
  "svc_when guard step upd s = (if guard s then upd (svc_log step s) else s)"

text \<open>A bus that does not let itself be detached stays attached; the failure is swallowed.\<close>

definition teardownEventLoop :: "(svc_step \<Rightarrow> bool) \<Rightarrow> agent_service \<Rightarrow> agent_service" where
  "teardownEventLoop fails s =
    (let s = svc_when sv_sigtermSource UnrefSigterm (sv_sigtermSource_update (\<lambda>_. False)) s;
         s = svc_when sv_sigintSource UnrefSigint (sv_sigintSource_update (\<lambda>_. False)) s;
         s = svc_when (\<lambda>s. sv_connection s \<and> sv_event s) DetachSessionBus
               (sv_attached_update (\<lambda>a. a \<and> fails DetachSessionBus)) s;
         s = svc_when (\<lambda>s. sv_systemBus s \<and> sv_event s) DetachSystemBus
               (sv_sysAttached_update (\<lambda>a. a \<and> fails DetachSystemBus)) s in
     svc_when sv_event UnrefEventLoop (sv_event_update (\<lambda>_. False)) s)"

definition kMaxDrainIterations :: nat where "kMaxDrainIterations = 40"

definition cancel_live :: "'g prompt_gate \<Rightarrow> agent_service \<times> 'g \<Rightarrow> agent_service \<times> 'g" where
  "cancel_live G sg =
    fold (\<lambda>i (s, g). (svc_log (CancelPrompt i) s, pg_cancel G i g)) (pg_liveIds G (snd sg)) sg"

fun drain_prompts :: "'g prompt_gate \<Rightarrow> nat \<Rightarrow> agent_service \<times> 'g \<Rightarrow> agent_service \<times> 'g" where
  "drain_prompts G 0 sg = sg"
| "drain_prompts G (Suc rounds) sg =
     (let (s, g) = cancel_live G sg in
      if \<not> pg_pending G g then (s, g)
      else drain_prompts G rounds (svc_log SleepBetweenRounds s, pg_sleep G g))"

text \<open>The steps of \<^verbatim>\<open>quiesce\<close> up to the shutdown of the crypto workers.\<close>

definition severEdges :: "(svc_step \<Rightarrow> bool) \<Rightarrow> agent_service \<Rightarrow> agent_service" where
  "severEdges fails s =
    (let s = svc_when sv_lifecycle DropLifecycle (sv_lifecycle_update (\<lambda>_. False)) s;
         s = svc_when sv_bridge StopBridge no_effect s;
         s = svc_when sv_exporter ClearDisconnectHandlers (sv_handlers_update (\<lambda>_. [])) s;
         s = svc_when sv_core ClearObservers (sv_observed_update (\<lambda>_. False)) s;
         s = teardownEventLoop fails s in
     svc_when sv_core RequestCryptoShutdown no_effect s)"

definition releaseName :: "(svc_step \<Rightarrow> bool) \<Rightarrow> agent_service \<Rightarrow> agent_service" where
  "releaseName fails = svc_when sv_connection ReleaseName (sv_named_update (\<lambda>n. n \<and> fails ReleaseName))"

definition quiesce :: "(svc_step \<Rightarrow> bool) \<Rightarrow> 'g prompt_gate \<Rightarrow> agent_service \<times> 'g \<Rightarrow> agent_service \<times> 'g" where
  "quiesce fails G sg =
    (let s = severEdges fails (fst sg);
         sg = (if sv_prompter s \<and> sv_core s then drain_prompts G kMaxDrainIterations (s, snd sg) else (s, snd sg)) in
     (releaseName fails (fst sg), snd sg))"

text \<open>The members in the order they are destroyed; the transport takes its share of the poster with it.\<close>

datatype member = MLifecycle | MBridge | MFrontend | MCore | MExporter | MLoopPoster | MPrompter | MAuthorizer | MSystemBus | MConnection

definition destruction_order :: "member list" where
  "destruction_order =
    [MLifecycle, MBridge, MFrontend, MCore, MExporter, MLoopPoster, MPrompter, MAuthorizer, MSystemBus, MConnection]"

fun destroy_member :: "member \<Rightarrow> agent_service \<Rightarrow> agent_service" where
  "destroy_member MLifecycle s = s\<lparr>sv_lifecycle := False\<rparr>"
| "destroy_member MBridge s = s\<lparr>sv_bridge := False\<rparr>"
| "destroy_member MFrontend s = s\<lparr>sv_frontend := False\<rparr>"
| "destroy_member MCore s = s\<lparr>sv_core := False\<rparr>"
| "destroy_member MExporter s = s\<lparr>sv_exporter := False, sv_posts := False\<rparr>"
| "destroy_member MLoopPoster s = s\<lparr>sv_loopPoster := False\<rparr>"
| "destroy_member MPrompter s = s\<lparr>sv_prompter := False\<rparr>"
| "destroy_member MAuthorizer s = s\<lparr>sv_authorizer := None\<rparr>"
| "destroy_member MSystemBus s = s\<lparr>sv_systemBus := False\<rparr>"
| "destroy_member MConnection s = s\<lparr>sv_connection := False, sv_named := False\<rparr>"

definition AgentService_dtor :: "(svc_step \<Rightarrow> bool) \<Rightarrow> 'g prompt_gate \<Rightarrow> nat \<Rightarrow> agent_service \<times> 'g \<Rightarrow> agent_service" where
  "AgentService_dtor fails G k sg = fold destroy_member (take k destruction_order) (fst (quiesce fails G sg))"

subsection \<open>The prompts drain\<close>

text \<open>A round adds dismissals and at most one pause to the trace, and nothing else to the host.\<close>

definition drain_step :: "svc_step \<Rightarrow> bool" where
  "drain_step step \<longleftrightarrow> (case step of CancelPrompt i \<Rightarrow> True | SleepBetweenRounds \<Rightarrow> True | _ \<Rightarrow> False)"

definition only_drained :: "agent_service \<Rightarrow> agent_service \<Rightarrow> nat \<Rightarrow> bool" where
  "only_drained s s' n \<longleftrightarrow>
    (\<exists>steps. s' = s\<lparr>sv_trace := sv_trace s @ steps\<rparr> \<and> list_all drain_step steps \<and>
       length (filter (\<lambda>step. step = SleepBetweenRounds) steps) \<le> n)"

lemma only_drained_trans: "only_drained s s' m \<Longrightarrow> only_drained s' s'' n \<Longrightarrow> only_drained s s'' (m + n)"
  unfolding only_drained_def by (elim exE conjE) (rule_tac x = "steps @ stepsa" in exI, simp)

lemma only_drained_log: "drain_step step \<Longrightarrow> only_drained s (svc_log step s) (if step = SleepBetweenRounds then 1 else 0)"
  unfolding only_drained_def svc_log_def by (rule exI [of _ "[step]"]) simp

lemma only_drained_refl: "only_drained s s 0"
  unfolding only_drained_def by (rule exI [of _ "[]"]) simp

lemma cancel_live_drains: "only_drained (fst sg) (fst (cancel_live G sg)) 0"
proof -
  have "only_drained (fst sg) (fst (fold (\<lambda>i (s, g). (svc_log (CancelPrompt i) s, pg_cancel G i g)) ids sg)) 0" for ids
  proof (induction ids arbitrary: sg)
    case (Cons i ids)
    obtain s g where sg: "sg = (s, g)" by (cases sg)
    have "only_drained s (svc_log (CancelPrompt i) s) 0"
      using only_drained_log [of "CancelPrompt i" s] by (simp add: drain_step_def)
    from only_drained_trans [OF this] Cons.IH [of "(svc_log (CancelPrompt i) s, pg_cancel G i g)"] show ?case
      by (simp add: sg)
  qed (simp add: only_drained_refl)
  then show ?thesis by (simp add: cancel_live_def)
qed

lemma drain_prompts_drains: "only_drained (fst sg) (fst (drain_prompts G n sg)) n"
proof (induction G n sg rule: drain_prompts.induct)
  case (1 G sg)
  then show ?case by (simp add: only_drained_refl)
next
  case (2 G n sg)
  obtain s g where c: "cancel_live G sg = (s, g)" by fastforce
  have first: "only_drained (fst sg) s 0" using cancel_live_drains [of sg G] c by simp
  show ?case
  proof (cases "pg_pending G g")
    case True
    have "only_drained s (svc_log SleepBetweenRounds s) 1"
      using only_drained_log [of SleepBetweenRounds s] by (simp add: drain_step_def)
    from only_drained_trans [OF only_drained_trans [OF first this]] 2 [OF c [symmetric] refl] True show ?thesis
      by (simp add: c)
  next
    case False
    have "only_drained s s (Suc n)" using only_drained_refl [of s] by (auto simp: only_drained_def)
    from only_drained_trans [OF first this] False show ?thesis by (simp add: c)
  qed
qed


text \<open>
  Every prompt gate whose load goes down in a round that leaves a prompt pending is empty when the
  loop ends, if it began below the number of rounds.
\<close>

lemma drain_prompts_empties:
  assumes "\<And>s g s' g'. cancel_live G (s, g) = (s', g') \<Longrightarrow> pg_pending G g' \<Longrightarrow> load (pg_sleep G g') < (load g :: nat)"
    and "load g < n"
  shows "\<not> pg_pending G (snd (drain_prompts G n (s, g)))"
  using assms(2)
proof (induction n arbitrary: s g)
  case (Suc n)
  obtain s' g' where c: "cancel_live G (s, g) = (s', g')" by fastforce
  show ?case
  proof (cases "pg_pending G g'")
    case True
    with assms(1) [OF c] Suc.prems have "load (pg_sleep G g') < n" by simp
    with Suc.IH True show ?thesis by (simp add: c)
  next
    case False
    then show ?thesis by (simp add: c)
  qed
qed simp

subsection \<open>Severing the edges\<close>

lemma svc_when_other [simp]:
  "(\<And>t. sv_connection (upd t) = sv_connection t) \<Longrightarrow> sv_connection (svc_when guard step upd s) = sv_connection s"
  "(\<And>t. sv_systemBus (upd t) = sv_systemBus t) \<Longrightarrow> sv_systemBus (svc_when guard step upd s) = sv_systemBus s"
  "(\<And>t. sv_event (upd t) = sv_event t) \<Longrightarrow> sv_event (svc_when guard step upd s) = sv_event s"
  "(\<And>t. sv_sigtermSource (upd t) = sv_sigtermSource t) \<Longrightarrow> sv_sigtermSource (svc_when guard step upd s) = sv_sigtermSource s"
  "(\<And>t. sv_sigintSource (upd t) = sv_sigintSource t) \<Longrightarrow> sv_sigintSource (svc_when guard step upd s) = sv_sigintSource s"
  "(\<And>t. sv_authorizer (upd t) = sv_authorizer t) \<Longrightarrow> sv_authorizer (svc_when guard step upd s) = sv_authorizer s"
  "(\<And>t. sv_prompter (upd t) = sv_prompter t) \<Longrightarrow> sv_prompter (svc_when guard step upd s) = sv_prompter s"
  "(\<And>t. sv_loopPoster (upd t) = sv_loopPoster t) \<Longrightarrow> sv_loopPoster (svc_when guard step upd s) = sv_loopPoster s"
  "(\<And>t. sv_exporter (upd t) = sv_exporter t) \<Longrightarrow> sv_exporter (svc_when guard step upd s) = sv_exporter s"
  "(\<And>t. sv_core (upd t) = sv_core t) \<Longrightarrow> sv_core (svc_when guard step upd s) = sv_core s"
  "(\<And>t. sv_frontend (upd t) = sv_frontend t) \<Longrightarrow> sv_frontend (svc_when guard step upd s) = sv_frontend s"
  "(\<And>t. sv_bridge (upd t) = sv_bridge t) \<Longrightarrow> sv_bridge (svc_when guard step upd s) = sv_bridge s"
  "(\<And>t. sv_lifecycle (upd t) = sv_lifecycle t) \<Longrightarrow> sv_lifecycle (svc_when guard step upd s) = sv_lifecycle s"
  "(\<And>t. sv_named (upd t) = sv_named t) \<Longrightarrow> sv_named (svc_when guard step upd s) = sv_named s"
  "(\<And>t. sv_attached (upd t) = sv_attached t) \<Longrightarrow> sv_attached (svc_when guard step upd s) = sv_attached s"
  "(\<And>t. sv_sysAttached (upd t) = sv_sysAttached t) \<Longrightarrow> sv_sysAttached (svc_when guard step upd s) = sv_sysAttached s"
  "(\<And>t. sv_posts (upd t) = sv_posts t) \<Longrightarrow> sv_posts (svc_when guard step upd s) = sv_posts s"
  "(\<And>t. sv_answersOnLoop (upd t) = sv_answersOnLoop t) \<Longrightarrow> sv_answersOnLoop (svc_when guard step upd s) = sv_answersOnLoop s"
  "(\<And>t. sv_observed (upd t) = sv_observed t) \<Longrightarrow> sv_observed (svc_when guard step upd s) = sv_observed s"
  "(\<And>t. sv_handlers (upd t) = sv_handlers t) \<Longrightarrow> sv_handlers (svc_when guard step upd s) = sv_handlers s"
  by (simp_all add: svc_when_def svc_log_def)

lemma svc_when_own [simp]:
  "sv_lifecycle (svc_when guard step (sv_lifecycle_update h) s) = (if guard s then h (sv_lifecycle s) else sv_lifecycle s)"
  "sv_handlers (svc_when guard step (sv_handlers_update hs) s) = (if guard s then hs (sv_handlers s) else sv_handlers s)"
  "sv_observed (svc_when guard step (sv_observed_update h) s) = (if guard s then h (sv_observed s) else sv_observed s)"
  "sv_event (svc_when guard step (sv_event_update h) s) = (if guard s then h (sv_event s) else sv_event s)"
  "sv_attached (svc_when guard step (sv_attached_update h) s) = (if guard s then h (sv_attached s) else sv_attached s)"
  "sv_sysAttached (svc_when guard step (sv_sysAttached_update h) s) = (if guard s then h (sv_sysAttached s) else sv_sysAttached s)"
  "sv_sigtermSource (svc_when guard step (sv_sigtermSource_update h) s) = (if guard s then h (sv_sigtermSource s) else sv_sigtermSource s)"
  "sv_sigintSource (svc_when guard step (sv_sigintSource_update h) s) = (if guard s then h (sv_sigintSource s) else sv_sigintSource s)"
  "sv_named (svc_when guard step (sv_named_update h) s) = (if guard s then h (sv_named s) else sv_named s)"
  by (simp_all add: svc_when_def svc_log_def)

definition same_layers :: "agent_service \<Rightarrow> agent_service \<Rightarrow> bool" where
  "same_layers s s' \<longleftrightarrow>
    sv_connection s' = sv_connection s \<and> sv_systemBus s' = sv_systemBus s \<and> sv_authorizer s' = sv_authorizer s \<and>
    sv_prompter s' = sv_prompter s \<and> sv_loopPoster s' = sv_loopPoster s \<and> sv_exporter s' = sv_exporter s \<and>
    sv_core s' = sv_core s \<and> sv_frontend s' = sv_frontend s \<and> sv_bridge s' = sv_bridge s \<and> sv_posts s' = sv_posts s"

definition severed :: "agent_service \<Rightarrow> bool" where
  "severed s \<longleftrightarrow> \<not> sv_lifecycle s \<and> sv_handlers s = [] \<and> \<not> sv_observed s \<and> \<not> sv_event s \<and> \<not> sv_attached s \<and> \<not> sv_sysAttached s \<and>
    \<not> sv_sigtermSource s \<and> \<not> sv_sigintSource s"

lemma severEdges_severs:
  assumes "borrows_ok s" "\<not> fails DetachSessionBus" "\<not> fails DetachSystemBus"
  shows "severed (severEdges fails s) \<and> same_layers s (severEdges fails s) \<and> sv_named (severEdges fails s) = sv_named s"
  using assms
  by (simp add: severEdges_def teardownEventLoop_def Let_def severed_def same_layers_def no_effect_def borrows_ok_def)
    blast

subsection \<open>The order of the teardown\<close>

fun teardown_rank :: "svc_step \<Rightarrow> nat" where
  "teardown_rank DropLifecycle = 0"
| "teardown_rank StopBridge = 1"
| "teardown_rank ClearDisconnectHandlers = 2"
| "teardown_rank ClearObservers = 3"
| "teardown_rank UnrefSigterm = 4"
| "teardown_rank UnrefSigint = 5"
| "teardown_rank DetachSessionBus = 6"
| "teardown_rank DetachSystemBus = 7"
| "teardown_rank UnrefEventLoop = 8"
| "teardown_rank RequestCryptoShutdown = 9"
| "teardown_rank (CancelPrompt i) = 10"
| "teardown_rank SleepBetweenRounds = 10"
| "teardown_rank ReleaseName = 11"
| "teardown_rank _ = 12"

definition ranked :: "agent_service \<Rightarrow> nat \<Rightarrow> agent_service \<Rightarrow> bool" where
  "ranked s0 n s \<longleftrightarrow>
    (\<exists>steps. sv_trace s = sv_trace s0 @ steps \<and> sorted (map teardown_rank steps) \<and> (\<forall>x \<in> set steps. teardown_rank x \<le> n) \<and>
       length (filter (\<lambda>step. step = SleepBetweenRounds) steps) \<le> kMaxDrainIterations)"

lemma ranked_refl: "ranked s n s"
  by (simp add: ranked_def)

lemma ranked_when:
  assumes "ranked s0 n s" "n \<le> teardown_rank step" "step \<noteq> SleepBetweenRounds" "\<And>t. sv_trace (upd t) = sv_trace t"
  shows "ranked s0 (teardown_rank step) (svc_when guard step upd s)"
proof -
  from assms(1) obtain steps where steps: "sv_trace s = sv_trace s0 @ steps" "sorted (map teardown_rank steps)"
    "\<forall>x \<in> set steps. teardown_rank x \<le> n"
    "length (filter (\<lambda>step. step = SleepBetweenRounds) steps) \<le> kMaxDrainIterations"
    unfolding ranked_def by blast
  have "sv_trace (svc_when guard step upd s) = sv_trace s0 @ (if guard s then steps @ [step] else steps)"
    by (simp add: svc_when_def svc_log_def assms(4) steps(1))
  moreover have "sorted (map teardown_rank (if guard s then steps @ [step] else steps))"
    using steps(2,3) assms(2) by (auto simp: sorted_append)
  moreover have "\<forall>x \<in> set (if guard s then steps @ [step] else steps). teardown_rank x \<le> teardown_rank step"
    using steps(3) assms(2) by (auto intro: order_trans)
  moreover have "length (filter (\<lambda>step. step = SleepBetweenRounds) (if guard s then steps @ [step] else steps)) \<le> kMaxDrainIterations"
    using steps(4) assms(3) by simp
  ultimately show ?thesis unfolding ranked_def by blast
qed

lemma severEdges_ranked: "ranked s 9 (severEdges fails s) \<and>
    SleepBetweenRounds \<notin> set (drop (length (sv_trace s)) (sv_trace (severEdges fails s)))"
proof -
  have "ranked s (teardown_rank RequestCryptoShutdown) (severEdges fails s)"
    unfolding severEdges_def teardownEventLoop_def Let_def
    by ((rule ranked_when)+, rule ranked_refl [of s 0]) (simp_all add: no_effect_def)
  then have "ranked s 9 (severEdges fails s)" by simp
  then obtain steps where "sv_trace (severEdges fails s) = sv_trace s @ steps" "\<forall>x \<in> set steps. teardown_rank x \<le> 9"
    unfolding ranked_def by blast
  with \<open>ranked s 9 (severEdges fails s)\<close> show ?thesis by auto
qed

lemma drained_rank: "drain_step x \<Longrightarrow> teardown_rank x = 10"
  by (cases x) (simp_all add: drain_step_def)

definition drained :: "(svc_step \<Rightarrow> bool) \<Rightarrow> 'g prompt_gate \<Rightarrow> agent_service \<times> 'g \<Rightarrow> agent_service \<times> 'g" where
  "drained fails G sg =
    (let s = severEdges fails (fst sg) in
     if sv_prompter s \<and> sv_core s then drain_prompts G kMaxDrainIterations (s, snd sg) else (s, snd sg))"

lemma quiesce_drained: "quiesce fails G sg = (releaseName fails (fst (drained fails G sg)), snd (drained fails G sg))"
  by (simp add: quiesce_def drained_def Let_def)

lemma drained_only: "only_drained (severEdges fails s) (fst (drained fails G (s, g))) kMaxDrainIterations"
  using drain_prompts_drains [of "(severEdges fails s, g)" G kMaxDrainIterations] only_drained_refl [of "severEdges fails s"]
  by (auto simp: drained_def Let_def only_drained_def)

lemma quiesce_ranked: "ranked s 11 (fst (quiesce fails G (s, g)))"
proof -
  let ?e = "severEdges fails s"
  define d where "d = fst (drained fails G (s, g))"
  from severEdges_ranked [of s fails] obtain steps where steps: "sv_trace ?e = sv_trace s @ steps" "sorted (map teardown_rank steps)"
    "\<forall>x \<in> set steps. teardown_rank x \<le> 9" "SleepBetweenRounds \<notin> set steps"
    by (auto simp: ranked_def)
  from drained_only [of fails s G g] obtain rounds where rounds: "sv_trace d = sv_trace ?e @ rounds" "list_all drain_step rounds"
    "length (filter (\<lambda>step. step = SleepBetweenRounds) rounds) \<le> kMaxDrainIterations"
    by (auto simp: only_drained_def d_def)
  have "map teardown_rank rounds = replicate (length rounds) 10"
    using rounds(2) by (induction rounds) (simp_all add: drained_rank)
  moreover have "filter (\<lambda>step. step = SleepBetweenRounds) steps = []"
    using steps(4) by (auto simp: filter_empty_conv)
  moreover have "\<forall>x \<in> set rounds. teardown_rank x \<le> 10" using rounds(2) by (simp add: list_all_iff drained_rank)
  ultimately have "ranked s 10 d"
    unfolding ranked_def using steps rounds
    by (intro exI [of _ "steps @ rounds"]) (fastforce simp: sorted_append)
  then have "ranked s (teardown_rank ReleaseName) (releaseName fails d)"
    unfolding releaseName_def by (rule ranked_when) simp_all
  then show ?thesis by (simp add: quiesce_drained d_def)
qed

lemma drained_same: "only_drained s s' n \<Longrightarrow> severed s' = severed s \<and> same_layers s s'"
  by (auto simp: only_drained_def severed_def same_layers_def)

lemma quiesce_severed:
  assumes "borrows_ok s" "\<not> fails DetachSessionBus" "\<not> fails DetachSystemBus"
  shows "severed (fst (quiesce fails G (s, g))) \<and> same_layers s (fst (quiesce fails G (s, g)))"
proof -
  let ?e = "severEdges fails s"
  define d where "d = fst (drained fails G (s, g))"
  have "severed d = severed ?e \<and> same_layers ?e d"
    unfolding d_def by (rule drained_same [OF drained_only])
  then have "severed d" "same_layers s d" using severEdges_severs [OF assms] by (simp_all add: same_layers_def)
  then have "severed (releaseName fails d)" "same_layers s (releaseName fails d)"
    by (simp_all add: releaseName_def severed_def same_layers_def)
  then show ?thesis by (simp add: quiesce_drained d_def)
qed

text \<open>Unwinding the members one by one never leaves a borrower behind.\<close>

definition nothing_left :: "agent_service \<Rightarrow> bool" where
  "nothing_left s \<longleftrightarrow> \<not> sv_connection s \<and> \<not> sv_systemBus s \<and> \<not> sv_event s \<and> sv_authorizer s = None \<and> \<not> sv_prompter s \<and>
    \<not> sv_loopPoster s \<and> \<not> sv_exporter s \<and> \<not> sv_core s \<and> \<not> sv_frontend s \<and> \<not> sv_bridge s \<and> \<not> sv_lifecycle s"

lemma severed_borrows:
  assumes "borrows_ok s" "severed s'" "same_layers s s'" "sv_named s' \<longrightarrow> sv_connection s'"
  shows "borrows_ok s'"
  using assms by (simp add: borrows_ok_def severed_def same_layers_def)

lemma unwinding_keeps_borrows:
  assumes "borrows_ok s" "severed s"
  shows "borrows_ok (fold destroy_member (take k destruction_order) s)" and "nothing_left (fold destroy_member destruction_order s)"
proof -
  have "k = 0 \<or> k = 1 \<or> k = 2 \<or> k = 3 \<or> k = 4 \<or> k = 5 \<or> k = 6 \<or> k = 7 \<or> k = 8 \<or> k = 9 \<or> k \<ge> 10" by arith
  then show "borrows_ok (fold destroy_member (take k destruction_order) s)"
    using assms
    by (elim disjE) (simp_all add: destruction_order_def borrows_ok_def severed_def)
  show "nothing_left (fold destroy_member destruction_order s)"
    using assms(2) by (simp add: destruction_order_def nothing_left_def severed_def)
qed

lemma quiesce_named: "borrows_ok s \<Longrightarrow> sv_named (fst (quiesce fails G (s, g))) \<Longrightarrow> sv_connection s"
proof -
  assume ok: "borrows_ok s" and named: "sv_named (fst (quiesce fails G (s, g)))"
  from drained_only [of fails s G g] have "sv_named (fst (drained fails G (s, g))) = sv_named (severEdges fails s)"
    by (auto simp: only_drained_def)
  also have "\<dots> = sv_named s"
    by (simp add: severEdges_def teardownEventLoop_def Let_def no_effect_def)
  finally show "sv_connection s"
    using ok named by (auto simp: quiesce_drained releaseName_def borrows_ok_def split: if_splits)
qed


text \<open>A gate in which every pause lets one blocked worker return.\<close>

definition slow_gate :: "nat prompt_gate" where
  "slow_gate = \<lparr>pg_liveIds = (\<lambda>n. replicate n ''prompt''), pg_cancel = (\<lambda>i n. n), pg_pending = (\<lambda>n. 0 < n), pg_sleep = (\<lambda>n. n - 1)\<rparr>"


text \<open>
  The prompts a shutdown finds are drained. When a round that dismisses every live prompt and
  still leaves one pending lets at least one blocked worker come back, and fewer workers are
  blocked than there are rounds, no prompt is pending after the quiesce, so every crypto worker can
  be joined.
\<close>

theorem shutdown_drains_prompts:
  assumes "\<And>s g s' g'. cancel_live G (s, g) = (s', g') \<Longrightarrow> pg_pending G g' \<Longrightarrow> load (pg_sleep G g') < (load g :: nat)"
    and "load g < kMaxDrainIterations" "sv_prompter s" "sv_core s"
  shows "\<not> pg_pending G (snd (quiesce fails G (s, g)))"
proof -
  have "sv_prompter (severEdges fails s)" "sv_core (severEdges fails s)"
    using assms(3,4) by (simp_all add: severEdges_def teardownEventLoop_def Let_def no_effect_def)
  then show ?thesis
    using drain_prompts_empties [of G load g kMaxDrainIterations "severEdges fails s", OF assms(1,2)]
    by (simp add: quiesce_def Let_def)
qed

theorem shutdown_drains_prompts_witness:
  "\<not> pg_pending slow_gate (snd (quiesce no_system_bus slow_gate (snd (registerOnBus no_system_bus True AgentService_ctor), 3)))"
proof -
  have "start_outcome no_system_bus True True (snd (registerOnBus no_system_bus True AgentService_ctor))"
    using register_outcome [OF prod.collapse [symmetric], of no_system_bus True] no_system_bus_clean
    unfolding start_outcome_def by blast
  then have up: "sv_prompter (snd (registerOnBus no_system_bus True AgentService_ctor))"
    "sv_core (snd (registerOnBus no_system_bus True AgentService_ctor))"
    by (simp_all add: start_outcome_def running_def layers_up_def)
  have same: "snd (fold (\<lambda>i (s, g). (svc_log (CancelPrompt i) s, pg_cancel slow_gate i g)) ids (s, n)) = n" for ids s n
    by (induction ids arbitrary: s) (simp_all add: slow_gate_def)
  have step: "id (pg_sleep slow_gate g') < id g" if "cancel_live slow_gate (s, g) = (s', g')" "pg_pending slow_gate g'" for s g s' g'
  proof -
    have "g' = g" using arg_cong [OF that(1), of snd] same by (simp add: cancel_live_def)
    with that(2) show ?thesis by (simp add: slow_gate_def)
  qed
  show ?thesis by (rule shutdown_drains_prompts [of slow_gate id 3, OF step _ up]) (simp_all add: kMaxDrainIterations_def)
qed

end
