(* ===== verification/Agent_Wiring.thy ===== *)
theory Agent_Wiring
  imports Agent_Shutdown Startup_Paths Event_Loop
begin

text \<open>
  What the host wires between the transport and the core: the reader-routing seams
  (\<^verbatim>\<open>agent/src/AgentCoreSeams.h\<close>), the callbacks of a removed card and of a changed setting, and the
  handlers of a vanished client (\<^verbatim>\<open>AgentService::registerOnBus\<close>). The core's own operations are
  recorded, in the order they are called.
\<close>

subsection \<open>The seams\<close>

record reader_card =
  rc_readerId :: u64
  rc_readerName :: string
  rc_cardKey :: string

definition makeResolveReaderCard :: "oid_lib \<Rightarrow> presence \<Rightarrow> string \<Rightarrow> reader_card option" where
  "makeResolveReaderCard L transport readerPath =
    (case resolveReaderCard transport readerPath of
       None \<Rightarrow> None
     | Some (readerName, cardKey) \<Rightarrow>
         Some \<lparr>rc_readerId = objectIdFromPath L readerPath, rc_readerName = readerName, rc_cardKey = cardKey\<rparr>)"

definition makeResolveCardKey :: "oid_lib \<Rightarrow> presence \<Rightarrow> string \<Rightarrow> u64 option" where
  "makeResolveCardKey L transport readerPath =
    (case resolveReaderCard transport readerPath of
       None \<Rightarrow> None
     | Some (readerName, cardKey) \<Rightarrow> Some (objectIdFromPath L cardKey))"

text \<open>The agent library inverts the roster; it is a parameter.\<close>

definition makeResolveReaderIdentity :: "(string list \<times> string list \<Rightarrow> string \<Rightarrow> 'i) \<Rightarrow> presence \<Rightarrow> string \<Rightarrow> 'i" where
  "makeResolveReaderIdentity identityForCardIn transport cardKey = identityForCardIn (presenceRoster transport) cardKey"

subsection \<open>The callbacks\<close>

datatype core_call =
    InvalidateCaches string
  | RevokeCardLeases u64
  | ReleaseReader u64
  | DispatchClientDisconnect string
  | ClientDisconnected string
  | EmitConfigChanged string

definition onKeyRemoved :: "agent_service \<Rightarrow> (string \<Rightarrow> u64) \<Rightarrow> u64 \<Rightarrow> string \<Rightarrow> core_call list" where
  "onKeyRemoved s readerIdFor cardKey readerName =
    (if \<not> sv_core s then []
     else
       let cardPath = agentObjectPath ''card'' cardKey in
       [InvalidateCaches cardPath] @ (if sv_frontend s then [RevokeCardLeases cardKey] else []) @
       [ReleaseReader (readerIdFor readerName)])"

definition onConfigChanged :: "agent_service \<Rightarrow> string \<Rightarrow> core_call list" where
  "onConfigChanged s key = (if sv_frontend s then [EmitConfigChanged key] else [])"

definition run_handler :: "agent_service \<Rightarrow> disconnect_handler \<Rightarrow> string \<Rightarrow> core_call list \<Rightarrow> core_call list" where
  "run_handler s h caller calls =
    (if \<not> sv_core s then calls
     else case h of
       CancelOperations \<Rightarrow> calls @ [DispatchClientDisconnect caller]
     | RevokeLeases \<Rightarrow> calls @ [ClientDisconnected caller])"

definition onClientVanished :: "agent_service \<Rightarrow> string \<Rightarrow> string \<Rightarrow> core_call list" where
  "onClientVanished s name newOwner = onNameOwnerChanged (map (run_handler s) (sv_handlers s)) name newOwner []"

subsection \<open>The card a reader holds\<close>

text \<open>
  C32: the transport and the core mean the same card. After the registry reports that a reader
  holds a card, the seams answer that reader's own id and that card's own id, and the key under
  which the core keeps what it learnt of the card is the path that a removal of that card scrubs,
  first of all. A report that no card is held, or the reader's withdrawal, makes the seams answer
  that there is none.
\<close>

theorem card_key_agrees:
  assumes "smap_ok (fst xf)" and "smap_find (fst xf) (agentObjectPath ''reader'' reader) = Some e"
    and "oid_valid L k" and "sv_core s"
  shows "let holding = fst (updateProperties L M reader \<lparr>dl_hasCard = True, dl_card = k\<rparr> xf);
      path = agentObjectPath ''reader'' reader in
    makeResolveReaderCard L holding path =
      Some \<lparr>rc_readerId = reader, rc_readerName = pe_name e, rc_cardKey = agentObjectPath ''card'' k\<rparr> \<and>
    makeResolveCardKey L holding path = Some k \<and>
    hd (onKeyRemoved s readerIdFor k readerName) =
      InvalidateCaches (rc_cardKey (the (makeResolveReaderCard L holding path))) \<and>
    (\<forall>card. makeResolveReaderCard L (fst (updateProperties L M reader \<lparr>dl_hasCard = False, dl_card = card\<rparr> xf)) path = None) \<and>
    makeResolveCardKey L (fst (withdraw M reader xf)) path = None"
  using assms update_then_resolve [OF assms(1,2), of L M] withdraw_then_resolve [of M reader xf]
  by (simp add: Let_def makeResolveReaderCard_def makeResolveCardKey_def objectIdFromPath_agentObjectPath onKeyRemoved_def)

definition one_reader :: "presence \<times> unit" where
  "one_reader = ([(agentObjectPath ''reader'' 4, \<lparr>pe_name = ''R'', pe_hasCard = False, pe_cardPath = ''/''\<rparr>)], ())"

definition nonzero_oids :: oid_lib where
  "nonzero_oids = \<lparr>oid_none = 0, oid_valid = (\<lambda>i. i \<noteq> 0)\<rparr>"

theorem card_key_agrees_witness:
  "makeResolveCardKey nonzero_oids
     (fst (updateProperties nonzero_oids clearMaterializer 4 \<lparr>dl_hasCard = True, dl_card = 9\<rparr> one_reader))
     (agentObjectPath ''reader'' 4) = Some 9 \<and>
   hd (onKeyRemoved (AgentService_ctor\<lparr>sv_core := True\<rparr>) (\<lambda>_. 4) 9 ''R'') = InvalidateCaches (agentObjectPath ''card'' 9)"
proof -
  have facts: "smap_ok (fst one_reader)"
    "smap_find (fst one_reader) (agentObjectPath ''reader'' 4) = Some \<lparr>pe_name = ''R'', pe_hasCard = False, pe_cardPath = ''/''\<rparr>"
    "oid_valid nonzero_oids 9" "sv_core (AgentService_ctor\<lparr>sv_core := True\<rparr>)"
    by (simp_all add: one_reader_def nonzero_oids_def smap_ok_def smap_keys_def smap_find_def)
  show ?thesis
    using card_key_agrees [OF facts, of clearMaterializer "\<lambda>_. 4" "''R''"] by (simp add: Let_def)
qed

subsection \<open>A client that vanished\<close>

text \<open>The session bus gives unique names a leading colon; a name with an owner has not vanished.\<close>

definition vanished :: "string \<Rightarrow> string \<Rightarrow> bool" where
  "vanished name newOwner \<longleftrightarrow> (\<exists>unique. name = CHR '':'' # unique) \<and> newOwner = []"

lemma vanished_iff: "vanished name newOwner \<longleftrightarrow> \<not> (name = [] \<or> hd name \<noteq> CHR '':'' \<or> newOwner \<noteq> [])"
  by (cases name) (auto simp: vanished_def)

lemma onClientVanished_calls:
  "onClientVanished s name newOwner =
    (if vanished name newOwner \<and> sv_core s
     then map (\<lambda>h. case h of CancelOperations \<Rightarrow> DispatchClientDisconnect name | RevokeLeases \<Rightarrow> ClientDisconnected name) (sv_handlers s)
     else [])"
proof -
  have "fold (\<lambda>h. h name) (map (run_handler s) hs) calls =
      (if sv_core s then calls @ map (\<lambda>h. case h of CancelOperations \<Rightarrow> DispatchClientDisconnect name
         | RevokeLeases \<Rightarrow> ClientDisconnected name) hs else calls)" for hs calls
    by (induction hs arbitrary: calls) (auto simp: run_handler_def split: disconnect_handler.splits)
  then show ?thesis by (simp add: onClientVanished_def onNameOwnerChanged_def vanished_iff)
qed

text \<open>
  C31: a client that drops off the bus takes its work and its logins with it. On an agent that came
  up, a unique name that lost its owner cancels the operations of that client and then revokes its
  card logins, in this order and each once; a well-known name, or a name that has an owner, does
  neither. Once the agent has quiesced, a late drop does nothing.
\<close>

theorem vanished_client_handled:
  assumes "registerOnBus fails p AgentService_ctor = (True, s)"
  shows "onClientVanished s name newOwner =
      (if vanished name newOwner then [DispatchClientDisconnect name, ClientDisconnected name] else []) \<and>
    (\<not> fails DetachSessionBus \<and> \<not> fails DetachSystemBus \<longrightarrow> onClientVanished (fst (quiesce fails G (s, g))) name newOwner = [])"
proof -
  from register_outcome [OF assms] have "layers_up s" "borrows_ok s" by (simp_all add: start_outcome_def running_def)
  then show ?thesis
    using quiesce_severed [of s fails G g] by (auto simp: onClientVanished_calls layers_up_def severed_def)
qed

theorem vanished_client_handled_witness:
  "onClientVanished (snd (registerOnBus no_system_bus True AgentService_ctor)) '':1.7'' [] =
     [DispatchClientDisconnect '':1.7'', ClientDisconnected '':1.7''] \<and>
   onClientVanished (snd (registerOnBus no_system_bus True AgentService_ctor)) ''org.example'' [] = []"
proof -
  have "registerOnBus no_system_bus True AgentService_ctor = (True, snd (registerOnBus no_system_bus True AgentService_ctor))"
    using register_outcome [OF prod.collapse [symmetric], of no_system_bus True] no_system_bus_clean
    unfolding start_outcome_def by (metis prod.collapse)
  note up = vanished_client_handled [OF this, THEN conjunct1]
  show ?thesis by (simp add: up vanished_def)
qed

subsection \<open>The process\<close>

text \<open>
  The agent's \<^verbatim>\<open>main\<close>: where the plugins are is decided and logged before anything else can go wrong,
  card verification anchors are optional, and the exit code tells whether the agent came up. The
  plugin registry, which counts what it loaded from a directory, and the trust service, whose
  failure has a message, are parameters; a path that cannot be resolved ends the process (\<^const>\<open>None\<close>).
\<close>

definition agent_main ::
  "start_env \<Rightarrow> (string \<Rightarrow> bool \<times> fs_error option) \<Rightarrow> string \<Rightarrow> string option \<Rightarrow> (string \<Rightarrow> nat \<times> load_outcome list) \<Rightarrow>
     (svc_step \<Rightarrow> bool) \<Rightarrow> nat option \<times> (log_level \<times> string) list" where
  "agent_main E is_directory compiledDefault trustError load fails =
    (let envDir = (case env_nonempty E ''LIBRESCRS_PLUGIN_DIR'' of None \<Rightarrow> [] | Some d \<Rightarrow> d);
         pluginDirs = resolvePluginDir is_directory \<lparr>pi_environment = envDir, pi_compiledDefault = compiledDefault\<rparr>;
         trustLines = (case trustError of None \<Rightarrow> [] | Some e \<Rightarrow> [(Warn, ''card verification anchors unavailable: '' @ e)]);
         (loaded, report) = load (pr_dir pluginDirs);
         lines = trustLines @ reportPluginLoad pluginDirs loaded report in
     (case (resolveConfigFile E, resolveCacheRoot E) of
        (Some configFile, Some cacheRoot) \<Rightarrow>
          (Some (if fst (registerOnBus fails True AgentService_ctor) then 0 else 1), lines)
      | _ \<Rightarrow> (None, lines)))"

lemma main_exit_code:
  assumes "absolute_env E [''CONFIGURATION_DIRECTORY'', ''CACHE_DIRECTORY'']"
  shows "fst (agent_main E is_directory compiledDefault trustError load fails) =
    Some (if \<exists>step \<in> set (mandatory True). fails step then 1 else 0)"
proof -
  from assms obtain t where "env_temp E = Some t" by (auto simp: absolute_env_def split: option.splits)
  then have "resolveConfigFile E \<noteq> None" "resolveCacheRoot E \<noteq> None"
    by (simp_all add: resolveConfigFile_def resolveCacheRoot_def split: option.splits)
  then obtain c r where "resolveConfigFile E = Some c" "resolveCacheRoot E = Some r" by blast
  moreover have "fst (registerOnBus fails True AgentService_ctor) \<longleftrightarrow> \<not> (\<exists>step \<in> set (mandatory True). fails step)"
    using register_outcome [OF prod.collapse [symmetric], of fails True] unfolding start_outcome_def by blast
  ultimately show ?thesis by (simp add: agent_main_def Let_def split: prod.splits)
qed

subsection \<open>Onto the loop\<close>

text \<open>
  How work reaches the loop thread: through the transport, which has a poster once one is attached,
  and from polkit's own thread, whose answers are posted once the host has said so.
\<close>

definition BusExporter_post :: "agent_service \<Rightarrow> bool \<Rightarrow> 'w \<Rightarrow> 'w poster \<Rightarrow> 'w poster" where
  "BusExporter_post s alloc_ok w p = (if sv_posts s then snd (post alloc_ok (Some (Call w)) p) else p)"

definition BusExporter_postAfter :: "agent_service \<Rightarrow> bool \<Rightarrow> int \<Rightarrow> 'w \<Rightarrow> 'w poster \<Rightarrow> 'w poster" where
  "BusExporter_postAfter s alloc_ok delay w p = (if sv_posts s then snd (postAfter alloc_ok delay (Some w) p) else p)"

text \<open>A sink value-captures the poster it was handed out with, so it posts whatever became of the transport.\<close>

definition loopPostSink :: "agent_service \<Rightarrow> bool \<Rightarrow> int \<Rightarrow> 'w \<Rightarrow> 'w poster \<Rightarrow> 'w poster" where
  "loopPostSink s = (let captured = sv_posts s in
     (\<lambda>alloc_ok delay w p. if captured then snd (postAfter alloc_ok delay (Some w) p) else p))"

definition polkit_deliver :: "agent_service \<Rightarrow> bool \<Rightarrow> 'w \<Rightarrow> 'w poster \<Rightarrow> 'w poster" where
  "polkit_deliver s alloc_ok answer p =
    (if sv_answersOnLoop s then snd (post alloc_ok (Some (Call answer)) p) else call_fn answer p)"

text \<open>
  On an agent that came up with polkit, an answer of polkit never runs on polkit's thread: it is
  queued last, with the loop woken, and what has run is unchanged. Work the transport is handed,
  at once or through a sink taken before the shutdown, is queued the same way.
\<close>

theorem answers_run_on_loop:
  assumes "registerOnBus fails p AgentService_ctor = (True, s)" "\<not> fails MakePolkitAuthorizer"
  shows "polkit_deliver s True w q = post_wake (q\<lparr>ep_pending := ep_pending q @ [Some (Call w)]\<rparr>) \<and>
    BusExporter_post s True w q = polkit_deliver s True w q \<and>
    loopPostSink s True 0 w q = BusExporter_post s True w q \<and>
    ep_ran (polkit_deliver s True w q) = ep_ran q"
proof -
  from register_outcome [OF assms(1)] have "sv_posts s" "sv_answersOnLoop s"
    using assms(2) by (simp_all add: start_outcome_def running_def)
  then show ?thesis
    by (simp add: polkit_deliver_def BusExporter_post_def loopPostSink_def postAfter_def postAfter_closure_def post_def
        post_push_def post_wake_def)
qed

end
