(* ===== verification/Tree_Signals.thy ===== *)
theory Tree_Signals
  imports Agent_Frontend Pkcs11_Client
begin

text \<open>
  The live tree as its clients see it: the constructors and destructors of the exported objects
  (\<^verbatim>\<open>dbus/ReaderObject.h\<close>, \<^verbatim>\<open>dbus/CardObject.cpp\<close>), the announcements they make
  (\<^verbatim>\<open>dbus/ObjectManagerSignals.h\<close>), and the PKCS#11 module that follows them. An announcement whose
  emission fails is swallowed; \<open>ok\<close> says whether it went out. The bus keeps signals in order. A step of
  the frontend constructs and destroys in one piece: a card whose type update still holds a share of
  it is destroyed when that update ends, which counts as the moment of its withdrawal here.
\<close>

subsection \<open>Objects on the bus\<close>

datatype announcement = InterfacesAdded string | InterfacesRemoved string

datatype bus_act = RegisterAdaptor string | Announce announcement | CloseGate string | UnregisterAdaptor string

definition emitObjectManagerAdded :: "bool \<Rightarrow> string \<Rightarrow> bus_act list" where
  "emitObjectManagerAdded ok path = (if ok then [Announce (InterfacesAdded path)] else [])"

definition emitObjectManagerRemoved :: "bool \<Rightarrow> string \<Rightarrow> bus_act list" where
  "emitObjectManagerRemoved ok path = (if ok then [Announce (InterfacesRemoved path)] else [])"

definition ReaderObject_ctor :: "bool \<Rightarrow> string \<Rightarrow> bus_act list" where
  "ReaderObject_ctor ok path = [RegisterAdaptor path] @ emitObjectManagerAdded ok path"

definition ReaderObject_dtor :: "bool \<Rightarrow> string \<Rightarrow> bus_act list" where
  "ReaderObject_dtor ok path = emitObjectManagerRemoved ok path @ [UnregisterAdaptor path]"

definition CardObject_ctor :: "bool \<Rightarrow> string \<Rightarrow> bus_act list" where
  "CardObject_ctor ok path = [RegisterAdaptor path] @ emitObjectManagerAdded ok path"

definition CardObject_dtor :: "bool \<Rightarrow> string \<Rightarrow> bus_act list" where
  "CardObject_dtor ok path = [CloseGate path] @ emitObjectManagerRemoved ok path @ [UnregisterAdaptor path]"

text \<open>
  What each operation of the frontend constructs and destroys. \<^verbatim>\<open>emplace\<close> on a taken path drops the
  object it was given; \<^verbatim>\<open>insert_or_assign\<close> drops the object it replaces.
\<close>

definition materializeReader_acts :: "bool \<Rightarrow> reader_st \<Rightarrow> 'at frontend \<Rightarrow> bus_act list" where
  "materializeReader_acts ok reader f =
    (let path = agentObjectPath ''reader'' (rst_id reader) in
     ReaderObject_ctor ok path @ (if smap_find (fe_readers f) path = None then [] else ReaderObject_dtor ok path))"

definition replaced_acts :: "bool \<Rightarrow> string \<Rightarrow> 'at frontend \<Rightarrow> bus_act list" where
  "replaced_acts ok path f = (if smap_find (fe_cards f) path = None then [] else CardObject_dtor ok path)"

definition materializeCard_acts :: "bool \<Rightarrow> card_st \<Rightarrow> 'at frontend \<Rightarrow> bus_act list" where
  "materializeCard_acts ok c f =
    (let path = agentObjectPath ''card'' (cst_id c) in
     if fe_poster f then [] else CardObject_ctor ok path @ replaced_acts ok path f)"

definition applyCardResolution_acts :: "'at frontend_lib \<Rightarrow> bool \<Rightarrow> job \<Rightarrow> card_probe \<Rightarrow> 'at frontend \<Rightarrow> bus_act list" where
  "applyCardResolution_acts L ok j probe f =
    (case smap_find (fe_pending f) (fst j) of
       None \<Rightarrow> []
     | Some pc \<Rightarrow> if fst (retryAfter L probe (pc_attempts pc)) = None then CardObject_ctor ok (fst j) else [])"

definition finishBuild_acts :: "bool \<Rightarrow> 'at frontend \<Rightarrow> bus_act list" where
  "finishBuild_acts ok f =
    (case fe_building f of
       None \<Rightarrow> []
     | Some (j, probe, obj) \<Rightarrow>
         if smap_find (fe_pending f) (fst j) = None then CardObject_dtor ok (fst j) else replaced_acts ok (fst j) f)"

definition run_task_acts :: "'at frontend_lib \<Rightarrow> bool \<Rightarrow> loop_task \<Rightarrow> 'at frontend \<Rightarrow> bus_act list" where
  "run_task_acts L ok t f =
    (case t of Apply j probe \<Rightarrow> applyCardResolution_acts L ok j probe f | CardTypeUpdate p ct \<Rightarrow> [])"

definition withdrawObject_acts :: "bool \<Rightarrow> u64 \<Rightarrow> 'at frontend \<Rightarrow> bus_act list" where
  "withdrawObject_acts ok i f =
    (let readerPath = agentObjectPath ''reader'' i; cardPath = agentObjectPath ''card'' i in
     if smap_find (fe_readers f) readerPath \<noteq> None then ReaderObject_dtor ok readerPath
     else if smap_find (fe_cards f) cardPath \<noteq> None then CardObject_dtor ok cardPath else [])"

text \<open>The steps of exporter and frontend, with what they do on the bus.\<close>

inductive bus_step :: "'at frontend_lib \<Rightarrow> bool \<Rightarrow> 'at system \<Rightarrow> bus_act list \<Rightarrow> 'at system \<Rightarrow> bool" for L ok where
  bus_publish_reader:
    "rst_id r \<notin> sy_issued s \<Longrightarrow>
       bus_step L ok s (materializeReader_acts ok r (sy_frontend s))
         ((deliver_delta (publishReader (fl_oids L) (frontend_materializer L q) r) s)
            \<lparr>sy_issued := insert (rst_id r) (sy_issued s), sy_readers := insert (rst_id r) (sy_readers s)\<rparr>)"
| bus_publish_card:
    "cst_id c \<notin> sy_issued s \<Longrightarrow> cst_reader c \<in> sy_readers s \<Longrightarrow>
       bus_step L ok s (materializeCard_acts ok c (sy_frontend s))
         ((deliver_delta (publishCard (frontend_materializer L q) c) s)
            \<lparr>sy_issued := insert (cst_id c) (sy_issued s), sy_cards := insert (cst_id c) (sy_cards s)\<rparr>)"
| bus_update:
    "bus_step L ok s [] (deliver_delta (updateProperties (fl_oids L) (frontend_materializer L q) i d) s)"
| bus_relabelled:
    "bus_step L ok s [] (deliver_delta (relabel (frontend_materializer L q) r) s)"
| bus_withdrawn:
    "bus_step L ok s (withdrawObject_acts ok i (sy_frontend s))
       ((deliver_delta (withdraw (frontend_materializer L q) i) s)
          \<lparr>sy_readers := sy_readers s - {i}, sy_cards := sy_cards s - {i}\<rparr>)"
| bus_probed:
    "i < length (fe_worker (sy_frontend s)) \<Longrightarrow> bus_step L ok s [] (on_frontend (worker_done i probe) s)"
| bus_probe_lost:
    "i < length (fe_worker (sy_frontend s)) \<Longrightarrow>
       smap_find (fe_readers (sy_frontend s)) (fst (snd (fe_worker (sy_frontend s) ! i))) = None \<Longrightarrow>
       bus_step L ok s [] (on_frontend (\<lambda>f. f\<lparr>fe_worker := erase_at i (fe_worker f)\<rparr>) s)"
| bus_type_learned:
    "bus_step L ok s [] (on_frontend (makeCardTypeResolvedCallback p ct) s)"
| bus_timer:
    "i < length (fe_timers (sy_frontend s)) \<Longrightarrow> fe_building (sy_frontend s) = None \<Longrightarrow>
       bus_step L ok s [] (on_frontend (timer_fires i q) s)"
| bus_loop:
    "i < length (fe_loop (sy_frontend s)) \<Longrightarrow> fe_building (sy_frontend s) = None \<Longrightarrow>
       bus_step L ok s (run_task_acts L ok (fe_loop (sy_frontend s) ! i) (sy_frontend s))
         (on_frontend (\<lambda>f. run_task L (fe_loop f ! i) (f\<lparr>fe_loop := erase_at i (fe_loop f)\<rparr>)) s)"
| bus_built:
    "bus_step L ok s (finishBuild_acts ok (sy_frontend s)) (on_frontend (finishBuild L (sy_presence s)) s)"

lemma bus_step_sys: "bus_step L ok s acts s' \<Longrightarrow> sys_step L s s'"
  by (induction rule: bus_step.induct) (auto intro: sys_step.intros)

text \<open>Every step of the tree is such a step, so nothing of its behaviour is left out.\<close>

lemma sys_step_bus: "sys_step L s s' \<Longrightarrow> \<exists>acts. bus_step L ok s acts s'"
  by (induction rule: sys_step.induct) (blast intro: bus_step.intros)+

subsection \<open>What a client that replays the announcements knows\<close>

definition building_path :: "'at frontend \<Rightarrow> string set" where
  "building_path f = (case fe_building f of None \<Rightarrow> {} | Some b \<Rightarrow> {fst (fst b)})"

text \<open>The objects that exist: readers, exported cards, and the card under construction.\<close>

definition objects :: "'at frontend \<Rightarrow> string set" where
  "objects f = reader_paths f \<union> exported_paths f \<union> building_path f"

fun registered :: "bus_act list \<Rightarrow> string set \<Rightarrow> string set" where
  "registered [] R = R"
| "registered (RegisterAdaptor p # acts) R = registered acts (insert p R)"
| "registered (UnregisterAdaptor p # acts) R = registered acts (R - {p})"
| "registered (_ # acts) R = registered acts R"

fun announced :: "bus_act list \<Rightarrow> announcement list" where
  "announced [] = []"
| "announced (Announce a # acts) = a # announced acts"
| "announced (_ # acts) = announced acts"

fun mirror :: "announcement list \<Rightarrow> string set \<Rightarrow> string set" where
  "mirror [] R = R"
| "mirror (InterfacesAdded p # as) R = mirror as (insert p R)"
| "mirror (InterfacesRemoved p # as) R = mirror as (R - {p})"

text \<open>An object is announced and withdrawn while it is registered: only then can its interfaces be listed.\<close>

fun announced_path :: "announcement \<Rightarrow> string" where
  "announced_path (InterfacesAdded p) = p"
| "announced_path (InterfacesRemoved p) = p"

fun orderly :: "bus_act list \<Rightarrow> string set \<Rightarrow> bool" where
  "orderly [] R = True"
| "orderly (RegisterAdaptor p # acts) R = (p \<notin> R \<and> orderly acts (insert p R))"
| "orderly (Announce a # acts) R = (announced_path a \<in> R \<and> orderly acts R)"
| "orderly (CloseGate p # acts) R = (p \<in> R \<and> orderly acts R)"
| "orderly (UnregisterAdaptor p # acts) R = (p \<in> R \<and> orderly acts (R - {p}))"

definition acts_ok :: "bool \<Rightarrow> bus_act list \<Rightarrow> string set \<Rightarrow> string set \<Rightarrow> bool" where
  "acts_ok ok acts R R' \<longleftrightarrow> registered acts R = R' \<and> orderly acts R \<and> (ok \<longrightarrow> mirror (announced acts) R = R')"

lemmas ctor_dtor_defs = ReaderObject_ctor_def ReaderObject_dtor_def CardObject_ctor_def CardObject_dtor_def
  emitObjectManagerAdded_def emitObjectManagerRemoved_def

lemma ctor_acts:
  "p \<notin> R \<Longrightarrow> acts_ok ok (ReaderObject_ctor ok p) R (insert p R)" "p \<notin> R \<Longrightarrow> acts_ok ok (CardObject_ctor ok p) R (insert p R)"
  by (simp_all add: acts_ok_def ctor_dtor_defs)

lemma dtor_acts:
  "p \<in> R \<Longrightarrow> acts_ok ok (ReaderObject_dtor ok p) R (R - {p})" "p \<in> R \<Longrightarrow> acts_ok ok (CardObject_dtor ok p) R (R - {p})"
  by (simp_all add: acts_ok_def ctor_dtor_defs)

lemma no_acts: "acts_ok ok [] R R"
  by (simp add: acts_ok_def)

lemma reader_not_card [simp]: "agentObjectPath ''reader'' i \<noteq> agentObjectPath ''card'' k" "agentObjectPath ''card'' k \<noteq> agentObjectPath ''reader'' i"
  by (simp_all add: agentObjectPath_def)

text \<open>The card under construction was issued, and is not exported a second time.\<close>

definition build_ok :: "'at system \<Rightarrow> bool" where
  "build_ok s \<longleftrightarrow>
    building_path (sy_frontend s) \<subseteq> agentObjectPath ''card'' ` sy_issued s \<and> building_path (sy_frontend s) \<inter> exported_paths (sy_frontend s) = {}"

lemma exported_issued:
  assumes "tree_inv poster s"
  shows "exported_paths (sy_frontend s) \<subseteq> agentObjectPath ''card'' ` sy_issued s"
proof -
  have "exported_paths (sy_frontend s) \<subseteq> agentObjectPath ''card'' ` sy_cards s" "sy_cards s \<subseteq> sy_issued s"
    using assms unfolding tree_inv_def by blast+
  then show ?thesis by blast
qed

lemma objects_kinds:
  assumes "tree_inv poster s" "build_ok s"
  shows "agentObjectPath ''reader'' i \<in> objects (sy_frontend s) \<longleftrightarrow> i \<in> sy_readers s"
    and "agentObjectPath ''card'' i \<in> objects (sy_frontend s) \<Longrightarrow> i \<in> sy_issued s"
proof -
  have cards: "exported_paths (sy_frontend s) \<union> building_path (sy_frontend s) \<subseteq> agentObjectPath ''card'' ` sy_issued s"
    using exported_issued [OF assms(1)] assms(2) by (simp add: build_ok_def)
  have readers: "reader_paths (sy_frontend s) = agentObjectPath ''reader'' ` sy_readers s"
    using assms(1) by (simp add: tree_inv_def)
  from cards readers show "agentObjectPath ''reader'' i \<in> objects (sy_frontend s) \<longleftrightarrow> i \<in> sy_readers s"
    unfolding objects_def by (auto dest: subsetD)
  assume "agentObjectPath ''card'' i \<in> objects (sy_frontend s)"
  with readers have "agentObjectPath ''card'' i \<in> exported_paths (sy_frontend s) \<union> building_path (sy_frontend s)"
    unfolding objects_def by auto
  with cards have "agentObjectPath ''card'' i \<in> agentObjectPath ''card'' ` sy_issued s" by blast
  then show "i \<in> sy_issued s" by simp
qed

lemma pending_issued:
  assumes "tree_inv poster s" "p \<in> pending_paths (sy_frontend s)"
  shows "p \<in> agentObjectPath ''card'' ` sy_issued s" "p \<notin> exported_paths (sy_frontend s)" "p \<notin> reader_paths (sy_frontend s)"
proof -
  have "p \<in> agentObjectPath ''card'' ` sy_cards s" "sy_cards s \<subseteq> sy_issued s"
    using assms unfolding tree_inv_def by blast+
  then show "p \<in> agentObjectPath ''card'' ` sy_issued s" by blast
  then show "p \<notin> reader_paths (sy_frontend s)" using assms(1) by (auto simp: tree_inv_def)
  show "p \<notin> exported_paths (sy_frontend s)" using assms unfolding tree_inv_def by blast
qed

lemma deliver_delta_issued [simp]: "sy_issued (deliver_delta op s) = sy_issued s"
  by (simp add: deliver_delta_def Let_def)

lemma same_building:
  "fe_building (scheduleCardResolve q j f) = fe_building f" "fe_building (rescheduleCardResolve j f) = fe_building f"
  "fe_building (timer_fires i q f) = fe_building f" "fe_building (worker_done i probe f) = fe_building f"
  "fe_building (makeCardTypeResolvedCallback p ct f) = fe_building f" "fe_building (applyCardTypeUpdate p ct f) = fe_building f"
  "fe_building (materializeCard L q c f) = fe_building f" "fe_building (materializeReader L r f) = fe_building f"
  "fe_building (updateReaderProperties L u d f) = fe_building f" "fe_building (relabelReader r f) = fe_building f"
  "fe_building (withdrawObject u f) = fe_building f"
  by (simp_all add: scheduleCardResolve_def rescheduleCardResolve_def timer_fires_def worker_done_def Let_def
      makeCardTypeResolvedCallback_def applyCardTypeUpdate_def materializeCard_def materializeReader_def
      updateReaderProperties_def relabelReader_def withdrawObject_def split: option.splits)

subsection \<open>One step of the tree\<close>

definition step_ok :: "bool \<Rightarrow> 'at system \<Rightarrow> bus_act list \<Rightarrow> 'at system \<Rightarrow> bool" where
  "step_ok ok s acts s' \<longleftrightarrow> acts_ok ok acts (objects (sy_frontend s)) (objects (sy_frontend s')) \<and> build_ok s'"

text \<open>A step that changes neither the tree nor what is under construction.\<close>

lemma quiet_step:
  assumes "build_ok s" "reader_paths (sy_frontend s') = reader_paths (sy_frontend s)"
    "exported_paths (sy_frontend s') = exported_paths (sy_frontend s)"
    "fe_building (sy_frontend s') = fe_building (sy_frontend s)" "sy_issued s' = sy_issued s"
  shows "step_ok ok s [] s'"
  using assms by (simp add: step_ok_def no_acts build_ok_def building_path_def objects_def)

lemma still_step:
  assumes "build_ok s" "same_tree (sy_frontend s) (sy_frontend s')" "fe_building (sy_frontend s') = fe_building (sy_frontend s)"
    "sy_issued s' = sy_issued s"
  shows "step_ok ok s [] s'"
  using assms by (intro quiet_step) (simp_all add: same_tree_def reader_paths_def)

lemma properties_paths:
  assumes "maps_ok f"
  shows "reader_paths (updateReaderProperties L i d f) = reader_paths f" "reader_paths (relabelReader r f) = reader_paths f"
    "exported_paths (updateReaderProperties L i d f) = exported_paths f" "exported_paths (relabelReader r f) = exported_paths f"
  using assms
  by (auto simp: updateReaderProperties_def relabelReader_def Let_def reader_paths_def exported_paths_def maps_ok_def
      smap.dom_assign insert_absorb domIff split: option.splits)

lemma publish_reader_frontend:
  "sy_frontend (deliver_delta (publishReader ids (frontend_materializer L q) r) s) = materializeReader L r (sy_frontend s)"
  "sy_frontend (deliver_delta (publishCard (frontend_materializer L q) c) s) = materializeCard L q c (sy_frontend s)"
  "sy_frontend (deliver_delta (updateProperties ids (frontend_materializer L q) i d) s) = updateReaderProperties L i d (sy_frontend s)"
  "sy_frontend (deliver_delta (relabel (frontend_materializer L q) r) s) = relabelReader r (sy_frontend s)"
  "sy_frontend (deliver_delta (withdraw (frontend_materializer L q) i) s) = withdrawObject i (sy_frontend s)"
  by (simp_all add: deliver_delta_def publishReader_def publishCard_def updateProperties_def relabel_def withdraw_def
      frontend_materializer_def fire_def Let_def)

lemma step_publish_reader:
  assumes "tree_inv poster s" "build_ok s" "rst_id r \<notin> sy_issued s"
  shows "step_ok ok s (materializeReader_acts ok r (sy_frontend s))
    ((deliver_delta (publishReader ids (frontend_materializer L q) r) s)
       \<lparr>sy_issued := insert (rst_id r) (sy_issued s), sy_readers := insert (rst_id r) (sy_readers s)\<rparr>)"
proof -
  let ?f = "sy_frontend s" and ?p = "agentObjectPath ''reader'' (rst_id r)"
  have "rst_id r \<notin> sy_readers s" using assms by (auto simp: tree_inv_def)
  with assms(1,2) have new: "smap_find (fe_readers ?f) ?p = None" "?p \<notin> objects ?f"
    using reader_found objects_kinds(1) by blast+
  have ok: "smap_ok (fe_readers ?f)" using assms(1) by (simp add: tree_defs)
  have "objects (materializeReader L r ?f) = insert ?p (objects ?f)"
    using new ok
    by (auto simp: objects_def reader_paths_def exported_paths_def building_path_def materializeReader_def
        smap.lookup_emplace split: if_splits)
  moreover have "build_ok (s\<lparr>sy_frontend := materializeReader L r ?f, sy_issued := insert (rst_id r) (sy_issued s)\<rparr>)"
    using assms(2) by (auto simp: build_ok_def building_path_def exported_paths_def materializeReader_def)
  ultimately show ?thesis
    using ctor_acts(1) [OF new(2), of ok] new(1)
    by (simp add: step_ok_def publish_reader_frontend materializeReader_acts_def Let_def build_ok_def)
qed

lemma step_publish_card:
  assumes "tree_inv poster s" "build_ok s" "cst_id c \<notin> sy_issued s"
  shows "step_ok ok s (materializeCard_acts ok c (sy_frontend s))
    ((deliver_delta (publishCard (frontend_materializer L q) c) s)
       \<lparr>sy_issued := insert (cst_id c) (sy_issued s), sy_cards := insert (cst_id c) (sy_cards s)\<rparr>)"
proof -
  let ?f = "sy_frontend s" and ?p = "agentObjectPath ''card'' (cst_id c)"
  let ?g = "materializeCard L q c ?f"
  have new: "?p \<notin> objects ?f" using objects_kinds(2) [OF assms(1,2)] assms(3) by blast
  have ok: "smap_ok (fe_cards ?f)" using assms(1) by (simp add: tree_defs)
  have tree: "reader_paths ?g = reader_paths ?f" "building_path ?g = building_path ?f"
    "exported_paths ?g = (if fe_poster ?f then exported_paths ?f else insert ?p (exported_paths ?f))"
    using ok by (auto simp: materializeCard_def Let_def reader_paths_def building_path_def exported_paths_def
        scheduleCardResolve_def rescheduleCardResolve_def smap.dom_assign)
  then have "objects ?g = (if fe_poster ?f then objects ?f else insert ?p (objects ?f))" by (auto simp: objects_def)
  moreover have "build_ok (s\<lparr>sy_frontend := ?g, sy_issued := insert (cst_id c) (sy_issued s)\<rparr>)"
    using assms(2) new tree by (auto simp: build_ok_def objects_def)
  moreover have "smap_find (fe_cards ?f) ?p = None" using new by (auto simp: objects_def exported_paths_def)
  ultimately show ?thesis
    using ctor_acts(2) [OF new, of ok] no_acts [of ok]
    by (simp add: step_ok_def publish_reader_frontend materializeCard_acts_def replaced_acts_def Let_def build_ok_def)
qed

lemma step_withdrawn:
  assumes "tree_inv poster s" "build_ok s"
  shows "step_ok ok s (withdrawObject_acts ok i (sy_frontend s))
    ((deliver_delta (withdraw (frontend_materializer L q) i) s)\<lparr>sy_readers := sy_readers s - {i}, sy_cards := sy_cards s - {i}\<rparr>)"
proof -
  let ?f = "sy_frontend s" and ?p = "agentObjectPath ''reader'' i" and ?c = "agentObjectPath ''card'' i"
  let ?g = "withdrawObject i ?f"
  have ok: "smap_ok (fe_readers ?f)" "smap_ok (fe_cards ?f)" using assms(1) by (simp_all add: tree_defs)
  have other: "?p \<notin> exported_paths ?f \<union> building_path ?f" "?c \<notin> reader_paths ?f"
    using assms by (auto simp: tree_inv_def build_ok_def)
  show ?thesis
  proof (cases "smap_find (fe_readers ?f) ?p")
    case (Some x)
    then have "?p \<in> objects ?f" "objects ?g = objects ?f - {?p}" "exported_paths ?g = exported_paths ?f" "building_path ?g = building_path ?f"
      using ok other by (auto simp: objects_def withdrawObject_def Let_def reader_paths_def exported_paths_def building_path_def
          smap.dom_erase)
    then show ?thesis using Some dtor_acts(1) [of ?p "objects ?f" ok] assms(2)
      by (simp add: step_ok_def publish_reader_frontend withdrawObject_acts_def Let_def build_ok_def)
  next
    case None
    then have g: "reader_paths ?g = reader_paths ?f" "exported_paths ?g = exported_paths ?f - {?c}" "building_path ?g = building_path ?f"
      using ok by (auto simp: withdrawObject_def Let_def reader_paths_def exported_paths_def building_path_def smap.dom_erase)
    then have "objects ?g = (if smap_find (fe_cards ?f) ?c = None then objects ?f else objects ?f - {?c})"
      using other assms(2) by (auto simp: objects_def exported_paths_def build_ok_def)
    moreover have "?c \<in> objects ?f" if "smap_find (fe_cards ?f) ?c \<noteq> None"
      using that by (auto simp: objects_def exported_paths_def)
    ultimately show ?thesis using None g dtor_acts(2) [of ?c "objects ?f" ok] no_acts [of ok] assms(2)
      by (auto simp: step_ok_def publish_reader_frontend withdrawObject_acts_def Let_def build_ok_def)
  qed
qed

lemma step_built:
  assumes "tree_inv poster s" "build_ok s"
  shows "step_ok ok s (finishBuild_acts ok (sy_frontend s)) (on_frontend (finishBuild L x) s)"
proof (cases "fe_building (sy_frontend s)")
  case None
  then have "finishBuild L x (sy_frontend s) = sy_frontend s" by (simp add: finishBuild_def)
  with None assms(2) show ?thesis by (simp add: step_ok_def on_frontend_def finishBuild_acts_def no_acts)
next
  case (Some b)
  let ?f = "sy_frontend s" and ?g = "finishBuild L x (sy_frontend s)"
  obtain j probe obj where b: "b = (j, probe, obj)" by (cases b)
  have ok: "smap_ok (fe_cards ?f)" using assms(1) by (simp add: tree_defs)
  have fresh: "fst j \<notin> exported_paths ?f" "fst j \<in> objects ?f" "smap_find (fe_cards ?f) (fst j) = None"
    using assms(2) Some b by (auto simp: build_ok_def building_path_def objects_def exported_paths_def)
  have "fst j \<in> agentObjectPath ''card'' ` sy_issued s"
    using assms(2) Some b by (simp add: build_ok_def building_path_def)
  then have reader: "fst j \<notin> reader_paths ?f" using assms(1) by (auto simp: tree_inv_def)
  have g: "reader_paths ?g = reader_paths ?f" "building_path ?g = {}"
    "exported_paths ?g = (if smap_find (fe_pending ?f) (fst j) = None then exported_paths ?f else insert (fst j) (exported_paths ?f))"
    using Some b ok
    by (auto simp: finishBuild_def Let_def reader_paths_def building_path_def exported_paths_def smap.dom_assign)
  have "objects ?g = (if smap_find (fe_pending ?f) (fst j) = None then objects ?f - {fst j} else objects ?f)"
    using g fresh reader Some b by (auto simp: objects_def building_path_def)
  then show ?thesis
    using g Some b fresh dtor_acts(2) [OF fresh(2), of ok] no_acts [of ok]
    by (simp add: step_ok_def on_frontend_def finishBuild_acts_def replaced_acts_def build_ok_def)
qed

lemma step_apply:
  assumes "tree_inv poster s" "build_ok s" "fe_building (sy_frontend s) = None"
  shows "step_ok ok s (applyCardResolution_acts L ok j probe (sy_frontend s))
    (on_frontend (\<lambda>f. applyCardResolution L j probe (f\<lparr>fe_loop := ts\<rparr>)) s)"
proof -
  let ?f = "sy_frontend s" and ?g = "applyCardResolution L j probe ((sy_frontend s)\<lparr>fe_loop := ts\<rparr>)"
  have maps: "maps_ok (?f\<lparr>fe_loop := ts\<rparr>)" using assms(1) by (simp add: tree_inv_def maps_ok_def)
  have tree: "same_tree ?f ?g" using same_tree_trans [OF same_tree_simple(3) same_tree_apply [OF maps]] .
  show ?thesis
  proof (cases "applyCardResolution_acts L ok j probe ?f = []")
    case True
    then have "fe_building ?g = fe_building ?f"
      by (auto simp: applyCardResolution_acts_def applyCardResolution_def ctor_dtor_defs rescheduleCardResolve_def
          split: option.splits prod.splits if_splits)
    with True tree show ?thesis by (simp add: still_step [OF assms(2)] on_frontend_def)
  next
    case False
    then obtain pc where pc: "smap_find (fe_pending ?f) (fst j) = Some pc" "fst (retryAfter L probe (pc_attempts pc)) = None"
      by (auto simp: applyCardResolution_acts_def split: option.splits if_splits)
    then have acts: "applyCardResolution_acts L ok j probe ?f = CardObject_ctor ok (fst j)" and "building_path ?g = {fst j}"
      by (auto simp: applyCardResolution_acts_def applyCardResolution_def building_path_def split: prod.splits)
    have pending: "fst j \<in> pending_paths ?f" using pc(1) by (auto simp: pending_paths_def)
    note issued = pending_issued [OF assms(1) this]
    have "objects ?g = insert (fst j) (objects ?f)"
      using tree \<open>building_path ?g = {fst j}\<close> assms(3)
      by (auto simp: same_tree_def objects_def reader_paths_def building_path_def)
    then show ?thesis
      using issued tree \<open>building_path ?g = {fst j}\<close> acts ctor_acts(2) [of "fst j" "objects ?f" ok] assms(3)
      by (simp add: step_ok_def on_frontend_def build_ok_def same_tree_def) (simp add: objects_def building_path_def)
  qed
qed

lemma bus_step_ok:
  assumes "bus_step L ok s acts s'" "tree_inv poster s" "build_ok s"
  shows "step_ok ok s acts s'"
  using assms
proof (induction rule: bus_step.induct)
  case (bus_loop i s)
  show ?case
  proof (cases "fe_loop (sy_frontend s) ! i")
    case (Apply j probe)
    with step_apply [OF bus_loop(3,4,2), of ok L j probe "erase_at i (fe_loop (sy_frontend s))"] show ?thesis
      by (simp add: run_task_acts_def run_task_def on_frontend_def)
  next
    case (CardTypeUpdate p ct)
    have "maps_ok ((sy_frontend s)\<lparr>fe_loop := erase_at i (fe_loop (sy_frontend s))\<rparr>)"
      using bus_loop(3) by (simp add: tree_inv_def maps_ok_def)
    from same_tree_trans [OF same_tree_simple(3) same_tree_type [OF this, of p ct]] CardTypeUpdate bus_loop(4) show ?thesis
      by (simp add: run_task_acts_def run_task_def on_frontend_def still_step same_building)
  qed
next
  case (bus_update s q i d)
  then show ?case
    by (intro quiet_step) (simp_all add: publish_reader_frontend properties_paths same_building tree_inv_def)
next
  case (bus_relabelled s q r)
  then show ?case
    by (intro quiet_step) (simp_all add: publish_reader_frontend properties_paths same_building tree_inv_def)
next
  case (bus_built s)
  then show ?case by (rule step_built)
qed (auto intro: step_publish_reader step_publish_card step_withdrawn still_step
      simp: on_frontend_def same_tree_simple same_tree_timer same_building)

text \<open>Runs of the tree with everything done on the bus so far.\<close>

inductive bus_reach :: "'at frontend_lib \<Rightarrow> bool \<Rightarrow> bool \<Rightarrow> 'at system \<Rightarrow> bus_act list \<Rightarrow> bool" for L ok poster where
  bus_start: "bus_reach L ok poster (system_init poster) []"
| bus_run: "bus_reach L ok poster s acts \<Longrightarrow> bus_step L ok s more_acts s' \<Longrightarrow> bus_reach L ok poster s' (acts @ more_acts)"

lemma bus_reach_sys: "bus_reach L ok poster s acts \<Longrightarrow> sys_reach L poster s"
  by (induction rule: bus_reach.induct) (auto intro: sys_reach.intros bus_step_sys)

lemma registered_append [simp]: "registered (xs @ ys) R = registered ys (registered xs R)"
  by (induction xs R rule: registered.induct) simp_all

lemma announced_append [simp]: "announced (xs @ ys) = announced xs @ announced ys"
  by (induction xs rule: announced.induct) simp_all

lemma mirror_append [simp]: "mirror (xs @ ys) R = mirror ys (mirror xs R)"
  by (induction xs R rule: mirror.induct) simp_all

lemma orderly_append [simp]: "orderly (xs @ ys) R \<longleftrightarrow> orderly xs R \<and> orderly ys (registered xs R)"
  by (induction xs R rule: orderly.induct) simp_all

lemma acts_ok_append: "acts_ok ok xs R R' \<Longrightarrow> acts_ok ok ys R' R'' \<Longrightarrow> acts_ok ok (xs @ ys) R R''"
  by (auto simp: acts_ok_def)

lemma objects_init: "objects (sy_frontend (system_init poster)) = {}"
  by (simp add: objects_def system_init_def frontend_init_def reader_paths_def exported_paths_def building_path_def smap_find_Nil)

lemma bus_reach_ok: "bus_reach L ok poster s acts \<Longrightarrow> acts_ok ok acts {} (objects (sy_frontend s)) \<and> build_ok s"
proof (induction rule: bus_reach.induct)
  case bus_start
  show ?case
    by (simp add: objects_init no_acts) (simp add: build_ok_def system_init_def frontend_init_def building_path_def)
next
  case (bus_run s acts more_acts s')
  from bus_step_ok [OF bus_run(2) tree_inv_reach [OF bus_reach_sys [OF bus_run(1)]]] bus_run(3)
  show ?case by (auto simp: step_ok_def intro: acts_ok_append)
qed

text \<open>
  C5: a client that follows the announcements sees the tree. Under every interleaving of monitor,
  workers, timers and loop, what is registered on the bus is exactly the readers, the exported
  cards and the one card that may be under construction; no path is ever registered twice; an
  object is announced after it is registered and withdrawn, with its grant gate closed, before it is
  unregistered; and as long as emissions go out, replaying the announcements from the empty tree
  gives exactly the objects that exist, so a card withdrawn while it was being built is withdrawn
  from the clients as well.
\<close>

theorem announcements_describe_tree:
  assumes "bus_reach L ok poster s acts"
  shows "registered acts {} = objects (sy_frontend s) \<and> orderly acts {} \<and>
    (ok \<longrightarrow> mirror (announced acts) {} = objects (sy_frontend s)) \<and>
    (fe_building (sy_frontend s) = None \<longrightarrow>
       objects (sy_frontend s) = reader_paths (sy_frontend s) \<union> exported_paths (sy_frontend s))"
  using bus_reach_ok [OF assms] by (simp add: acts_ok_def objects_def building_path_def)

lemma sample_bus_step:
  "bus_step sample_frontend_lib ok (system_init True)
     (materializeReader_acts ok sample_reader_st (frontend_init True :: nat frontend)) sample_sys1"
  using bus_publish_reader [of sample_reader_st "system_init True" sample_frontend_lib ok True]
  by (simp add: sample_sys1_def sample_reader_st_def system_init_def)

lemma sample_bus_acts:
  "materializeReader_acts ok sample_reader_st (frontend_init True) = ReaderObject_ctor ok (agentObjectPath ''reader'' 4)"
  by (simp add: materializeReader_acts_def sample_reader_st_def frontend_init_def smap_find_Nil)

theorem announcements_describe_tree_witness:
  "mirror (announced (ReaderObject_ctor True (agentObjectPath ''reader'' 4))) {} = objects (sy_frontend sample_sys1) \<and>
   agentObjectPath ''reader'' 4 \<in> objects (sy_frontend sample_sys1)"
proof -
  have "bus_reach sample_frontend_lib True True sample_sys1 (ReaderObject_ctor True (agentObjectPath ''reader'' 4))"
    using bus_run [OF bus_start sample_bus_step] by (simp add: sample_bus_acts)
  from announcements_describe_tree [OF this]
  show ?thesis by (simp add: ctor_dtor_defs) (metis insertI1)
qed

subsection \<open>A client that follows the tree\<close>

text \<open>
  The contract the announcements rely on: whatever is announced, a client that hears it counts its
  copy as stale, and counts it so until it fetches a new one.
\<close>

locale tree_follower =
  fixes hear :: "announcement \<Rightarrow> 'c \<Rightarrow> 'c"
    and stale :: "'c \<Rightarrow> bool"
  assumes heard_stale: "stale (hear a c)"
begin

lemma stale_after: "as \<noteq> [] \<Longrightarrow> stale (fold hear as c)"
  by (cases as rule: rev_cases) (simp_all add: heard_stale)

lemma fresh_heard_nothing: "\<not> stale (fold hear as c) \<Longrightarrow> as = []"
  using stale_after by blast

end

primrec handlers :: "announcement \<Rightarrow> handler_step list" where
  "handlers (InterfacesAdded p) = onInterfacesAdded"
| "handlers (InterfacesRemoved p) = onInterfacesRemoved"

lemma handlers_dirty [simp]: "MarkDirty \<in> set (handlers a)"
  by (cases a) (simp_all add: onInterfacesAdded_def onInterfacesRemoved_def)

interpretation follower: tree_follower "\<lambda>a. deliver (handlers a)" cl_dirty
  by unfold_locales simp

lemma deliver_all: "deliver (concat (map handlers as)) c = fold (\<lambda>a. deliver (handlers a)) as c"
  by (induction as arbitrary: c) (simp_all add: deliver_def)

text \<open>The readers an enumeration answers are the objects that have the reader interface.\<close>

definition listed_readers :: "managed_objects \<Rightarrow> string set" where
  "listed_readers managed = fst ` {ob \<in> set managed. smap_find (snd ob) kReaderIface \<noteq> None}"

lemma enum_loop_readers:
  "enum_loop M env g managed objs snap isComplete c = (Inr (snap', b), c') \<Longrightarrow>
     rs_readerPath ` set snap' = rs_readerPath ` set snap \<union> listed_readers objs"
proof (induction objs arbitrary: snap isComplete c)
  case (Cons ob objs)
  note IH = Cons.IH
  have split: "listed_readers (ob # objs) =
      (if smap_find (snd ob) kReaderIface = None then {} else {fst ob}) \<union> listed_readers objs"
    by (auto simp: listed_readers_def)
  show ?case
  proof (cases "smap_find (snd ob) kReaderIface")
    case None
    with Cons.prems IH [of snap isComplete c] show ?thesis by (simp add: split enum_loop.simps(2))
  next
    case (Some props)
    obtain r whole c1 where "rs_readerPath r = fst ob"
      and "enum_loop M env g managed objs (snap @ [r]) whole c1 = (Inr (snap', b), c')"
    proof -
      obtain hasCard cardPath where reads: "prop_bool props ''HasCard'' False = Inr hasCard" "prop_path props ''Card'' = Inr cardPath"
        using Cons.prems Some by (auto simp: enum_loop.simps(2) split: sum.splits)
      show thesis
      proof (cases "hasCard \<and> cardPath \<noteq> []")
        case True
        show thesis
          by (cases "cardCerts M env g managed (fst ob) cardPath c" rule: prod.exhaust)
            (use Cons.prems Some reads True in \<open>auto simp: enum_loop.simps(2) Let_def split: sum.splits intro: that [rotated]\<close>)
      next
        case False
        with Cons.prems Some reads show thesis by (auto simp: enum_loop.simps(2) Let_def intro: that [rotated])
      qed
    qed
    with Some IH [of "snap @ [r]" whole c1] show ?thesis by (auto simp: split)
  qed
qed (simp add: listed_readers_def)

lemma snapshot_readers:
  assumes "snapshot M env c = (Inr snap, c')" "cl_ok c" "cl_dirty c" "en_managed env = Inr managed"
  shows "rs_readerPath ` set snap = listed_readers managed" "cl_cached c' = snap"
  using assms
  by (auto simp: snapshot_def enumerate_def Let_def split: prod.splits sum.splits if_splits dest!: enum_loop_readers)

text \<open>Every handler step of a call, in the order in which it runs.\<close>

definition call_steps :: "enum_env \<Rightarrow> managed_objects \<Rightarrow> handler_step list" where
  "call_steps env managed = en_before env @ en_call env @ concat (map (steps_at env \<circ> fst) (visits managed)) @ en_tail env"

lemma snapshot_marked:
  assumes "snapshot M env c = (Inr snap, c')" "cl_ok c" "cl_dirty c" "en_managed env = Inr managed"
    and "MarkDirty \<in> set (call_steps env managed)"
  shows "cl_dirty c'"
  using assms(1-3)
proof (cases rule: snapshot_enumerated)
  case (answered managed' whole c2)
  with assms(4,5) visited_dirty [OF answered(2)] show ?thesis by (auto simp: call_steps_def)
qed


subsection \<open>The agent and the PKCS#11 module together\<close>

text \<open>
  Several steps of the agent, with what they announce. A world is the agent's tree, the
  announcements on their way, the module's client, and whether an enumeration of it ever threw.
\<close>

inductive bus_steps :: "'at frontend_lib \<Rightarrow> bool \<Rightarrow> 'at system \<Rightarrow> bus_act list \<Rightarrow> 'at system \<Rightarrow> bool" for L ok where
  bus_none: "bus_steps L ok s [] s"
| bus_more: "bus_steps L ok s acts s' \<Longrightarrow> bus_step L ok s' acts' s'' \<Longrightarrow> bus_steps L ok s (acts @ acts') s''"

record ('at, 'e) module_world =
  mw_system :: "'at system"
  mw_bus :: "announcement list"
  mw_client :: "'e client"
  mw_threw :: bool

text \<open>
  One step of the world: the agent acts, the module's connection hears the next announcement, or
  the module asks for a snapshot. A snapshot served from the cache asks nobody. During an
  enumeration the agent may act before and after it answers, its answer lists the readers there were
  when it answered, and the connection hears as many of the announcements as it gets to.
\<close>

inductive world_step ::
  "'at frontend_lib \<Rightarrow> ('k, 'e, 'm) module_lib \<Rightarrow> bool \<Rightarrow> ('at, 'e) module_world \<Rightarrow> ('at, 'e) module_world \<Rightarrow> bool"
  for L M ok where
  agent_acts:
    "bus_step L ok (mw_system w) acts s \<Longrightarrow>
       world_step L M ok w (w\<lparr>mw_system := s, mw_bus := mw_bus w @ announced acts\<rparr>)"
| signal_heard:
    "mw_bus w = a # as \<Longrightarrow>
       world_step L M ok w (w\<lparr>mw_bus := as, mw_client := deliver (handlers a) (mw_client w)\<rparr>)"
| cache_served:
    "\<not> cl_dirty (mw_client w) \<Longrightarrow> snapshot M env (mw_client w) = (Inr snap, c) \<Longrightarrow>
       world_step L M ok w (w\<lparr>mw_client := c\<rparr>)"
| enumerated:
    "cl_dirty (mw_client w) \<Longrightarrow> bus_steps L ok (mw_system w) before mid \<Longrightarrow> bus_steps L ok mid after s \<Longrightarrow>
       en_managed env = Inr managed \<Longrightarrow> listed_readers managed = reader_paths (sy_frontend mid) \<Longrightarrow>
       mw_bus w @ announced before @ announced after = heard @ rest \<Longrightarrow>
       call_steps env managed = concat (map handlers heard) \<Longrightarrow>
       snapshot M env (mw_client w) = (Inr snap, c) \<Longrightarrow>
       world_step L M ok w (w\<lparr>mw_system := s, mw_bus := rest, mw_client := c\<rparr>)"
| agent_unreachable:
    "cl_dirty (mw_client w) \<Longrightarrow> en_managed env = Inl t \<Longrightarrow> snapshot M env (mw_client w) = (Inr snap, c) \<Longrightarrow>
       world_step L M ok w (w\<lparr>mw_client := c\<rparr>)"
| enumeration_threw:
    "snapshot M env (mw_client w) = (Inl t, c) \<Longrightarrow>
       world_step L M ok w (w\<lparr>mw_client := c, mw_threw := True\<rparr>)"

inductive world_reach ::
  "'at frontend_lib \<Rightarrow> ('k, 'e, 'm) module_lib \<Rightarrow> bool \<Rightarrow> bool \<Rightarrow> ('at, 'e) module_world \<Rightarrow> bool"
  for L M ok poster where
  world_start:
    "world_reach L M ok poster
       \<lparr>mw_system = system_init poster, mw_bus = [], mw_client = client_init True, mw_threw = False\<rparr>"
| world_run: "world_reach L M ok poster w \<Longrightarrow> world_step L M ok w w' \<Longrightarrow> world_reach L M ok poster w'"

text \<open>What holds of the agent's side between the steps.\<close>

definition tree_ok :: "bool \<Rightarrow> 'at system \<Rightarrow> bool" where
  "tree_ok poster s \<longleftrightarrow> tree_inv poster s \<and> build_ok s"

lemma tree_ok_init: "tree_ok poster (system_init poster)"
  using tree_inv_reach [OF sys_reach.start] bus_reach_ok [OF bus_start] by (auto simp: tree_ok_def)

lemma tree_ok_step: "bus_step L ok s acts s' \<Longrightarrow> tree_ok poster s \<Longrightarrow> tree_ok poster s'"
  using bus_step_ok [of L ok s acts s' poster] tree_inv_step [OF bus_step_sys, of L ok s acts s' poster]
  by (simp add: tree_ok_def step_ok_def)

lemma readers_of_objects:
  "tree_ok poster s \<Longrightarrow> reader_paths (sy_frontend s) = {p \<in> objects (sy_frontend s). \<exists>i. p = agentObjectPath ''reader'' i}"
  using objects_kinds(1) [of poster s] by (auto simp: tree_ok_def tree_inv_def)

text \<open>An agent that announced nothing, with every emission going out, did not change the readers.\<close>

lemma silent_step:
  assumes "bus_step L True s acts s'" "tree_ok poster s" "announced acts = []"
  shows "reader_paths (sy_frontend s') = reader_paths (sy_frontend s)"
proof -
  have "acts_ok True acts (objects (sy_frontend s)) (objects (sy_frontend s'))"
    using bus_step_ok [OF assms(1)] assms(2) by (auto simp: tree_ok_def step_ok_def)
  with assms(3) have "objects (sy_frontend s') = objects (sy_frontend s)" by (simp add: acts_ok_def)
  then show ?thesis
    using readers_of_objects [OF assms(2)] readers_of_objects [OF tree_ok_step [OF assms(1,2)]] by simp
qed

lemma tree_ok_steps: "bus_steps L ok s acts s' \<Longrightarrow> tree_ok poster s \<Longrightarrow> tree_ok poster s'"
  by (induction rule: bus_steps.induct) (auto intro: tree_ok_step)

lemma silent_steps:
  "bus_steps L True s acts s' \<Longrightarrow> tree_ok poster s \<Longrightarrow> announced acts = [] \<Longrightarrow>
     reader_paths (sy_frontend s') = reader_paths (sy_frontend s)"
proof (induction rule: bus_steps.induct)
  case (bus_more s acts s' acts' s'')
  from silent_step [OF bus_more(2) tree_ok_steps [OF bus_more(1,4)]] bus_more show ?case by simp
qed simp

text \<open>
  The copy is stale, or an announcement that will make it so is on its way, or the cached readers
  are the readers there are.
\<close>

definition follows :: "('at, 'e) module_world \<Rightarrow> bool" where
  "follows w \<longleftrightarrow>
     cl_dirty (mw_client w) \<or> mw_bus w \<noteq> [] \<or>
     rs_readerPath ` set (cl_cached (mw_client w)) = reader_paths (sy_frontend (mw_system w))"

lemma cached_snapshot: "\<not> cl_dirty c \<Longrightarrow> snapshot M env c = (r, c') \<Longrightarrow> c' = c"
  by (auto simp: snapshot_def split: if_splits)

lemma snapshot_ok:
  assumes "snapshot M env c = (Inr snap, c')" "cl_ok c"
  shows "cl_ok c'"
proof (cases "cl_dirty c \<and> (\<exists>managed. en_managed env = Inr managed)")
  case True
  with assms obtain managed where "cl_dirty c" "en_managed env = Inr managed" by blast
  show ?thesis using assms \<open>cl_dirty c\<close>
  proof (cases rule: snapshot_enumerated)
    case (answered managed' whole c2)
    with assms(2) visited_frame [OF answered(2)] show ?thesis by simp
  qed (use \<open>en_managed env = Inr managed\<close> in simp)
next
  case False
  with assms show ?thesis
    by (cases "en_managed env") (auto simp: snapshot_def enumerate_def Let_def split: if_splits)
qed

lemma snapshot_unreachable:
  "snapshot M env c = (Inr snap, c') \<Longrightarrow> cl_ok c \<Longrightarrow> cl_dirty c \<Longrightarrow> en_managed env = Inl t \<Longrightarrow> cl_dirty c'"
  by (erule snapshot_enumerated) simp_all

lemma follows_enumerated:
  assumes "bus_steps L True (mw_system w) before mid" "bus_steps L True mid after s" "tree_ok poster (mw_system w)"
    and "en_managed env = Inr managed" "listed_readers managed = reader_paths (sy_frontend mid)"
    and "mw_bus w @ announced before @ announced after = heard @ rest" "call_steps env managed = concat (map handlers heard)"
    and "snapshot M env (mw_client w) = (Inr snap, c)" "cl_ok (mw_client w)" "cl_dirty (mw_client w)"
  shows "follows (w\<lparr>mw_system := s, mw_bus := rest, mw_client := c\<rparr>)"
proof (cases heard)
  case (Cons a as)
  then have "MarkDirty \<in> set (call_steps env managed)" by (simp add: assms(7))
  from snapshot_marked [OF assms(8,9,10,4) this] show ?thesis by (simp add: follows_def)
next
  case Nil
  show ?thesis
  proof (cases "rest = []")
    case True
    with Nil assms(6) have "announced after = []" by simp
    from silent_steps [OF assms(2) tree_ok_steps [OF assms(1,3)] this] assms(5) snapshot_readers [OF assms(8,9,10,4)]
    show ?thesis by (simp add: follows_def)
  qed (simp add: follows_def)
qed

lemma world_inv:
  "world_reach L M True poster w \<Longrightarrow>
     tree_ok poster (mw_system w) \<and> (mw_threw w \<or> cl_ok (mw_client w) \<and> follows w)"
proof (induction rule: world_reach.induct)
  case world_start
  show ?case by (simp add: tree_ok_init follows_def client_init_def)
next
  case (world_run w w')
  from world_run(2,3) show ?case
  proof (induction rule: world_step.induct)
    case (agent_acts w acts s)
    then have "follows (w\<lparr>mw_system := s, mw_bus := mw_bus w @ announced acts\<rparr>)" if "follows w"
      using that silent_step [OF agent_acts(1)] by (auto simp: follows_def)
    with agent_acts tree_ok_step [OF agent_acts(1)] show ?case by auto
  next
    case (cache_served w env snap c)
    then show ?case using cached_snapshot by fastforce
  next
    case (enumerated w before mid after s env managed heard rest snap c)
    from enumerated.prems show ?case
      using tree_ok_steps [OF enumerated(3) tree_ok_steps [OF enumerated(2)]] snapshot_ok [OF enumerated(8)]
        follows_enumerated [OF enumerated(2,3) _ enumerated(4-8) _ enumerated(1)] by auto
  next
    case (agent_unreachable w env t snap c)
    then show ?case
      using snapshot_ok [OF agent_unreachable(3)] snapshot_unreachable [OF agent_unreachable(3) _ agent_unreachable(1,2)]
      by (auto simp: follows_def)
  qed (auto simp: follows_def)
qed



definition sample_tree :: "managed_objects \<Rightarrow> enum_env" where
  "sample_tree managed =
     \<lparr>en_managed = Inr managed, en_read = (\<lambda>_. sample_read), en_before = [], en_call = [],
      en_pre = (\<lambda>_. []), en_during = (\<lambda>_. []), en_tail = []\<rparr>"

definition sample_world :: "(nat, string) module_world" where
  "sample_world =
     \<lparr>mw_system = sample_sys1, mw_bus = [], mw_client = deliver onInterfacesAdded (client_init True), mw_threw = False\<rparr>"

lemma sample_world_reach: "world_reach sample_frontend_lib sample_lib True True sample_world"
proof -
  let ?a = "InterfacesAdded (agentObjectPath ''reader'' 4)"
  let ?w = "\<lparr>mw_system = system_init True, mw_bus = [], mw_client = client_init True, mw_threw = False\<rparr>
    :: (nat, string) module_world"
  have "world_reach sample_frontend_lib sample_lib True True (?w\<lparr>mw_system := sample_sys1, mw_bus := [?a]\<rparr>)"
    using world_run [OF world_start agent_acts [of _ _ ?w]] sample_bus_step [of True]
    by (fastforce simp: sample_bus_acts ctor_dtor_defs)
  from world_run [OF this signal_heard [where a = ?a and as = "[]"]] show ?thesis
    by (simp add: sample_world_def)
qed

lemma sample_sys1_readers: "reader_paths (sy_frontend sample_sys1) = {agentObjectPath ''reader'' 4}"
  using tree_inv_reach [OF sample_reach1] by (simp add: tree_inv_def sample_sys1_sets)


text \<open>
  An announcement that was not emitted is not made up for. The comment of the announcement helpers
  counts on clients falling back to \<^verbatim>\<open>GetManagedObjects\<close>; the module asks only after a signal, so
  with nothing left to hear it goes on answering a tree without the new reader.
\<close>

lemma lost_announcement_stale:
  "\<exists>w :: (nat, string) module_world.
     world_reach sample_frontend_lib sample_lib False True w \<and> \<not> mw_threw w \<and> mw_bus w = [] \<and>
     (\<forall>env. snapshot sample_lib env (mw_client w) = (Inr [], mw_client w)) \<and>
     reader_paths (sy_frontend (mw_system w)) = {agentObjectPath ''reader'' 4}"
proof -
  let ?c = "(client_init True)\<lparr>cl_dirty := False\<rparr> :: string client"
  let ?w = "\<lparr>mw_system = system_init True, mw_bus = [], mw_client = client_init True, mw_threw = False\<rparr>
    :: (nat, string) module_world"
  have call: "snapshot sample_lib (sample_tree []) (client_init True) = (Inr [], ?c)"
    by (simp add: snapshot_def enumerate_def sample_tree_def client_init_def)
  have "world_step sample_frontend_lib sample_lib False ?w (?w\<lparr>mw_system := mw_system ?w, mw_bus := [], mw_client := ?c\<rparr>)"
    by (rule enumerated [OF _ bus_none bus_none, where heard = "[]" and managed = "[]" and env = "sample_tree []"])
      (simp_all add: call, simp_all add: client_init_def sample_tree_def call_steps_def listed_readers_def
        system_init_def frontend_init_def reader_paths_def smap_find_Nil)
  from world_run [OF world_start this]
  have clean: "world_reach sample_frontend_lib sample_lib False True (?w\<lparr>mw_client := ?c\<rparr>)" by simp
  have "world_step sample_frontend_lib sample_lib False (?w\<lparr>mw_client := ?c\<rparr>)
      (?w\<lparr>mw_system := sample_sys1, mw_client := ?c\<rparr>)"
    using agent_acts [of sample_frontend_lib False "?w\<lparr>mw_client := ?c\<rparr>"] sample_bus_step [of False]
    by (fastforce simp: sample_bus_acts ctor_dtor_defs)
  from world_run [OF clean this] show ?thesis
    by (intro exI conjI) (assumption, simp_all add: snapshot_def sample_sys1_readers, simp_all add: client_init_def)
qed

end
