(* ===== verification/Certificate_Wait.thy ===== *)
theory Certificate_Wait
  imports Operation_Channels
begin

text \<open>
  A certificate read from both ends at once: the operation's worker in the agent publishes its result,
  stores how it ended, marks itself complete and emits \<^verbatim>\<open>Finished\<close>, while the module arms its handler,
  asks whether the read is complete and waits or collects (\<^verbatim>\<open>pkcs11-module/src/CertificateRead.h\<close>
  against \<^verbatim>\<open>dbus/OperationAdaptorFactory.cpp\<close> and \<^verbatim>\<open>operations/Operation1Adaptor.h\<close>). The worker's order
  is the agent library's; what is used of it is what \<^verbatim>\<open>CertificateRead.h\<close> says of it: the result before
  completion, the terminal status and code before completion, completion before \<^verbatim>\<open>Finished\<close>.
\<close>

subsection \<open>The two ends\<close>

datatype worker_step = EmitResult | StoreStatus | StoreCode | MarkCompleted | EmitFinished

record 'k op_end =
  oe_status :: u32
  oe_code :: u32
  oe_key :: string
  oe_fallback :: string
  oe_certs :: "'k cert_snapshot list"

definition needed :: "'k op_end \<Rightarrow> worker_step \<Rightarrow> worker_step set" where
  "needed e k =
     (case k of
        MarkCompleted \<Rightarrow> {StoreStatus, StoreCode} \<union> (if oe_status e = 0 then {EmitResult} else {})
      | EmitFinished \<Rightarrow> {MarkCompleted}
      | _ \<Rightarrow> {})"

datatype read_pc = Arming | AskingCompleted | AskingStatus | AskingCode | Waiting | AskingResult | Ended

record 'k wait_state =
  wa_did :: "worker_step set"
  wa_state :: operation_state
  wa_store :: "'k cert_snapshot list result_state"
  wa_world :: chan_world
  wa_armed :: bool
  wa_bus :: "(u32 \<times> u32 \<times> string) list"
  wa_heard :: "(u32 \<times> u32 \<times> string) option"
  wa_pc :: read_pc
  wa_seen :: read_bus

definition op_object :: "'k wait_state \<Rightarrow> op_adaptor" where
  "op_object r = \<lparr>ad_state = Some (wa_state r), ad_cancel = \<lparr>route_owner = [], route_run = False\<rparr>\<rparr>"

definition wait_start :: "string \<Rightarrow> 'k cert_snapshot list \<Rightarrow> bool list \<Rightarrow> chan_world \<Rightarrow> 'k wait_state" where
  "wait_start path unset emits w =
     \<lparr>wa_did = {}, wa_state = \<lparr>os_phase = 0, os_completed = False, os_terminalStatus = 0, os_terminalErrorCode = 0\<rparr>,
      wa_store = unpublished unset, wa_world = w\<lparr>cw_emits := emits, cw_signals := []\<rparr>, wa_armed = False, wa_bus = [],
      wa_heard = None, wa_pc = Arming,
      wa_seen = \<lparr>rb_call = Inr path, rb_completed = Inr False, rb_status = Inr 0, rb_errorCode = Inr 0, rb_finished = None,
                 rb_result = Inr []\<rparr>\<rparr>"

text \<open>What a reply of \<^verbatim>\<open>GetResult\<close> is to the caller.\<close>

definition reply_of :: "'a got \<Rightarrow> thrown + 'a" where
  "reply_of g =
     (case g of
        Answer x \<Rightarrow> Inr x
      | NoResult _ \<Rightarrow> Inl (thrown.BusError ''org.librescrs.Agent.Error.NoResult'')
      | _ \<Rightarrow> Inl (thrown.BusError ''org.freedesktop.DBus.Error.Failed''))"

definition judged_status :: "read_bus \<Rightarrow> u32" where
  "judged_status B =
     (case rb_completed B of
        Inr True \<Rightarrow> (case rb_status B of Inr s \<Rightarrow> s | Inl _ \<Rightarrow> 2)
      | _ \<Rightarrow> (case rb_finished B of Some (s, _) \<Rightarrow> s | None \<Rightarrow> 2))"

text \<open>
  One step of either end. A signal reaches the module only when it was emitted after the handler was
  armed, and the handler runs at any moment after that; a worker's emission may fail.
\<close>

inductive wait_step ::
  "('k \<Rightarrow> string) \<Rightarrow> ('k cert_snapshot list \<Rightarrow> 'k cert_snapshot list \<Rightarrow> 'k cert_snapshot list) \<Rightarrow> 'k op_end \<Rightarrow>
     'k wait_state \<Rightarrow> 'k wait_state \<Rightarrow> bool" for tok torn e where
  emit_result:
    "EmitResult \<notin> wa_did r \<Longrightarrow>
       certificates_emitResult tok torn (wa_store r) (CertificatesPayload (oe_certs e)) (wa_world r) = (b, st, w) \<Longrightarrow>
       wait_step tok torn e r (r\<lparr>wa_did := insert EmitResult (wa_did r), wa_store := st, wa_world := w\<rparr>)"
| store_status:
    "wait_step tok torn e r
       (r\<lparr>wa_did := insert StoreStatus (wa_did r), wa_state := (wa_state r)\<lparr>os_terminalStatus := oe_status e\<rparr>\<rparr>)"
| store_code:
    "wait_step tok torn e r
       (r\<lparr>wa_did := insert StoreCode (wa_did r), wa_state := (wa_state r)\<lparr>os_terminalErrorCode := oe_code e\<rparr>\<rparr>)"
| mark_completed:
    "needed e MarkCompleted \<subseteq> wa_did r \<Longrightarrow>
       wait_step tok torn e r (r\<lparr>wa_did := insert MarkCompleted (wa_did r), wa_state := (wa_state r)\<lparr>os_completed := True\<rparr>\<rparr>)"
| emit_finished:
    "needed e EmitFinished \<subseteq> wa_did r \<Longrightarrow> EmitFinished \<notin> wa_did r \<Longrightarrow>
       channel_emitFinished (oe_status e) (oe_code e) (oe_key e) (oe_fallback e) (wa_world r) = w \<Longrightarrow>
       wait_step tok torn e r
         (r\<lparr>wa_did := insert EmitFinished (wa_did r), wa_world := w,
            wa_bus := wa_bus r @
              (if wa_armed r \<and> cw_signals w \<noteq> cw_signals (wa_world r) then [(oe_status e, oe_code e, oe_fallback e)] else [])\<rparr>)"
| hear_finished: "wa_bus r = f # fs \<Longrightarrow> wait_step tok torn e r (r\<lparr>wa_bus := fs, wa_heard := Some f\<rparr>)"
| arm: "wa_pc r = Arming \<Longrightarrow> wait_step tok torn e r (r\<lparr>wa_armed := True, wa_pc := AskingCompleted\<rparr>)"
| ask_completed:
    "wa_pc r = AskingCompleted \<Longrightarrow>
       wait_step tok torn e r
         (r\<lparr>wa_pc := (if op_completed (op_object r) then AskingStatus else Waiting),
            wa_seen := (wa_seen r)\<lparr>rb_completed := Inr (op_completed (op_object r))\<rparr>\<rparr>)"
| ask_status:
    "wa_pc r = AskingStatus \<Longrightarrow>
       wait_step tok torn e r
         (r\<lparr>wa_pc := AskingCode, wa_seen := (wa_seen r)\<lparr>rb_status := Inr (terminalStatus (op_object r))\<rparr>\<rparr>)"
| ask_code:
    "wa_pc r = AskingCode \<Longrightarrow>
       wait_step tok torn e r
         (r\<lparr>wa_pc := AskingResult, wa_seen := (wa_seen r)\<lparr>rb_errorCode := Inr (terminalErrorCode (op_object r))\<rparr>\<rparr>)"
| waited:
    "wa_pc r = Waiting \<Longrightarrow> wa_heard r = Some f \<Longrightarrow>
       wait_step tok torn e r (r\<lparr>wa_pc := AskingResult, wa_seen := (wa_seen r)\<lparr>rb_finished := Some f\<rparr>\<rparr>)"
| timed_out: "wa_pc r = Waiting \<Longrightarrow> wa_heard r = None \<Longrightarrow> wait_step tok torn e r (r\<lparr>wa_pc := Ended\<rparr>)"
| not_ok: "wa_pc r = AskingResult \<Longrightarrow> judged_status (wa_seen r) \<noteq> 0 \<Longrightarrow> wait_step tok torn e r (r\<lparr>wa_pc := Ended\<rparr>)"
| ask_result:
    "wa_pc r = AskingResult \<Longrightarrow> judged_status (wa_seen r) = 0 \<Longrightarrow>
       certificates_GetResult tok (Some (wa_store r)) (wa_world r) = (g, w) \<Longrightarrow>
       wait_step tok torn e r (r\<lparr>wa_pc := Ended, wa_world := w, wa_seen := (wa_seen r)\<lparr>rb_result := reply_of g\<rparr>\<rparr>)"

inductive wait_reach ::
  "('k \<Rightarrow> string) \<Rightarrow> ('k cert_snapshot list \<Rightarrow> 'k cert_snapshot list \<Rightarrow> 'k cert_snapshot list) \<Rightarrow> 'k op_end \<Rightarrow>
     'k wait_state \<Rightarrow> 'k wait_state \<Rightarrow> bool" for tok torn e r0 where
  wait_begin: "wait_reach tok torn e r0 r0"
| wait_next: "wait_reach tok torn e r0 r \<Longrightarrow> wait_step tok torn e r r' \<Longrightarrow> wait_reach tok torn e r0 r'"


subsection \<open>What holds in between\<close>

text \<open>No allocation of what is still to come fails.\<close>

abbreviation smooth :: "chan_world \<Rightarrow> bool" where
  "smooth w \<equiv> True \<notin> set (sw_allocs w)"

lemma send_nx_allocs: "sw_allocs (send_nx sg w) = sw_allocs w"
  by (cases "cw_emits w") (simp_all add: send_nx_def send_def)

lemma publish_smooth:
  assumes "publishResult torn st p w = (ok, st', w')"
  shows "smooth w \<Longrightarrow> ok \<and> smooth w'"
  using assms by (cases "sw_allocs w") (auto simp: publishResult_def throws_alloc_def split: if_splits)

lemma emit_result_effects:
  assumes "certificates_emitResult tok torn st (CertificatesPayload certs) w = (b, st', w')"
  shows "rs_ready st' \<Longrightarrow> \<not> rs_ready st \<Longrightarrow> rs_payload st' = certs" "smooth w \<Longrightarrow> rs_ready st' \<and> smooth w'"
    "Finished s c k f \<in> set (cw_signals w') \<longleftrightarrow> Finished s c k f \<in> set (cw_signals w)"
proof -
  obtain ok st1 w1 where p: "publishResult torn st certs w = (ok, st1, w1)" by (metis prod_cases3)
  have st': "st' = st1" and w': "w' = send_nx (CertificatesResult (buildCertificates1Wire tok certs)) w1"
    using assms p by (simp_all add: certificates_emitResult_def emitCertificates1Result_def)
  note cases1 = publishResult_cases(2,3) [OF p]
  show "rs_ready st' \<Longrightarrow> \<not> rs_ready st \<Longrightarrow> rs_payload st' = certs" using cases1 st' by (cases ok) simp_all
  show "smooth w \<Longrightarrow> rs_ready st' \<and> smooth w'"
    using publish_smooth [OF p] cases1(1) by (simp add: st' w' send_nx_allocs)
  show "Finished s c k f \<in> set (cw_signals w') \<longleftrightarrow> Finished s c k f \<in> set (cw_signals w)"
    using send_nx_signals [of "CertificatesResult (buildCertificates1Wire tok certs)" w1] publishResult_signals [OF p] by (auto simp: w')
qed

lemma emit_finished_effects:
  "smooth (channel_emitFinished s c k f w) = smooth w"
  "cw_signals (channel_emitFinished s c k f w) = cw_signals w \<or> cw_signals (channel_emitFinished s c k f w) = cw_signals w @ [Finished s c k f]"
  using send_nx_signals [of "Finished s c k f" w]
  by (simp_all add: channel_emitFinished_def emitFinishedNx_def send_nx_allocs)

lemma stored_smooth:
  "readStoredResult st w = (got1, w') \<Longrightarrow> smooth w \<Longrightarrow> smooth w' \<and> (rs_ready st \<longrightarrow> got1 = Some (rs_payload st))"
  "readStoredResult st w = (Some x, w') \<Longrightarrow> rs_ready st \<and> x = rs_payload st"
  "readStoredResult st w = (got1, w') \<Longrightarrow> cw_signals w' = cw_signals w"
  by (cases "sw_allocs w"; auto simp: readStoredResult_def throws_alloc_def split: if_splits)+

lemma get_result_effects:
  assumes "certificates_GetResult tok (Some st) w = (g, w')"
  shows "reply_of g = Inr cs \<Longrightarrow> rs_ready st \<and> cs = buildCertificates1Wire tok (rs_payload st)"
    "rs_ready st \<Longrightarrow> smooth w \<Longrightarrow> reply_of g = Inr (buildCertificates1Wire tok (rs_payload st))"
    "cw_signals w' = cw_signals w" "smooth w \<Longrightarrow> smooth w'"
proof -
  obtain got1 w1 where r: "readStoredResult st w = (got1, w1)" by (cases "readStoredResult st w")
  obtain threw w2 where t: "throws_alloc w1 = (threw, w2)" by (cases "throws_alloc w1")
  have g: "(g, w') = (case got1 of None \<Rightarrow> (NoResult ''no certificates result is available'', w1)
      | Some x \<Rightarrow> if threw then (Fails, w2) else (Answer (buildCertificates1Wire tok x), w2))"
    using assms r t by (cases got1) (auto simp: certificates_GetResult_def)
  show "reply_of g = Inr cs \<Longrightarrow> rs_ready st \<and> cs = buildCertificates1Wire tok (rs_payload st)"
    using g stored_smooth(2) [of st w _ w1] r by (cases got1; cases threw) (auto simp: reply_of_def)
  show "rs_ready st \<Longrightarrow> smooth w \<Longrightarrow> reply_of g = Inr (buildCertificates1Wire tok (rs_payload st))"
    using g stored_smooth(1) [OF r] throws_alloc_script [OF t] by (cases threw) (auto simp: reply_of_def)
  show "cw_signals w' = cw_signals w"
    using g stored_smooth(3) [OF r] throws_alloc_signals [OF t] by (cases got1; cases threw) auto
  show "smooth w \<Longrightarrow> smooth w'"
    using g stored_smooth(1) [OF r] throws_alloc_script [OF t] by (cases got1; cases threw) auto
qed

definition worker_ok :: "'k op_end \<Rightarrow> 'k wait_state \<Rightarrow> bool" where
  "worker_ok e r \<longleftrightarrow>
     (os_completed (wa_state r) \<longleftrightarrow> MarkCompleted \<in> wa_did r) \<and>
     (StoreStatus \<in> wa_did r \<longrightarrow> os_terminalStatus (wa_state r) = oe_status e) \<and>
     (StoreCode \<in> wa_did r \<longrightarrow> os_terminalErrorCode (wa_state r) = oe_code e) \<and>
     (MarkCompleted \<in> wa_did r \<longrightarrow> needed e MarkCompleted \<subseteq> wa_did r) \<and>
     (EmitFinished \<in> wa_did r \<longrightarrow> MarkCompleted \<in> wa_did r)"

definition store_ok :: "bool \<Rightarrow> 'k op_end \<Rightarrow> 'k wait_state \<Rightarrow> bool" where
  "store_ok calm e r \<longleftrightarrow>
     (rs_ready (wa_store r) \<longrightarrow> EmitResult \<in> wa_did r \<and> rs_payload (wa_store r) = oe_certs e) \<and>
     (calm \<longrightarrow> smooth (wa_world r) \<and> (EmitResult \<in> wa_did r \<longrightarrow> rs_ready (wa_store r)))"

definition signal_ok :: "'k op_end \<Rightarrow> 'k wait_state \<Rightarrow> bool" where
  "signal_ok e r \<longleftrightarrow>
     set (wa_bus r) \<subseteq> {(oe_status e, oe_code e, oe_fallback e)} \<and>
     (\<forall>f. wa_heard r = Some f \<longrightarrow> f = (oe_status e, oe_code e, oe_fallback e)) \<and>
     (wa_bus r \<noteq> [] \<or> wa_heard r \<noteq> None \<longrightarrow> MarkCompleted \<in> wa_did r) \<and>
     ((\<exists>s c k f. Finished s c k f \<in> set (cw_signals (wa_world r))) \<longrightarrow> EmitFinished \<in> wa_did r) \<and>
     (wa_pc r \<noteq> Arming \<longrightarrow> wa_armed r) \<and>
     (wa_pc r = Waiting \<longrightarrow> (\<exists>s c k f. Finished s c k f \<in> set (cw_signals (wa_world r))) \<longrightarrow> wa_bus r \<noteq> [] \<or> wa_heard r \<noteq> None)"

text \<open>What the module has been told by the time it goes for the result.\<close>

definition told :: "'k op_end \<Rightarrow> 'k wait_state \<Rightarrow> bool" where
  "told e r \<longleftrightarrow> MarkCompleted \<in> wa_did r \<and>
     (rb_completed (wa_seen r) = Inr True \<and> rb_status (wa_seen r) = Inr (oe_status e) \<and> rb_errorCode (wa_seen r) = Inr (oe_code e) \<or>
      rb_completed (wa_seen r) = Inr False \<and> rb_finished (wa_seen r) = Some (oe_status e, oe_code e, oe_fallback e))"

definition collected :: "('k \<Rightarrow> string) \<Rightarrow> bool \<Rightarrow> 'k op_end \<Rightarrow> 'k wait_state \<Rightarrow> bool" where
  "collected tok calm e r \<longleftrightarrow>
     (oe_status e = 0 \<longrightarrow>
        (case rb_result (wa_seen r) of Inr cs \<Rightarrow> cs = buildCertificates1Wire tok (oe_certs e) | Inl _ \<Rightarrow> \<not> calm))"

definition read_ok_so_far :: "('k \<Rightarrow> string) \<Rightarrow> bool \<Rightarrow> 'k op_end \<Rightarrow> 'k wait_state \<Rightarrow> bool" where
  "read_ok_so_far tok calm e r \<longleftrightarrow>
     (\<exists>path. rb_call (wa_seen r) = Inr path) \<and>
     (case wa_pc r of
        Arming \<Rightarrow> rb_finished (wa_seen r) = None
      | AskingCompleted \<Rightarrow> rb_finished (wa_seen r) = None
      | AskingStatus \<Rightarrow> rb_completed (wa_seen r) = Inr True \<and> MarkCompleted \<in> wa_did r
      | AskingCode \<Rightarrow> rb_completed (wa_seen r) = Inr True \<and> rb_status (wa_seen r) = Inr (oe_status e) \<and> MarkCompleted \<in> wa_did r
      | Waiting \<Rightarrow> rb_completed (wa_seen r) = Inr False \<and> rb_finished (wa_seen r) = None
      | AskingResult \<Rightarrow> told e r
      | Ended \<Rightarrow>
          rb_completed (wa_seen r) = Inr False \<and> rb_finished (wa_seen r) = None \<or> told e r \<and> collected tok calm e r)"

lemma worker_ok_step: "wait_step tok torn e r r' \<Longrightarrow> worker_ok e r \<Longrightarrow> worker_ok e r'"
  by (induction rule: wait_step.induct) (auto simp: worker_ok_def needed_def)

lemma store_ok_step: "wait_step tok torn e r r' \<Longrightarrow> store_ok calm e r \<Longrightarrow> store_ok calm e r'"
proof (induction rule: wait_step.induct)
  case (emit_result r b st w)
  then show ?case using emit_result_effects(1,2) [OF emit_result(2)] by (auto simp: store_ok_def)
next
  case (emit_finished r w)
  then show ?case using emit_finished_effects(1) by (auto simp: store_ok_def)
next
  case (ask_result r g w)
  then show ?case using get_result_effects(4) [OF ask_result(3)] by (auto simp: store_ok_def)
qed (auto simp: store_ok_def)


lemma signal_ok_step: "wait_step tok torn e r r' \<Longrightarrow> worker_ok e r \<Longrightarrow> signal_ok e r \<Longrightarrow> signal_ok e r'"
proof (induction rule: wait_step.induct)
  case (emit_result r b st w)
  then show ?case by (simp add: signal_ok_def emit_result_effects(3) [OF emit_result(2)])
next
  case (emit_finished r w)
  have "MarkCompleted \<in> wa_did r" using emit_finished(1) by (simp add: needed_def)
  moreover have "cw_signals w = cw_signals (wa_world r) \<or>
      cw_signals w = cw_signals (wa_world r) @ [Finished (oe_status e) (oe_code e) (oe_key e) (oe_fallback e)]"
    using emit_finished_effects(2) emit_finished(3) by blast
  ultimately show ?case using emit_finished(5) by (auto simp: signal_ok_def)
next
  case (hear_finished r f fs)
  then show ?case by (simp add: signal_ok_def)
next
  case (ask_completed r)
  then show ?case by (auto simp: signal_ok_def worker_ok_def op_completed_def op_object_def)
next
  case (ask_result r g w)
  then show ?case by (simp add: signal_ok_def get_result_effects(3) [OF ask_result(3)])
qed (auto simp: signal_ok_def)

lemma told_grows: "told e r \<Longrightarrow> wa_did r \<subseteq> wa_did r' \<Longrightarrow> wa_seen r' = wa_seen r \<Longrightarrow> told e r'"
  by (auto simp: told_def)

lemma read_kept:
  assumes "read_ok_so_far tok calm e r" "wa_did r \<subseteq> wa_did r'" "wa_seen r' = wa_seen r" "wa_pc r' = wa_pc r"
  shows "read_ok_so_far tok calm e r'"
proof -
  have "told e r \<Longrightarrow> told e r'" using told_grows assms(2,3) by blast
  moreover have "collected tok calm e r' = collected tok calm e r" by (simp add: collected_def assms(3))
  ultimately show ?thesis using assms by (cases "wa_pc r") (auto simp: read_ok_so_far_def)
qed

lemma read_ok_step:
  "wait_step tok torn e r r' \<Longrightarrow> worker_ok e r \<Longrightarrow> store_ok calm e r \<Longrightarrow> signal_ok e r \<Longrightarrow> read_ok_so_far tok calm e r \<Longrightarrow>
     read_ok_so_far tok calm e r'"
proof (induction rule: wait_step.induct)
  case (emit_result r b st w)
  from emit_result(6) show ?case by (rule read_kept) auto
next
  case (store_status r)
  from store_status(4) show ?case by (rule read_kept) auto
next
  case (store_code r)
  from store_code(4) show ?case by (rule read_kept) auto
next
  case (mark_completed r)
  from mark_completed(5) show ?case by (rule read_kept) auto
next
  case (emit_finished r w)
  from emit_finished(7) show ?case by (rule read_kept) auto
next
  case (hear_finished r f fs)
  from hear_finished(5) show ?case by (rule read_kept) auto
next
  case (arm r)
  then show ?case by (simp add: read_ok_so_far_def)
next
  case (ask_completed r)
  then show ?case by (auto simp: read_ok_so_far_def worker_ok_def op_completed_def op_object_def)
next
  case (ask_status r)
  then show ?case by (auto simp: read_ok_so_far_def worker_ok_def needed_def terminalStatus_def op_object_def)
next
  case (ask_code r)
  then show ?case by (auto simp: read_ok_so_far_def worker_ok_def needed_def terminalErrorCode_def op_object_def told_def)
next
  case (waited r f)
  then have "f = (oe_status e, oe_code e, oe_fallback e)" "MarkCompleted \<in> wa_did r" by (simp_all add: signal_ok_def)
  with waited show ?case by (auto simp: read_ok_so_far_def told_def)
next
  case (timed_out r)
  then show ?case by (simp add: read_ok_so_far_def)
next
  case (not_ok r)
  then have "told e r" by (simp add: read_ok_so_far_def)
  with not_ok(2) have "oe_status e \<noteq> 0" by (auto simp: told_def judged_status_def)
  with not_ok \<open>told e r\<close> show ?case by (simp add: read_ok_so_far_def collected_def told_def)
next
  case (ask_result r g w)
  then have t: "told e r" by (simp add: read_ok_so_far_def)
  then have "oe_status e = 0 \<Longrightarrow> EmitResult \<in> wa_did r" using ask_result(4) by (auto simp: told_def worker_ok_def needed_def)
  moreover have "told e (r\<lparr>wa_pc := Ended, wa_world := w, wa_seen := (wa_seen r)\<lparr>rb_result := reply_of g\<rparr>\<rparr>)"
    using t by (simp add: told_def)
  moreover have "reply_of g = Inr cs \<Longrightarrow> cs = buildCertificates1Wire tok (oe_certs e)" for cs
    using get_result_effects(1) [OF ask_result(3)] ask_result(5) by (auto simp: store_ok_def)
  moreover have "calm \<Longrightarrow> EmitResult \<in> wa_did r \<Longrightarrow> \<exists>cs. reply_of g = Inr cs"
    using get_result_effects(2) [OF ask_result(3)] ask_result(5) by (auto simp: store_ok_def)
  ultimately show ?case using ask_result(7)
    by (cases "reply_of g") (auto simp: read_ok_so_far_def collected_def)
qed

lemma wait_inv:
  assumes "wait_reach tok torn e (wait_start path unset emits w) r"
  shows "worker_ok e r \<and> store_ok (smooth w) e r \<and> signal_ok e r \<and> read_ok_so_far tok (smooth w) e r"
  using assms
proof (induction rule: wait_reach.induct)
  case wait_begin
  show ?case
    by (simp add: wait_start_def worker_ok_def store_ok_def signal_ok_def read_ok_so_far_def unpublished_def)
next
  case (wait_next r r')
  then have at_r: "worker_ok e r" "store_ok (smooth w) e r" "signal_ok e r" "read_ok_so_far tok (smooth w) e r" by blast+
  from worker_ok_step [OF wait_next(2) at_r(1)] store_ok_step [OF wait_next(2) at_r(2)]
    signal_ok_step [OF wait_next(2) at_r(1,3)] read_ok_step [OF wait_next(2) at_r]
  show ?case by blast
qed

text \<open>
  C7: a certificate read is never missed and never misread. However the worker's last steps and
  the module's are interleaved, a read that has ended carries the operation's own status and code
  and, when that is success, exactly the certificates it published, or the failure of a call when an
  allocation failed; only a wait in which nothing was heard times out; and the module never waits
  for a \<^verbatim>\<open>Finished\<close> that has already gone by: if it went out, it was heard or is on its way.
\<close>

theorem certificate_read_never_missed:
  assumes "wait_reach tok torn e (wait_start path unset emits w) r"
  shows "(wa_pc r = Ended \<longrightarrow>
      (case fst (readCertificates (wa_seen r)) of
         Inl _ \<Rightarrow> oe_status e = 0 \<and> True \<in> set (sw_allocs w)
       | Inr read \<Rightarrow>
           (if rd_timedOut read then rb_finished (wa_seen r) = None
            else rd_status read = oe_status e \<and> rd_errorCode read = oe_code e \<and>
              (if oe_status e = 0 then rd_certificates read = buildCertificates1Wire tok (oe_certs e) else rd_certificates read = [])))) \<and>
    (wa_pc r = Waiting \<longrightarrow> Finished s c k f \<in> set (cw_signals (wa_world r)) \<longrightarrow> wa_heard r \<noteq> None \<or> wa_bus r \<noteq> [])"
proof -
  have inv: "signal_ok e r" "read_ok_so_far tok (smooth w) e r" using wait_inv [OF assms] by blast+
  show ?thesis
  proof (intro conjI impI)
    assume "wa_pc r = Ended"
    with inv(2) obtain path' where call: "rb_call (wa_seen r) = Inr path'"
      and how: "rb_completed (wa_seen r) = Inr False \<and> rb_finished (wa_seen r) = None \<or> told e r \<and> collected tok (smooth w) e r"
      by (auto simp: read_ok_so_far_def)
    from how show "case fst (readCertificates (wa_seen r)) of
         Inl _ \<Rightarrow> oe_status e = 0 \<and> True \<in> set (sw_allocs w)
       | Inr read \<Rightarrow>
           (if rd_timedOut read then rb_finished (wa_seen r) = None
            else rd_status read = oe_status e \<and> rd_errorCode read = oe_code e \<and>
              (if oe_status e = 0 then rd_certificates read = buildCertificates1Wire tok (oe_certs e) else rd_certificates read = []))"
      using call by (cases "rb_result (wa_seen r)") (auto simp: readCertificates_def told_def collected_def Let_def)
  next
    assume "wa_pc r = Waiting" "Finished s c k f \<in> set (cw_signals (wa_world r))"
    with inv(1) show "wa_heard r \<noteq> None \<or> wa_bus r \<noteq> []" unfolding signal_ok_def by blast
  qed
qed


text \<open>A read that the agent ended before the module could subscribe, followed to its end.\<close>

definition cached_read :: "bool op_end" where
  "cached_read = \<lparr>oe_status = 0, oe_code = 0, oe_key = [], oe_fallback = [], oe_certs = [sample_cert_snapshot]\<rparr>"

definition cached_world :: chan_world where
  "cached_world = quiet_world\<lparr>cw_emits := [], cw_signals := []\<rparr>"

definition cached_signals :: "signal list" where
  "cached_signals = [CertificatesResult (buildCertificates1Wire two_key_token [sample_cert_snapshot]), Finished 0 0 [] []]"

definition cached_ended :: "read_pc \<Rightarrow> bool \<Rightarrow> read_bus \<Rightarrow> bool wait_state" where
  "cached_ended pc armed seen =
     \<lparr>wa_did = {EmitResult, StoreStatus, StoreCode, MarkCompleted, EmitFinished},
      wa_state = \<lparr>os_phase = 0, os_completed = True, os_terminalStatus = 0, os_terminalErrorCode = 0\<rparr>,
      wa_store = \<lparr>rs_ready = True, rs_payload = [sample_cert_snapshot]\<rparr>, wa_world = cached_world\<lparr>cw_signals := cached_signals\<rparr>,
      wa_armed = armed, wa_bus = [], wa_heard = None, wa_pc = pc, wa_seen = seen\<rparr>"

abbreviation cached_reach :: "bool wait_state \<Rightarrow> bool" where
  "cached_reach r \<equiv> wait_reach two_key_token (\<lambda>a b. a) cached_read (wait_start ''/op'' [] [] quiet_world) r"

definition nothing_seen :: read_bus where
  "nothing_seen = \<lparr>rb_call = Inr ''/op'', rb_completed = Inr False, rb_status = Inr 0, rb_errorCode = Inr 0, rb_finished = None, rb_result = Inr []\<rparr>"

lemma cached_agent_side: "cached_reach (cached_ended Arming False nothing_seen)"
proof -
  let ?S = "wait_step two_key_token (\<lambda>a b. a) cached_read"
  let ?r0 = "wait_start ''/op'' [] [] quiet_world :: bool wait_state"
  let ?r1 = "?r0\<lparr>wa_did := {EmitResult}, wa_store := \<lparr>rs_ready = True, rs_payload = [sample_cert_snapshot]\<rparr>,
      wa_world := cached_world\<lparr>cw_signals := [CertificatesResult (buildCertificates1Wire two_key_token [sample_cert_snapshot])]\<rparr>\<rparr>"
  have "certificates_emitResult two_key_token (\<lambda>a b. a) (wa_store ?r0) (CertificatesPayload (oe_certs cached_read)) (wa_world ?r0) =
      (True, wa_store ?r1, wa_world ?r1)"
    by (simp add: certificates_emitResult_def publishResult_def throws_alloc_def emitCertificates1Result_def send_nx_def send_def
        wait_start_def cached_read_def cached_world_def quiet_world_def unpublished_def)
  from emit_result [OF _ this] have s1: "?S ?r0 ?r1" by (simp add: wait_start_def)
  let ?r2 = "?r1\<lparr>wa_did := {StoreStatus, EmitResult}\<rparr>" and ?r3 = "?r1\<lparr>wa_did := {StoreCode, StoreStatus, EmitResult}\<rparr>"
  let ?r4 = "?r3\<lparr>wa_did := {MarkCompleted, StoreCode, StoreStatus, EmitResult}, wa_state := (wa_state ?r0)\<lparr>os_completed := True\<rparr>\<rparr>"
  have s2: "?S ?r1 ?r2" using store_status [of two_key_token _ cached_read ?r1] by (simp add: wait_start_def cached_read_def)
  have s3: "?S ?r2 ?r3" using store_code [of two_key_token _ cached_read ?r2] by (simp add: wait_start_def cached_read_def)
  have s4: "?S ?r3 ?r4"
    using mark_completed [of cached_read ?r3 two_key_token] by (simp add: wait_start_def needed_def)
  have "channel_emitFinished 0 0 [] [] (wa_world ?r4) = cached_world\<lparr>cw_signals := cached_signals\<rparr>"
    by (simp add: channel_emitFinished_def emitFinishedNx_def send_nx_def send_def cached_world_def cached_signals_def quiet_world_def)
  then have s5: "?S ?r4 (cached_ended Arming False nothing_seen)"
    using emit_finished [of cached_read ?r4, OF _ _ refl, of two_key_token "\<lambda>a b. a"]
    by (simp add: needed_def cached_read_def wait_start_def cached_ended_def nothing_seen_def insert_commute)
  from wait_next [OF wait_next [OF wait_next [OF wait_next [OF wait_next [OF wait_begin s1] s2] s3] s4] s5] show ?thesis .
qed

lemma cached_module_side:
  "\<exists>seen. cached_reach (cached_ended Ended True seen) \<and> rb_completed seen = Inr True \<and> rb_status seen = Inr 0 \<and>
     rb_errorCode seen = Inr 0 \<and> rb_call seen = Inr ''/op'' \<and> rb_result seen = Inr (buildCertificates1Wire two_key_token [sample_cert_snapshot])"
proof -
  let ?b1 = "nothing_seen\<lparr>rb_completed := Inr True\<rparr>"
  let ?b4 = "?b1\<lparr>rb_result := Inr (buildCertificates1Wire two_key_token [sample_cert_snapshot])\<rparr>"
  have s1: "wait_step two_key_token (\<lambda>a b. a) cached_read (cached_ended Arming False nothing_seen) (cached_ended AskingCompleted True nothing_seen)"
    using arm [of "cached_ended Arming False nothing_seen" two_key_token] by (simp add: cached_ended_def)
  have s2: "wait_step two_key_token (\<lambda>a b. a) cached_read (cached_ended AskingCompleted True nothing_seen) (cached_ended AskingStatus True ?b1)"
    using ask_completed [of "cached_ended AskingCompleted True nothing_seen" two_key_token]
    by (simp add: cached_ended_def op_completed_def op_object_def)
  have s3: "wait_step two_key_token (\<lambda>a b. a) cached_read (cached_ended AskingStatus True ?b1) (cached_ended AskingCode True ?b1)"
    using ask_status [of "cached_ended AskingStatus True ?b1" two_key_token]
    by (simp add: cached_ended_def terminalStatus_def op_object_def nothing_seen_def)
  have s4: "wait_step two_key_token (\<lambda>a b. a) cached_read (cached_ended AskingCode True ?b1) (cached_ended AskingResult True ?b1)"
    using ask_code [of "cached_ended AskingCode True ?b1" two_key_token]
    by (simp add: cached_ended_def terminalErrorCode_def op_object_def nothing_seen_def)
  have "certificates_GetResult two_key_token (Some \<lparr>rs_ready = True, rs_payload = [sample_cert_snapshot]\<rparr>)
      (cached_world\<lparr>cw_signals := cached_signals\<rparr>) =
      (Answer (buildCertificates1Wire two_key_token [sample_cert_snapshot]), cached_world\<lparr>cw_signals := cached_signals\<rparr>)"
    by (simp add: certificates_GetResult_def readStoredResult_def throws_alloc_def cached_world_def quiet_world_def)
  then have s5: "wait_step two_key_token (\<lambda>a b. a) cached_read (cached_ended AskingResult True ?b1) (cached_ended Ended True ?b4)"
    using ask_result [of "cached_ended AskingResult True ?b1" two_key_token
        "Answer (buildCertificates1Wire two_key_token [sample_cert_snapshot])" "cached_world\<lparr>cw_signals := cached_signals\<rparr>"]
    by (simp add: cached_ended_def judged_status_def nothing_seen_def reply_of_def)
  from wait_next [OF wait_next [OF wait_next [OF wait_next [OF wait_next [OF cached_agent_side s1] s2] s3] s4] s5]
  have "cached_reach (cached_ended Ended True ?b4)" .
  then show ?thesis by (intro exI [of _ ?b4]) (simp add: nothing_seen_def)
qed

theorem certificate_read_never_missed_witness:
  "\<exists>r read. cached_reach r \<and> fst (readCertificates (wa_seen r)) = Inr read \<and> rd_status read = 0 \<and>
     rd_certificates read = buildCertificates1Wire two_key_token [sample_cert_snapshot]"
proof -
  from cached_module_side obtain seen where reach: "cached_reach (cached_ended Ended True seen)"
    and seen: "rb_completed seen = Inr True" "rb_status seen = Inr 0" "rb_errorCode seen = Inr 0" "rb_call seen = Inr ''/op''"
      "rb_result seen = Inr (buildCertificates1Wire two_key_token [sample_cert_snapshot])"
    by blast
  have w: "wa_pc (cached_ended Ended True seen) = Ended" "wa_seen (cached_ended Ended True seen) = seen" by (simp_all add: cached_ended_def)
  obtain read where read: "fst (readCertificates seen) = Inr read" "\<not> rd_timedOut read"
    using seen by (simp add: readCertificates_def Let_def)
  with certificate_read_never_missed [OF reach, of 0 0 "[]" "[]"] have "rd_status read = 0 \<and>
      rd_certificates read = buildCertificates1Wire two_key_token [sample_cert_snapshot]"
    by (simp add: w cached_read_def)
  with reach read(1) w(2) show ?thesis by metis
qed

end
