(* ===== verification/Prompter_Main.thy ===== *)
theory Prompter_Main
  imports LL_Prelude
begin

text \<open>
  The prompter's process (\<^verbatim>\<open>prompter/src/main.cpp\<close>): what it sets before the first secret can reach it,
  the bus connection, the name and the exported object it needs, and the order in which it gives
  them up. The state is what the kernel, Qt and the bus hold of the process; every step is recorded,
  so that what holds at each moment can be stated. What the service does with a call is in
  \<^verbatim>\<open>Prompter_Service\<close>.
\<close>

datatype caught = SdbusError | StdException | OtherThrow

record process =
  pp_dumpable :: bool
  pp_app :: bool
  pp_quitOnLastWindow :: bool
  pp_title :: string
  pp_connected :: bool
  pp_owned :: bool
  pp_exported :: bool
  pp_dispatching :: bool

definition process_start :: process where
  "process_start =
     \<lparr>pp_dumpable = True, pp_app = False, pp_quitOnLastWindow = True, pp_title = [], pp_connected = False, pp_owned = False,
      pp_exported = False, pp_dispatching = False\<rparr>"

text \<open>What the main loop is told; Qt ends it with status 0 when the last window closes, if it may.\<close>

datatype app_event = LastWindowClosed | QuitRequested int | OtherEvent

primrec app_exec :: "bool \<Rightarrow> app_event list \<Rightarrow> int option" where
  "app_exec quitOnLast [] = None"
| "app_exec quitOnLast (e # es) =
     (case e of
        LastWindowClosed \<Rightarrow> if quitOnLast then Some 0 else app_exec quitOnLast es
      | QuitRequested rc \<Rightarrow> Some rc
      | OtherEvent \<Rightarrow> app_exec quitOnLast es)"

record main_env =
  mn_bus :: "caught option"
  mn_name :: "caught option"
  mn_export :: "caught option"
  mn_events :: "app_event list"
  mn_release :: "caught option"

datatype main_end = MainReturned int | Terminated | Running

text \<open>The state after each step, latest last.\<close>

type_synonym run = "main_end \<times> process list"

definition at_start :: "process list" where
  "at_start =
     (let p0 = process_start;
          p1 = p0\<lparr>pp_dumpable := False\<rparr>;
          p2 = p1\<lparr>pp_app := True\<rparr>;
          p3 = p2\<lparr>pp_quitOnLastWindow := False\<rparr>;
          p4 = p3\<lparr>pp_title := ''LibreSCRS''\<rparr> in
      [p0, p1, p2, p3, p4])"

text \<open>An early return destroys what there is: the connection goes, and with it the name.\<close>

definition disconnected :: "process \<Rightarrow> process" where
  "disconnected p = p\<lparr>pp_connected := False, pp_owned := False, pp_exported := False, pp_dispatching := False\<rparr>"

definition teardown :: "main_env \<Rightarrow> process \<Rightarrow> process list" where
  "teardown E p =
     (let p1 = p\<lparr>pp_dispatching := False\<rparr>;
          p2 = p1\<lparr>pp_exported := False\<rparr>;
          p3 = (case mn_release E of None \<Rightarrow> p2\<lparr>pp_owned := False\<rparr> | Some _ \<Rightarrow> p2) in
      [p1, p2, p3, disconnected p3])"

definition serve :: "main_env \<Rightarrow> process list \<Rightarrow> run" where
  "serve E ps =
     (let p = (last ps)\<lparr>pp_dispatching := True\<rparr>; ps = ps @ [p] in
      case app_exec (pp_quitOnLastWindow p) (mn_events E) of
        None \<Rightarrow> (Running, ps)
      | Some rc \<Rightarrow> (MainReturned rc, ps @ teardown E p))"

definition prompter_main :: "main_env \<Rightarrow> run" where
  "prompter_main E =
     (let ps = at_start; p = last ps in
      case mn_bus E of
        Some SdbusError \<Rightarrow> (MainReturned 1, ps)
      | Some _ \<Rightarrow> (Terminated, ps)
      | None \<Rightarrow>
          let p = p\<lparr>pp_connected := True\<rparr>; ps = ps @ [p] in
          (case mn_name E of
             Some SdbusError \<Rightarrow> (MainReturned 1, ps @ [disconnected p])
           | Some _ \<Rightarrow> (Terminated, ps)
           | None \<Rightarrow>
               let p = p\<lparr>pp_owned := True\<rparr>; ps = ps @ [p] in
               (case mn_export E of
                  Some OtherThrow \<Rightarrow> (Terminated, ps)
                | Some _ \<Rightarrow> (MainReturned 1, ps @ [disconnected p])
                | None \<Rightarrow> serve E (ps @ [p\<lparr>pp_exported := True\<rparr>]))))"

subsection \<open>Properties\<close>

text \<open>The process may be handed a secret: calls are dispatched to it.\<close>

definition safe_to_serve :: "process \<Rightarrow> bool" where
  "safe_to_serve p \<longleftrightarrow> \<not> pp_dumpable p \<and> pp_app p \<and> \<not> pp_quitOnLastWindow p \<and> pp_connected p \<and> pp_owned p \<and> pp_exported p"

lemma resident: "app_exec False es = Some rc \<Longrightarrow> QuitRequested rc \<in> set es"
  by (induction es) (auto split: app_event.splits)

lemma outlives_windows: "set es \<subseteq> {LastWindowClosed, OtherEvent} \<Longrightarrow> app_exec False es = None"
  by (induction es) (auto split: app_event.splits)

lemma at_start_states: "list_all (\<lambda>p. \<not> pp_dispatching p) at_start" "last at_start = process_start
  \<lparr>pp_dumpable := False, pp_app := True, pp_quitOnLastWindow := False, pp_title := ''LibreSCRS''\<rparr>"
  by (simp_all add: at_start_def process_start_def Let_def)

lemma teardown_states:
  "list_all (\<lambda>p. \<not> pp_dispatching p) (teardown E p)"
  "last (teardown E p) = disconnected (last (butlast (teardown E p)))"
  by (simp_all add: teardown_def disconnected_def Let_def split: option.splits)

text \<open>
  No call reaches an unprotected prompter. At every moment at which calls are dispatched the
  process can neither be dumped nor traced, its name and object are on the bus, and closing a
  dialog does not end it; whenever main returns, nothing is dispatched, exported or owned any more.
  It returns 1 exactly when the bus, the name or the object could not be had; otherwise only a
  request to quit ends it, with the status that request gave.
\<close>

theorem prompter_serves_protected:
  "list_all (\<lambda>p. pp_dispatching p \<longrightarrow> safe_to_serve p) (snd (prompter_main E)) \<and>
   (case fst (prompter_main E) of
      Running \<Rightarrow> True
    | Terminated \<Rightarrow> \<not> pp_dispatching (last (snd (prompter_main E)))
    | MainReturned rc \<Rightarrow>
        (let p = last (snd (prompter_main E)) in \<not> pp_dispatching p \<and> \<not> pp_exported p \<and> \<not> pp_owned p) \<and>
        (if mn_bus E = None \<and> mn_name E = None \<and> mn_export E = None then QuitRequested rc \<in> set (mn_events E) else rc = 1))"
  by (auto simp: prompter_main_def serve_def teardown_def disconnected_def at_start_def process_start_def safe_to_serve_def Let_def
      dest: resident split: option.splits caught.splits)

text \<open>Dialogs come and go without ending the service.\<close>

lemma prompter_outlives_dialogs:
  assumes "mn_bus E = None" "mn_name E = None" "mn_export E = None" "set (mn_events E) \<subseteq> {LastWindowClosed, OtherEvent}"
  shows "fst (prompter_main E) = Running \<and> pp_dispatching (last (snd (prompter_main E)))"
  using assms outlives_windows [OF assms(4)]
  by (simp add: prompter_main_def serve_def at_start_def process_start_def Let_def)


theorem prompter_serves_protected_witness:
  "fst (prompter_main \<lparr>mn_bus = None, mn_name = None, mn_export = None, mn_events = [LastWindowClosed, QuitRequested 3],
       mn_release = None\<rparr>) = MainReturned 3 \<and>
   list_all (\<lambda>p. pp_dispatching p \<longrightarrow> safe_to_serve p)
     (snd (prompter_main \<lparr>mn_bus = None, mn_name = None, mn_export = None, mn_events = [LastWindowClosed, QuitRequested 3],
       mn_release = None\<rparr>))"
proof -
  let ?E = "\<lparr>mn_bus = None, mn_name = None, mn_export = None, mn_events = [LastWindowClosed, QuitRequested 3], mn_release = None\<rparr>"
  have "fst (prompter_main ?E) = MainReturned 3"
    by (simp add: prompter_main_def serve_def at_start_def process_start_def Let_def)
  with prompter_serves_protected [of ?E] show ?thesis by simp
qed

end
