(* ===== verification/E2e_Prompter.thy ===== *)
theory E2e_Prompter
  imports Prompter_Client
begin

text \<open>
  The headless prompter of the hardware runs (\<^verbatim>\<open>e2e/auto-prompter.cpp\<close>) and the program that checks
  its hand-over (\<^verbatim>\<open>e2e/validate-prompter.cpp\<close>): a second implementation of the Prompter1 interface,
  which answers from the environment and only while a gate file exists. A process has an environment
  and a file system; what is written to the error stream is not kept, apart from the reason given
  for a decision.
\<close>

unbundle bit_operations_syntax

subsection \<open>The headless prompter\<close>

type_synonym environ = "string \<rightharpoonup> string"

definition kDefaultGate :: string where "kDefaultGate = ''/tmp/librescrs-e2e/prompt.gate''"

definition gatePath :: "environ \<Rightarrow> string" where
  "gatePath env = (case env ''LIBRESCRS_PROMPTER_GATE'' of Some g \<Rightarrow> if g \<noteq> [] then g else kDefaultGate | None \<Rightarrow> kDefaultGate)"

definition gateOpen :: "environ \<Rightarrow> string set \<Rightarrow> bool" where
  "gateOpen env existing \<longleftrightarrow> gatePath env \<in> existing"

definition envKeyFor :: "wire_lib \<Rightarrow> string \<Rightarrow> string option" where
  "envKeyFor W knd =
     (if knd = kKindPin W then Some ''LIBRESCRS_SIGN_PIN''
      else if knd = kKindCan W then Some ''LIBRESCRS_CAN''
      else if knd = kKindMrz W then Some ''LIBRESCRS_MRZ''
      else None)"

definition altKindsOffer :: "options_dict \<Rightarrow> string \<Rightarrow> bool" where
  "altKindsOffer opts knd =
     (case smap_find opts kOptAltKinds of
        None \<Rightarrow> False
      | Some v \<Rightarrow> (case get_strings v of None \<Rightarrow> False | Some offered \<Rightarrow> index_of (\<lambda>k. k = knd) offered \<noteq> None))"

definition mrzSwitchRequested :: "environ \<Rightarrow> bool" where
  "mrzSwitchRequested env \<longleftrightarrow> env ''LIBRESCRS_FORCE_MRZ'' = Some ''1''"

definition octets :: "string \<Rightarrow> bytes" where
  "octets s = map of_char s"

definition sealedFd :: "create_env \<Rightarrow> string \<Rightarrow> fdtable \<Rightarrow> (int \<times> fdtable) option" where
  "sealedFd cenv s t =
     (case makeSealedMemfd cenv ''librescrs-e2e-secret'' (octets s) t of None \<Rightarrow> None | Some ((fd, _), t) \<Rightarrow> Some (fd, t))"

text \<open>A reply: the status word, the descriptor, the user message, and the reason that was logged.\<close>

type_synonym secret_reply = "string \<times> int \<times> string \<times> string"

definition secret_reply ::
  "wire_lib \<Rightarrow> create_env \<Rightarrow> reply_status \<Rightarrow> string \<Rightarrow> string \<Rightarrow> fdtable \<Rightarrow> (secret_reply \<times> fdtable) option" where
  "secret_reply W cenv st s reason t =
     (case sealedFd cenv s t of None \<Rightarrow> None | Some (fd, t) \<Rightarrow> Some ((replyStatusToken W st, fd, [], reason), t))"

definition buildSecretReply ::
  "wire_lib \<Rightarrow> environ \<Rightarrow> string set \<Rightarrow> create_env \<Rightarrow> string \<Rightarrow> options_dict \<Rightarrow> fdtable \<Rightarrow> (secret_reply \<times> fdtable) option" where
  "buildSecretReply W env existing cenv knd opts t =
     (if \<not> gateOpen env existing then secret_reply W cenv RsCancelled [] ''no-gate'' t
      else if knd = kKindCan W \<and> mrzSwitchRequested env \<and> altKindsOffer opts (kKindMrz W)
      then (case env ''LIBRESCRS_MRZ'' of
              None \<Rightarrow> secret_reply W cenv RsCancelled [] ''env-unset'' t
            | Some mrz \<Rightarrow> secret_reply W cenv RsOkMrz mrz ''alt-kind-mrz'' t)
      else case envKeyFor W knd of
             None \<Rightarrow> secret_reply W cenv RsCancelled [] ''unknown-kind'' t
           | Some key \<Rightarrow>
               (case env key of
                  None \<Rightarrow> secret_reply W cenv RsCancelled [] ''env-unset'' t
                | Some secret \<Rightarrow> secret_reply W cenv RsOk secret [] t))"

type_synonym secrets_reply = "string \<times> int \<times> int \<times> string \<times> string"

definition secrets_reply ::
  "wire_lib \<Rightarrow> create_env \<Rightarrow> create_env \<Rightarrow> reply_status \<Rightarrow> string \<Rightarrow> string \<Rightarrow> string \<Rightarrow> fdtable \<Rightarrow>
     (secrets_reply \<times> fdtable) option" where
  "secrets_reply W cenv1 cenv2 st s1 s2 reason t =
     (case sealedFd cenv1 s1 t of
        None \<Rightarrow> None
      | Some (fd1, t) \<Rightarrow>
          (case sealedFd cenv2 s2 t of
             None \<Rightarrow> None
           | Some (fd2, t) \<Rightarrow> Some ((replyStatusToken W st, fd1, fd2, [], reason), t)))"

definition buildSecretsReply ::
  "wire_lib \<Rightarrow> environ \<Rightarrow> string set \<Rightarrow> create_env \<Rightarrow> create_env \<Rightarrow> string \<Rightarrow> fdtable \<Rightarrow> (secrets_reply \<times> fdtable) option" where
  "buildSecretsReply W env existing cenv1 cenv2 knd t =
     (let refuse = (\<lambda>reason. secrets_reply W cenv1 cenv2 RsCancelled [] [] reason t) in
      if \<not> gateOpen env existing then refuse ''no-gate''
      else if knd \<noteq> kKindChangePin W then refuse ''unknown-kind''
      else case (env ''LIBRESCRS_SIGN_PIN'', env ''LIBRESCRS_NEW_PIN'') of
             (Some current, Some replacement) \<Rightarrow> secrets_reply W cenv1 cenv2 RsOk current replacement [] t
           | _ \<Rightarrow> refuse ''env-unset'')"

definition AutoPrompter_ProtocolVersion :: u32 where
  "AutoPrompter_ProtocolVersion = kProtocolVersion"

text \<open>
  What the caller gets. The wire encoder cannot send -1: the call then fails with an error of the
  bus library, \<open>refused\<close>.
\<close>

definition delivered :: "string \<times> string \<Rightarrow> secret_reply \<times> fdtable \<Rightarrow> (string \<times> fd_view \<times> string) outcome" where
  "delivered refused rt =
     (case rt of ((st, fd, msg, _), t) \<Rightarrow>
        (case (if fd < 0 then None else t (nat fd)) of
           None \<Rightarrow> BusError (fst refused) (snd refused)
         | Some f \<Rightarrow> Returned (st, view_of f, msg)))"

definition delivered2 ::
  "string \<times> string \<Rightarrow> secrets_reply \<times> fdtable \<Rightarrow> (string \<times> fd_view \<times> fd_view \<times> string) outcome" where
  "delivered2 refused rt =
     (case rt of ((st, fd1, fd2, msg, _), t) \<Rightarrow>
        (case (if fd1 < 0 then None else t (nat fd1), if fd2 < 0 then None else t (nat fd2)) of
           (Some f1, Some f2) \<Rightarrow> Returned (st, view_of f1, view_of f2, msg)
         | _ \<Rightarrow> BusError (fst refused) (snd refused)))"

subsection \<open>The validator\<close>

text \<open>
  \<^verbatim>\<open>readAll\<close>: the filled part of the buffer is \<open>out\<close>. Any failure of \<^verbatim>\<open>pread\<close> ends it. \<^const>\<open>None\<close>
  when the script of transfers ends before the loop does.
\<close>

primrec readAll_loop :: "transfer list \<Rightarrow> bytes \<Rightarrow> nat \<Rightarrow> bytes \<Rightarrow> bytes option" where
  "readAll_loop [] data len out = (if length out < len then None else Some out)"
| "readAll_loop (r # rs) data len out =
     (if length out < len then
        (case r of
           Failed e \<Rightarrow> Some out
         | Moved n \<Rightarrow>
             let k = min n (min (len - length out) (length data - length out)) in
             if k = 0 then Some out else readAll_loop rs data len (out @ take k (drop (length out) data)))
      else Some out)"

definition kExpectedSeals :: u32 where
  "kExpectedSeals = F_SEAL_SHRINK OR F_SEAL_GROW OR F_SEAL_WRITE"

text \<open>The checks of the two tests, in order; the first test closes the gate, the second opens it.\<close>

definition testA :: "string \<times> fd_view \<times> string \<Rightarrow> bool list" where
  "testA reply =
     (case reply of (status, fd, msg) \<Rightarrow>
        [status = ''cancelled'', fv_valid fd \<and> (case fv_size fd of Inl _ \<Rightarrow> False | Inr sz \<Rightarrow> sz = 0)])"

definition testB :: "reader_lib \<Rightarrow> transfer list \<Rightarrow> string \<Rightarrow> string \<times> fd_view \<times> string \<Rightarrow> bool list option" where
  "testB L preads expectedPin reply =
     (case reply of (status, fd, msg) \<Rightarrow>
        let answered = [status = ''ok'', msg = []] in
        if \<not> fv_valid fd then Some (answered @ [False])
        else
          let statOk = (case fv_size fd of Inl _ \<Rightarrow> False | Inr _ \<Rightarrow> True);
              size1 = (case fv_size fd of Inl _ \<Rightarrow> None | Inr sz \<Rightarrow> if sz \<ge> 0 then Some (nat sz) else None);
              seals = (case fv_seals fd of Inl _ \<Rightarrow> - 1 | Inr s \<Rightarrow> s) in
          (case readAll_loop preads (fv_data fd) (case size1 of None \<Rightarrow> 0 | Some n \<Rightarrow> n) [] of
             None \<Rightarrow> None
           | Some got \<Rightarrow>
               Some (answered @
                 [statOk, (case size1 of None \<Rightarrow> False | Some n \<Rightarrow> n \<le> kMaxSecretBytes L), size1 = Some (length expectedPin),
                  got = octets expectedPin, 0 \<le> sint seals, seals = kExpectedSeals, seals AND F_SEAL_SEAL = 0])))"

datatype verdict = Exit int | Aborted

text \<open>
  \<^verbatim>\<open>main\<close>: \<open>conn\<close> is what opening the bus answered (false for a null connection), \<open>ask1\<close> and \<open>ask2\<close> the two
  calls, as the files are when they are made. An exception nothing catches ends the process.
\<close>

definition validate_main ::
  "reader_lib \<Rightarrow> environ \<Rightarrow> string option \<Rightarrow> bool outcome \<Rightarrow>
     (string set \<Rightarrow> (string \<times> fd_view \<times> string) outcome option) \<Rightarrow> (string set \<Rightarrow> (string \<times> fd_view \<times> string) outcome option) \<Rightarrow>
     bool \<Rightarrow> transfer list \<Rightarrow> string set \<Rightarrow> (verdict \<times> string set) option" where
  "validate_main L env arg conn ask1 ask2 creatable preads existing =
     (let expectedPin = (case arg of Some a \<Rightarrow> a | None \<Rightarrow> ''contract-probe-not-a-pin''); gate = gatePath env in
      case conn of
        Returned True \<Rightarrow>
          let existing = existing - {gate} in
          (case ask1 existing of
             None \<Rightarrow> None
           | Some (Returned replyA) \<Rightarrow>
               let existing = (if creatable then insert gate existing else existing) in
               (case ask2 existing of
                  None \<Rightarrow> None
                | Some (Returned replyB) \<Rightarrow>
                    (case testB L preads expectedPin replyB of
                       None \<Rightarrow> None
                     | Some checks \<Rightarrow>
                         Some (Exit (if list_all id (testA replyA @ checks) then 0 else 1), existing - {gate}))
                | Some _ \<Rightarrow> Some (Aborted, existing))
           | Some _ \<Rightarrow> Some (Aborted, existing))
      | Returned False \<Rightarrow> Some (Exit 2, existing)
      | _ \<Rightarrow> Some (Aborted, existing))"

text \<open>The headless prompter's own \<^verbatim>\<open>main\<close>: bus, name, then it serves until a signal.\<close>

definition auto_main :: "bool outcome \<Rightarrow> unit outcome \<Rightarrow> unit outcome \<Rightarrow> verdict" where
  "auto_main conn named exported =
     (case conn of
        Returned True \<Rightarrow>
          (case named of
             Returned _ \<Rightarrow> (case exported of Returned _ \<Rightarrow> Exit 0 | _ \<Rightarrow> Aborted)
           | BusError _ _ \<Rightarrow> Exit 1
           | Threw _ \<Rightarrow> Aborted)
      | Returned False \<Rightarrow> Exit 1
      | _ \<Rightarrow> Aborted)"

subsection \<open>What the agent gets from the headless prompter\<close>

lemma octet_inj: "inj (of_char :: char \<Rightarrow> u8)"
proof (rule injI)
  fix a b :: char
  have small: "(of_char c :: nat) < 256" for c by simp
  assume "(of_char a :: u8) = of_char b"
  then have "(of_nat (of_char a) :: u8) = of_nat (of_char b)" by (simp add: of_nat_of_char)
  then have "unat (of_nat (of_char a) :: u8) = unat (of_nat (of_char b) :: u8)" by simp
  with small [of a] small [of b] have "(of_char a :: nat) = of_char b" by (simp add: unat_of_nat)
  then show "a = b" by simp
qed

lemma octets_eq_iff [simp]: "octets a = octets b \<longleftrightarrow> a = b"
  by (simp add: octets_def octet_inj inj_map_eq_map)

lemma octets_length [simp]: "length (octets s) = length s" and octets_Nil [simp]: "octets [] = []"
  by (simp_all add: octets_def)

definition sealed_file :: "string \<Rightarrow> memfile" where
  "sealed_file s = \<lparr>mf_name = ''librescrs-e2e-secret'', mf_data = octets s, mf_seals = kExpectedSeals\<rparr>"

lemma sealedFd_cases:
  assumes "sealedFd cenv s t = Some (fd, t')"
  obtains (failed) "fd = - 1" | (created) n where "fd = int n" "t' = t(n \<mapsto> sealed_file s)" "env_memfd_create cenv = Inr n"
  using assms
  by (auto simp: sealedFd_def sealed_file_def kExpectedSeals_def split: option.splits elim!: makeSealedMemfd_cases)

lemma secret_reply_delivered:
  assumes "secret_reply W cenv st s reason t = Some rt"
  obtains "delivered refused rt = BusError (fst refused) (snd refused)"
    | "delivered refused rt = Returned (replyStatusToken W st, view_of (sealed_file s), [])"
proof -
  from assms obtain fd t' where "sealedFd cenv s t = Some (fd, t')" "rt = ((replyStatusToken W st, fd, [], reason), t')"
    by (auto simp: secret_reply_def split: option.splits)
  then show thesis using that by (cases rule: sealedFd_cases) (auto simp: delivered_def)
qed

text \<open>A secret the agent's reader returns is what the file held.\<close>

lemma read_exact:
  assumes "reader_lib_ok L" "SecretMemfdReader_read L renv (view_of f) = Some r" "rr_secret r = Some s"
  shows "s = mf_data f"
proof (cases "mf_data f = []")
  case True
  with assms(2,3) show ?thesis
    by (auto simp: SecretMemfdReader_read_def view_of_def read_fail_def Let_def split: if_splits)
next
  case False
  with assms(2,3) obtain b left where
    "pread_loop (env_preads renv) (mf_data f) (length (mf_data f)) 0 (replicate (length (mf_data f)) 0) = Some (Inr b)"
    and "secureString L b = Some (s, left)"
    by (auto simp: SecretMemfdReader_read_def view_of_def read_fail_def Let_def
        split: if_splits option.splits sum.splits prod.splits)
  with assms(1) pread_loop_content show ?thesis by (fastforce simp: reader_lib_ok_def)
qed


text \<open>The word of a reply decides what the agent makes of it.\<close>

lemma request_returned:
  assumes "wire_ok (ce_wire E)" "reader_lib_ok (ce_reader E)"
    and "request E (Returned (replyStatusToken (ce_wire E) st, view_of f, [])) knd o1 c = Some (r, c')"
    and "pr_secret r = Some s"
  shows "s = mf_data f \<and>
    (st = RsOk \<and> pr_chosenKind r = None \<or> st = RsOkMrz \<and> offeredMrzAlternative (ce_wire E) knd o1 \<and> pr_chosenKind r = Some MrzKind)"
proof -
  let ?W = "ce_wire E" and ?offered = "offeredMrzAlternative (ce_wire E) knd o1"
  have word: "replyStatusOf ?W (replyStatusToken ?W st) = st" using wire_okD(4) [OF assms(1)] by (simp add: replyStatusOf_def)
  obtain refused c1 where ref: "refuseUnlessUsable (ce_probe E) c = (refused, c1)" by (cases "refuseUnlessUsable (ce_probe E) c")
  from assms(3,4) ref have "refused = None"
    by (auto simp: request_def empty_result_def Let_def split: option.splits)
  with assms(3,4) ref word have ok: "promptStatusFor ?W st ?offered = PsOk"
    and read: "\<exists>rr. SecretMemfdReader_read (ce_reader E) (ce_read1 E) (view_of f) = Some rr \<and> rr_secret rr = Some s"
    and kind: "pr_chosenKind r = (if st = RsOkMrz then Some MrzKind else None)"
    by (auto simp: request_def empty_result_def parseRequestSecretStatus_def Let_def split: option.splits if_splits)
  from ok have "st = RsOk \<or> st = RsOkMrz \<and> ?offered" using wire_okD(5) [OF assms(1)] by blast
  moreover have "s = mf_data f" using read read_exact [OF assms(2)] by blast
  ultimately show ?thesis using kind by auto
qed

lemma request_failed:
  "request E (BusError name msg) knd o1 c = Some (r, c') \<Longrightarrow> pr_secret r = None"
  by (auto simp: request_def empty_result_def Let_def split: option.splits prod.splits)

text \<open>
  What the agent asked for, and what it is given: the secret was in the environment under the name
  of that kind, or it is the MRZ the agent offered to take instead and this run asked for.
\<close>

definition released :: "wire_lib \<Rightarrow> environ \<Rightarrow> string \<Rightarrow> options_dict \<Rightarrow> reply_status \<Rightarrow> string \<Rightarrow> bool" where
  "released W env knd opts st v \<longleftrightarrow>
     st = RsOk \<and> (\<exists>key. envKeyFor W knd = Some key \<and> env key = Some v) \<or>
     st = RsOkMrz \<and> knd = kKindCan W \<and> mrzSwitchRequested env \<and> altKindsOffer opts (kKindMrz W) \<and> env ''LIBRESCRS_MRZ'' = Some v"

lemma buildSecretReply_cases:
  assumes "buildSecretReply W env existing cenv knd opts t = Some rt"
  obtains (refused) reason where "secret_reply W cenv RsCancelled [] reason t = Some rt"
    | (given) st v reason where "gateOpen env existing" "released W env knd opts st v" "secret_reply W cenv st v reason t = Some rt"
  using assms unfolding buildSecretReply_def released_def
  by (auto split: if_splits option.splits)



definition sample_environ :: environ where
  "sample_environ = [''LIBRESCRS_SIGN_PIN'' \<mapsto> ''12'']"

definition harness_fd :: create_env where
  "harness_fd = \<lparr>env_memfd_create = Inr 7, env_writes = [Moved 1, Moved 9], env_add_seals = None\<rparr>"

lemma harness_reply:
  "buildSecretReply sample_wire sample_environ {kDefaultGate} harness_fd ''pin'' opts Map.empty =
     Some ((''ok'', 7, [], []), [7 \<mapsto> sealed_file ''12''])"
  by (simp add: buildSecretReply_def gateOpen_def gatePath_def sample_environ_def secret_reply_def sealedFd_def
      harness_fd_def makeSealedMemfd_def sample_wire_def sample_token_def envKeyFor_def octets_def sealed_file_def kExpectedSeals_def)

lemma harness_request:
  "\<exists>r c'. request sample_client_env (Returned (''ok'', view_of (sealed_file ''12''), [])) ''pin'' sample_prompt_options new_client =
     Some (r, c') \<and> pr_secret r = Some [49, 50] \<and> pr_chosenKind r = None"
proof -
  have ref: "refuseUnlessUsable (Returned 2) new_client = (None, (log_call CallVersion new_client)\<lparr>m_capability := Some True\<rparr>)"
    by (simp add: refuseUnlessUsable_def prompterUsability_def new_client_def log_call_def usable_def kProtocolVersion_def)
  have parse: "parseRequestSecretStatus sample_wire ''ok'' b = (PsOk, None)" for b
    by (simp add: parseRequestSecretStatus_def replyStatusOf_def sample_wire_def sample_from_token_def sample_token_def Let_def)
  have read: "SecretMemfdReader_read sample_reader_lib \<lparr>env_resize_ok = True, env_preads = [Moved 64]\<rparr>
      (view_of (sealed_file ''12'')) = Some \<lparr>rr_secret = Some [49, 50], rr_error = [], rr_residue = [0, 0]\<rparr>"
    using required_seals_of_creator
    by (simp add: SecretMemfdReader_read_def view_of_def sealed_file_def kExpectedSeals_def sample_reader_lib_def octets_def Let_def)
  show ?thesis
    by (simp add: request_def sample_client_env_def ref parse read empty_result_def Let_def)
qed


text \<open>The two secrets of a PIN change are released together or not at all.\<close>

lemma secrets_reply_cases:
  assumes "buildSecretsReply W env existing cenv1 cenv2 knd t = Some rt"
  obtains (refused) reason where "secrets_reply W cenv1 cenv2 RsCancelled [] [] reason t = Some rt"
    | (given) current replacement where "gateOpen env existing" "knd = kKindChangePin W"
        "env ''LIBRESCRS_SIGN_PIN'' = Some current" "env ''LIBRESCRS_NEW_PIN'' = Some replacement"
        "secrets_reply W cenv1 cenv2 RsOk current replacement [] t = Some rt"
  using assms unfolding buildSecretsReply_def Let_def by (auto split: if_splits option.splits)

subsection \<open>What the validator concludes\<close>

text \<open>Transfers that are neither cut to nothing nor interrupted.\<close>

definition steady :: "transfer list \<Rightarrow> bool" where
  "steady rs \<longleftrightarrow> (\<forall>r \<in> set rs. \<exists>n > 0. r = Moved n)"

lemma readAll_whole:
  "steady rs \<Longrightarrow> length data \<le> length out + length rs \<Longrightarrow> length out \<le> length data \<Longrightarrow> out = take (length out) data \<Longrightarrow>
     readAll_loop rs data (length data) out = Some data"
proof (induction rs arbitrary: out)
  case (Cons r rs)
  from Cons.prems(1) obtain n where r: "r = Moved n" "0 < n" and rest: "steady rs" by (auto simp: steady_def)
  show ?case
  proof (cases "length out < length data")
    case True
    let ?k = "min n (length data - length out)"
    have "out @ take ?k (drop (length out) data) = take (length out + ?k) data"
      using Cons.prems(4) by (metis take_add)
    moreover have "0 < ?k" using r True by simp
    ultimately show ?thesis
      using Cons.IH [of "out @ take ?k (drop (length out) data)"] rest r True Cons.prems(2)
      by (simp add: Let_def) (simp add: min_def)
  next
    case False
    with Cons.prems(3,4) show ?thesis by simp
  qed
qed simp

lemma sealedFd_works:
  assumes "env_memfd_create cenv = Inr n" "env_add_seals cenv = None"
    and "progressing (env_writes cenv)" "length s \<le> moves (env_writes cenv)"
  shows "sealedFd cenv s t = Some (int n, t(n \<mapsto> sealed_file s))"
proof -
  obtain w where "write_loop (env_writes cenv) (octets s) 0 [] = Some (Inr w)"
    using write_loop_enough [of "env_writes cenv" "octets s" 0 "[]"] assms(3,4) by auto
  moreover from this have "w = octets s" using write_loop_content by fastforce
  ultimately show ?thesis using assms(1,2) by (simp add: sealedFd_def makeSealedMemfd_def sealed_file_def kExpectedSeals_def)
qed

lemma testB_verdict:
  assumes "steady preads" "length pin \<le> length preads"
  shows "\<exists>checks. testB L preads expected (''ok'', view_of (sealed_file pin), []) = Some checks \<and>
    (list_all id checks \<longleftrightarrow> pin = expected \<and> length pin \<le> kMaxSecretBytes L)"
proof -
  have "readAll_loop preads (octets pin) (length pin) [] = Some (octets pin)"
    using readAll_whole [OF assms(1), of "octets pin" "[]"] assms(2) by simp
  moreover have "0 \<le> sint kExpectedSeals" "kExpectedSeals AND F_SEAL_SEAL = 0"
    by (simp_all add: kExpectedSeals_def seal_flags)
  ultimately show ?thesis by (auto simp: testB_def view_of_def sealed_file_def Let_def)
qed

definition harness_ask ::
  "wire_lib \<Rightarrow> environ \<Rightarrow> create_env \<Rightarrow> string \<times> string \<Rightarrow> fdtable \<Rightarrow> string set \<Rightarrow> (string \<times> fd_view \<times> string) outcome option" where
  "harness_ask W env cenv err t existing = map_option (delivered err) (buildSecretReply W env existing cenv ''pin'' [] t)"


lemma harness_asked:
  assumes "kKindPin W = ''pin''" "kKindPin W \<noteq> kKindCan W" "env ''LIBRESCRS_SIGN_PIN'' = Some pin"
    and "env_memfd_create cenv = Inr n" "env_add_seals cenv = None" "progressing (env_writes cenv)"
    and "length pin \<le> moves (env_writes cenv)"
  shows "harness_ask W env cenv err t existing =
    Some (if gateOpen env existing then Returned (replyStatusToken W RsOk, view_of (sealed_file pin), [])
          else Returned (replyStatusToken W RsCancelled, view_of (sealed_file []), []))"
  using assms sealedFd_works [OF assms(4-6), of pin t] sealedFd_works [OF assms(4-6), of "[]" t]
  by (auto simp: harness_ask_def buildSecretReply_def secret_reply_def delivered_def envKeyFor_def)

text \<open>
  The validator accepts the headless prompter exactly when it holds the expected PIN. Run
  against it with descriptors at hand and uninterrupted transfers, the validator exits with success
  if and only if the PIN in the prompter's environment is the expected one and fits the agent's cap;
  it finds the closed gate refused with no bytes, and it never leaves the gate open.
\<close>

theorem validator_accepts_exactly:
  assumes "kKindPin W = ''pin''" "kKindPin W \<noteq> kKindCan W"
    and "replyStatusToken W RsOk = ''ok''" "replyStatusToken W RsCancelled = ''cancelled''"
    and "gatePath venv = gatePath env" "env ''LIBRESCRS_SIGN_PIN'' = Some pin"
    and "env_memfd_create cenv1 = Inr n1" "env_add_seals cenv1 = None" "progressing (env_writes cenv1)"
    and "length pin \<le> moves (env_writes cenv1)"
    and "env_memfd_create cenv2 = Inr n2" "env_add_seals cenv2 = None" "progressing (env_writes cenv2)"
    and "length pin \<le> moves (env_writes cenv2)"
    and "steady preads" "length pin \<le> length preads"
  shows "validate_main L venv (Some expected) (Returned True) (harness_ask W env cenv1 err t1) (harness_ask W env cenv2 err t2)
      True preads existing =
    Some (Exit (if pin = expected \<and> length pin \<le> kMaxSecretBytes L then 0 else 1), existing - {gatePath env})"
proof -
  let ?shut = "existing - {gatePath env}" and ?open = "insert (gatePath env) existing"
  have A: "harness_ask W env cenv1 err t1 ?shut = Some (Returned (''cancelled'', view_of (sealed_file []), []))"
    using harness_asked [where env = env, OF assms(1,2,6) assms(7-10)] assms(4) by (simp add: gateOpen_def)
  have B: "harness_ask W env cenv2 err t2 ?open = Some (Returned (''ok'', view_of (sealed_file pin), []))"
    using harness_asked [where env = env, OF assms(1,2,6) assms(11-14)] assms(3) by (simp add: gateOpen_def)
  obtain checks where checks: "testB L preads expected (''ok'', view_of (sealed_file pin), []) = Some checks"
    "list_all id checks \<longleftrightarrow> pin = expected \<and> length pin \<le> kMaxSecretBytes L"
    using testB_verdict [OF assms(15,16)] by blast
  have "list_all id (testA (''cancelled'', view_of (sealed_file []), []))"
    by (simp add: testA_def view_of_def sealed_file_def)
  with A B checks assms(5) show ?thesis by (simp add: validate_main_def Let_def)
qed

theorem validator_accepts_exactly_witness:
  "validate_main sample_reader_lib Map.empty (Some ''12'') (Returned True)
     (harness_ask sample_wire sample_environ harness_fd ([], []) Map.empty) (harness_ask sample_wire sample_environ harness_fd ([], []) Map.empty)
     True [Moved 1, Moved 5] {''/tmp/x''} = Some (Exit 0, {''/tmp/x''})"
proof -
  have fd: "env_memfd_create harness_fd = Inr 7" "env_add_seals harness_fd = None" "progressing (env_writes harness_fd)"
    by (simp_all add: harness_fd_def)
  show ?thesis
    using validator_accepts_exactly [of sample_wire Map.empty sample_environ "''12''" harness_fd 7 harness_fd 7 "[Moved 1, Moved 5]"
        sample_reader_lib "''12''" "([], [])" Map.empty Map.empty "{''/tmp/x''}"]
    using fd by (simp add: harness_fd_def sample_wire_def sample_token_def gatePath_def sample_environ_def steady_def
        sample_reader_lib_def kDefaultGate_def)
qed

text \<open>
  The validator's own read differs from the agent's. Its comment calls it exactly the reader's;
  the reader asks again after \<^verbatim>\<open>EINTR\<close>, this loop gives up and reports the short bytes as a mismatch.
\<close>

lemma validator_gives_up_when_interrupted:
  assumes "pin \<noteq> []"
  shows "\<exists>checks. testB L (Failed EINTR # preads) pin (''ok'', view_of (sealed_file pin), []) = Some checks \<and> \<not> list_all id checks"
proof -
  have "readAll_loop (Failed EINTR # preads) (octets pin) (length pin) [] = Some []" using assms by simp
  moreover have "[] \<noteq> octets pin" using assms by (auto simp: octets_def)
  ultimately show ?thesis by (auto simp: testB_def view_of_def sealed_file_def Let_def)
qed

end
