(* ===== verification/Sign_Proof.thy ===== *)
theory Sign_Proof
  imports Pkcs11_Client Sign_Options
begin

text \<open>
  The acceptance client of the hardware runs (\<^verbatim>\<open>e2e/sign-proof.cpp\<close>): it finds a card through the object
  manager, reads its certificates the way the module does, asks the agent for one signature and
  writes the artifact down. What the bus and the kernel answer is a script; the requests the client
  sends are its trace. A script that ends before a loop does is \<^const>\<open>None\<close>.
\<close>

subsection \<open>Helpers\<close>

definition envOr :: "(string \<rightharpoonup> string) \<Rightarrow> string \<Rightarrow> string \<Rightarrow> string" where
  "envOr env key fallback = (case env key of Some v \<Rightarrow> if v \<noteq> [] then v else fallback | None \<Rightarrow> fallback)"

datatype io = Transferred nat | Interrupted | IoError

text \<open>\<^verbatim>\<open>readAll\<close>: chunks of 64 KiB up to the end of the file; a failing read ends it with what it has.\<close>

primrec fd_readAll :: "io list \<Rightarrow> bytes \<Rightarrow> bytes \<Rightarrow> bytes option" where
  "fd_readAll [] data out = None"
| "fd_readAll (r # rs) data out =
     (case r of
        Interrupted \<Rightarrow> fd_readAll rs data out
      | IoError \<Rightarrow> Some out
      | Transferred n \<Rightarrow>
          let k = min n (min 65536 (length data - length out)) in
          if k = 0 then Some out else fd_readAll rs data (out @ take k (drop (length out) data)))"

text \<open>\<^verbatim>\<open>writeFile\<close>: whether it succeeded and what the file holds, \<open>opened\<close> when it could be opened.\<close>

primrec write_file_loop :: "io list \<Rightarrow> bytes \<Rightarrow> nat \<Rightarrow> (bool \<times> bytes) option" where
  "write_file_loop [] bs off = (if off < length bs then None else Some (True, bs))"
| "write_file_loop (w # ws) bs off =
     (if off < length bs then
        (case w of
           Interrupted \<Rightarrow> write_file_loop ws bs off
         | IoError \<Rightarrow> Some (False, take off bs)
         | Transferred n \<Rightarrow> write_file_loop ws bs (off + min n (length bs - off)))
      else Some (True, bs))"

type_synonym file_store = "string \<rightharpoonup> bytes"

definition writeFile :: "bool \<Rightarrow> io list \<Rightarrow> string \<Rightarrow> bytes \<Rightarrow> file_store \<Rightarrow> (bool \<times> file_store) option" where
  "writeFile opened ws path bs fs =
     (if \<not> opened then Some (False, fs)
      else case write_file_loop ws bs 0 of None \<Rightarrow> None | Some (ok, written) \<Rightarrow> Some (ok, fs(path \<mapsto> written)))"

definition variantStr :: "variant \<Rightarrow> string" where
  "variantStr v = (case get_string v of Some s \<Rightarrow> s | None \<Rightarrow> [])"

definition fmt_value :: "variant \<Rightarrow> string" where
  "fmt_value v =
     (case get_string v of
        Some s \<Rightarrow> s
      | None \<Rightarrow> (case get_bool v of Some b \<Rightarrow> if b then ''true'' else ''false'' | None \<Rightarrow> ''?''))"

primrec fmt_entries :: "(string \<times> variant) list \<Rightarrow> bool \<Rightarrow> string" where
  "fmt_entries [] first = []"
| "fmt_entries (kv # kvs) first = (if first then [] else '', '') @ fst kv @ ''='' @ fmt_value (snd kv) @ fmt_entries kvs False"

definition fmtMeta :: "opt_dict \<Rightarrow> string" where
  "fmtMeta m = ''{'' @ fmt_entries m True @ ''}''"

subsection \<open>Finding the card\<close>

text \<open>\<^verbatim>\<open>std::string::find\<close> of a substring: whether there is an occurrence.\<close>

primrec has_substring :: "string \<Rightarrow> string \<Rightarrow> bool" where
  "has_substring sub [] = (sub = [])"
| "has_substring sub (c # cs) = (take (length sub) (c # cs) = sub \<or> has_substring sub cs)"

record discovery =
  dc_matchReader :: string
  dc_matchCardObj :: string
  dc_cardPath :: string
  dc_cardReaderName :: string

definition scan_reader :: "string \<Rightarrow> managed_objects \<Rightarrow> string \<times> ifaces \<Rightarrow> discovery \<Rightarrow> discovery" where
  "scan_reader readerSubstr managed ob d =
     (case smap_find (snd ob) kReaderIface of
        None \<Rightarrow> d
      | Some props \<Rightarrow>
          let name = (case smap_find props ''Name'' of Some v \<Rightarrow> variantStr v | None \<Rightarrow> []);
              hasCard = (case smap_find props ''HasCard'' of Some v \<Rightarrow> (case get_bool v of Some b \<Rightarrow> b | None \<Rightarrow> False) | None \<Rightarrow> False);
              cardObj = (case smap_find props ''Card'' of Some v \<Rightarrow> (case get_path v of Some p \<Rightarrow> p | None \<Rightarrow> []) | None \<Rightarrow> []) in
          if has_substring readerSubstr name \<and> hasCard \<and> cardObj \<noteq> [] \<and> cardObj \<noteq> ''/'' then
            let d = d\<lparr>dc_matchReader := name, dc_matchCardObj := cardObj\<rparr> in
            (case smap_find managed cardObj of
               None \<Rightarrow> d
             | Some ifs \<Rightarrow>
                 if smap_find ifs kCardIface \<noteq> None then d\<lparr>dc_cardPath := cardObj, dc_cardReaderName := name\<rparr> else d)
          else d)"

datatype request = AskManaged | AskCertificates string | AskSign string string opt_dict | AskResult string

datatype ending = ExitWith int | Uncaught

text \<open>
  The polls: what each \<^verbatim>\<open>GetManagedObjects\<close> answers and whether the deadline has passed after it. The
  names found are those of the last reader in the order of the map.
\<close>

primrec discover ::
  "string \<Rightarrow> ((thrown + managed_objects) \<times> bool) list \<Rightarrow> request list \<Rightarrow> (ending + string \<times> string) option \<times> request list" where
  "discover readerSubstr [] asked = (None, asked)"
| "discover readerSubstr (p # ps) asked =
     (let asked = asked @ [AskManaged] in
      case fst p of
        Inl (BusError _) \<Rightarrow> (Some (Inl (ExitWith 11)), asked)
      | Inl OtherException \<Rightarrow> (Some (Inl Uncaught), asked)
      | Inr managed \<Rightarrow>
          let d = fold (scan_reader readerSubstr managed) managed
                    \<lparr>dc_matchReader = [], dc_matchCardObj = [], dc_cardPath = [], dc_cardReaderName = []\<rparr> in
          if dc_cardPath d \<noteq> [] then (Some (Inr (dc_cardPath d, dc_cardReaderName d)), asked)
          else if snd p then (Some (Inl (ExitWith (if dc_matchCardObj d \<noteq> [] then 17 else 12))), asked)
          else discover readerSubstr ps asked)"


subsection \<open>The certificate and the request\<close>

text \<open>The first signing certificate, and the first one of the wanted prefix; an empty name counts as none yet.\<close>

definition pick_cert :: "string \<Rightarrow> cert_result \<Rightarrow> string \<times> string \<Rightarrow> string \<times> string" where
  "pick_cert prefix1 e found =
     (case found of (firstSigning, prefMatch) \<Rightarrow>
        if cr_signingCapable e
        then (if firstSigning = [] then cr_certId e else firstSigning,
              if prefix1 \<noteq> [] \<and> prefMatch = [] \<and> take (length prefix1) (cr_certId e) = prefix1 then cr_certId e else prefMatch)
        else found)"

definition choose_cert :: "string \<Rightarrow> cert_result list \<Rightarrow> string" where
  "choose_cert prefix1 certs =
     (case fold (pick_cert prefix1) certs ([], []) of (firstSigning, prefMatch) \<Rightarrow> if prefMatch \<noteq> [] then prefMatch else firstSigning)"

definition resolve_cert ::
  "string \<Rightarrow> string \<Rightarrow> (string \<Rightarrow> read_bus) \<Rightarrow> string \<Rightarrow> request list \<Rightarrow> (ending + string) \<times> request list" where
  "resolve_cert forcedCertId prefix1 reads cardPath asked =
     (if forcedCertId \<noteq> [] then (Inr forcedCertId, asked)
      else
        let asked = asked @ [AskCertificates cardPath] in
        (case fst (readCertificates (reads cardPath)) of
           Inl (BusError _) \<Rightarrow> (Inl (ExitWith 13), asked)
         | Inl OtherException \<Rightarrow> (Inl Uncaught, asked)
         | Inr read \<Rightarrow>
             if rd_timedOut read then (Inl (ExitWith 14), asked)
             else if \<not> read_ok read then (Inl (ExitWith 14), asked)
             else
               let certId = choose_cert prefix1 (rd_certificates read) in
               if certId = [] then (Inl (ExitWith 15), asked) else (Inr certId, asked)))"

definition sign_options :: "(string \<rightharpoonup> string) \<Rightarrow> opt_dict" where
  "sign_options env =
     (let options = smap_assign ''format'' (VString ''cades'') [];
          forcedLevel = envOr env ''LIBRESCRS_PROOF_LEVEL'' [];
          options = (if forcedLevel \<noteq> [] then smap_assign ''level'' (VString forcedLevel) options else options);
          options = smap_assign ''packaging'' (VString ''detached'') options in
      smap_assign ''displayName'' (VString ''librescrs level deferral proof'') options)"

subsection \<open>The one signature\<close>

text \<open>
  The two match rules are in place before the call, so their handlers may run before the reply names
  the operation: they file what they get under the path of the sender.
\<close>

datatype proof_signal = ResultSignal string "io list" bytes opt_dict | FinishedSignal string u32 u32 string string

record heard_signals =
  finishedByPath :: "string \<rightharpoonup> u32 \<times> u32 \<times> string \<times> string"
  resultByPath :: "string \<rightharpoonup> bytes \<times> opt_dict"

fun hear_signals :: "proof_signal list \<Rightarrow> heard_signals \<Rightarrow> heard_signals option" where
  "hear_signals [] h = Some h"
| "hear_signals (FinishedSignal path st code key fallback # ss) h =
     hear_signals ss (h\<lparr>finishedByPath := (finishedByPath h)(path \<mapsto> (st, code, key, fallback))\<rparr>)"
| "hear_signals (ResultSignal path rs data meta # ss) h =
     (case fd_readAll rs data [] of
        None \<Rightarrow> None
      | Some artifact \<Rightarrow> hear_signals ss (h\<lparr>resultByPath := (resultByPath h)(path \<mapsto> (artifact, meta))\<rparr>))"

record proof_env =
  pf_env :: "string \<rightharpoonup> string"
  pf_argv1 :: "string option"
  pf_conn :: "thrown + bool"
  pf_polls :: "((thrown + managed_objects) \<times> bool) list"
  pf_reads :: "string \<Rightarrow> read_bus"
  pf_docOpened :: bool
  pf_docWrites :: "io list"
  pf_docReopened :: bool
  pf_sign :: "thrown + string"
  pf_signals :: "proof_signal list"
  pf_late :: "proof_signal list"
  pf_getResult :: "thrown + io list \<times> bytes \<times> opt_dict"
  pf_artOpened :: bool
  pf_artWrites :: "io list"

record proof_result =
  pz_ending :: "ending option"
  pz_requests :: "request list"
  pz_files :: file_store
  pz_stdout :: "string list"

definition ended :: "ending option \<Rightarrow> request list \<Rightarrow> file_store \<Rightarrow> proof_result" where
  "ended e asked fs = \<lparr>pz_ending = e, pz_requests = asked, pz_files = fs, pz_stdout = []\<rparr>"

definition docBody :: bytes where
  "docBody = map of_char ''librescrs through-agent sign proof'' @ [10]"

definition outDir :: "proof_env \<Rightarrow> string" where
  "outDir P = envOr (pf_env P) ''LIBRESCRS_OUT_DIR'' ''/tmp/librescrs-e2e''"

definition docPath :: "proof_env \<Rightarrow> string" where "docPath P = outDir P @ ''/sign-doc.txt''"
definition artPath :: "proof_env \<Rightarrow> string" where "artPath P = outDir P @ ''/sign-cades.p7s''"

definition forcedCertId :: "proof_env \<Rightarrow> string" where
  "forcedCertId P =
     (case pf_argv1 P of
        Some a \<Rightarrow> if a \<noteq> [] then a else envOr (pf_env P) ''LIBRESCRS_CERT_ID'' []
      | None \<Rightarrow> envOr (pf_env P) ''LIBRESCRS_CERT_ID'' [])"

text \<open>The artifact, from the buffered signal or asked for; then written down and reported.\<close>

definition retrieve_artifact ::
  "proof_env \<Rightarrow> string \<Rightarrow> heard_signals \<Rightarrow> request list \<Rightarrow> (ending + bytes \<times> opt_dict) option \<times> request list" where
  "retrieve_artifact P signOp h asked =
     (case resultByPath h signOp of
        Some r \<Rightarrow> (Some (Inr r), asked)
      | None \<Rightarrow>
          let asked = asked @ [AskResult signOp] in
          (case pf_getResult P of
             Inl (BusError _) \<Rightarrow> (Some (Inl (ExitWith 23)), asked)
           | Inl OtherException \<Rightarrow> (Some (Inl Uncaught), asked)
           | Inr (rs, data, meta) \<Rightarrow>
               (case fd_readAll rs data [] of None \<Rightarrow> (None, asked) | Some artifact \<Rightarrow> (Some (Inr (artifact, meta)), asked))))"

definition store_artifact :: "proof_env \<Rightarrow> bytes \<Rightarrow> opt_dict \<Rightarrow> request list \<Rightarrow> file_store \<Rightarrow> proof_result" where
  "store_artifact P artifact meta asked fs =
     (if artifact = [] then ended (Some (ExitWith 24)) asked fs
      else
        (case writeFile (pf_artOpened P) (pf_artWrites P) (artPath P) artifact fs of
           None \<Rightarrow> ended None asked fs
         | Some (False, fs) \<Rightarrow> ended (Some (ExitWith 24)) asked fs
         | Some (True, fs) \<Rightarrow>
             (ended (Some (ExitWith 0)) asked fs)
               \<lparr>pz_stdout := [''SIGN_RESULT=OK status=0 artifactBytes='' @ show_nat (length artifact) @ '' artifact='' @ artPath P @
                  '' document='' @ docPath P @ '' meta='' @ fmtMeta meta]\<rparr>))"

definition await_sign :: "proof_env \<Rightarrow> string \<Rightarrow> request list \<Rightarrow> file_store \<Rightarrow> proof_result" where
  "await_sign P signOp asked fs =
     (case hear_signals (pf_signals P) \<lparr>finishedByPath = Map.empty, resultByPath = Map.empty\<rparr> of
        None \<Rightarrow> ended None asked fs
      | Some h \<Rightarrow>
          (case finishedByPath h signOp of
             None \<Rightarrow> ended (Some (ExitWith 21)) asked fs
           | Some (st, code, key, fallback) \<Rightarrow>
               if st \<noteq> 0 then
                 (ended (Some (ExitWith 22)) asked fs)
                   \<lparr>pz_stdout := [''SIGN_RESULT=FAIL status='' @ show_nat (unat st) @ '' errorCode='' @ show_nat (unat code) @
                      '' msgKey='' @ key @ '' msgFallback='' @ fallback]\<rparr>
               else
                 (case hear_signals (pf_late P) h of
                    None \<Rightarrow> ended None asked fs
                  | Some h \<Rightarrow>
                      (case retrieve_artifact P signOp h asked of
                         (None, asked) \<Rightarrow> ended None asked fs
                       | (Some (Inl e), asked) \<Rightarrow> ended (Some e) asked fs
                       | (Some (Inr (artifact, meta)), asked) \<Rightarrow> store_artifact P artifact meta asked fs))))"

definition sign_once :: "proof_env \<Rightarrow> string \<Rightarrow> string \<Rightarrow> request list \<Rightarrow> file_store \<Rightarrow> proof_result" where
  "sign_once P cardPath certId asked fs =
     (case writeFile (pf_docOpened P) (pf_docWrites P) (docPath P) docBody fs of
        None \<Rightarrow> ended None asked fs
      | Some (False, fs) \<Rightarrow> ended (Some (ExitWith 16)) asked fs
      | Some (True, fs) \<Rightarrow>
          if \<not> pf_docReopened P then ended (Some (ExitWith 16)) asked fs
          else
            let asked = asked @ [AskSign cardPath certId (sign_options (pf_env P))] in
            (case pf_sign P of
               Inl (BusError _) \<Rightarrow> ended (Some (ExitWith 20)) asked fs
             | Inl OtherException \<Rightarrow> ended (Some Uncaught) asked fs
             | Inr signOp \<Rightarrow> await_sign P signOp asked fs))"

definition discoverOnly :: "proof_env \<Rightarrow> bool" where
  "discoverOnly P \<longleftrightarrow> envOr (pf_env P) ''LIBRESCRS_DISCOVER_ONLY'' [] \<noteq> []"

definition sign_proof_main :: "proof_env \<Rightarrow> file_store \<Rightarrow> proof_result" where
  "sign_proof_main P fs =
     (case pf_conn P of
        Inl _ \<Rightarrow> ended (Some Uncaught) [] fs
      | Inr False \<Rightarrow> ended (Some (ExitWith 10)) [] fs
      | Inr True \<Rightarrow>
          (case discover (envOr (pf_env P) ''LIBRESCRS_READER_SUBSTR'' []) (pf_polls P) [] of
             (None, asked) \<Rightarrow> ended None asked fs
           | (Some (Inl e), asked) \<Rightarrow> ended (Some e) asked fs
           | (Some (Inr (cardPath, readerName)), asked) \<Rightarrow>
               (case resolve_cert (forcedCertId P) (envOr (pf_env P) ''LIBRESCRS_CERT_PREFIX'' []) (pf_reads P) cardPath asked of
                  (Inl e, asked) \<Rightarrow> ended (Some e) asked fs
                | (Inr certId, asked) \<Rightarrow>
                    if discoverOnly P
                    then (ended (Some (ExitWith 0)) asked fs)
                           \<lparr>pz_stdout := [''DISCOVER_OK certId='' @ certId @ '' reader='' @ readerName]\<rparr>
                    else sign_once P cardPath certId asked fs)))"


subsection \<open>What is asked\<close>

fun is_sign :: "request \<Rightarrow> bool" where
  "is_sign (AskSign _ _ _) = True"
| "is_sign _ = False"

text \<open>A reader the run accepts, in one answer of the object manager, with the card it carries exported.\<close>

definition offers_card :: "string \<Rightarrow> managed_objects \<Rightarrow> string \<Rightarrow> bool" where
  "offers_card readerSubstr managed card1 \<longleftrightarrow>
     card1 \<noteq> [] \<and> card1 \<noteq> ''/'' \<and>
     (\<exists>ifs. smap_find managed card1 = Some ifs \<and> smap_find ifs kCardIface \<noteq> None) \<and>
     (\<exists>ob \<in> set managed. \<exists>props. smap_find (snd ob) kReaderIface = Some props \<and>
        smap_find props ''HasCard'' = Some (VBool True) \<and> smap_find props ''Card'' = Some (VPath card1))"

lemma scan_reader_offers:
  assumes "ob \<in> set managed" "dc_cardPath d \<noteq> [] \<Longrightarrow> offers_card sub managed (dc_cardPath d)"
    and "dc_cardPath (scan_reader sub managed ob d) \<noteq> []"
  shows "offers_card sub managed (dc_cardPath (scan_reader sub managed ob d))"
proof (cases "dc_cardPath (scan_reader sub managed ob d) = dc_cardPath d")
  case True
  with assms(2,3) show ?thesis by simp
next
  case False
  then obtain props v w card1 ifs where s: "smap_find (snd ob) kReaderIface = Some props"
    "smap_find props ''HasCard'' = Some v" "get_bool v = Some True"
    "smap_find props ''Card'' = Some w" "get_path w = Some card1" "card1 \<noteq> []" "card1 \<noteq> ''/''"
    "smap_find managed card1 = Some ifs" "smap_find ifs kCardIface \<noteq> None"
    and r: "dc_cardPath (scan_reader sub managed ob d) = card1"
    by (auto simp: scan_reader_def Let_def split: option.splits if_splits)
  from s(3,5) have "v = VBool True" "w = VPath card1" by (cases v; simp; cases w; simp)+
  with s r assms(1) show ?thesis by (auto simp: offers_card_def)
qed

lemma scan_offers:
  "set obs \<subseteq> set managed \<Longrightarrow> (dc_cardPath d \<noteq> [] \<Longrightarrow> offers_card sub managed (dc_cardPath d)) \<Longrightarrow>
     dc_cardPath (fold (scan_reader sub managed) obs d) \<noteq> [] \<Longrightarrow>
     offers_card sub managed (dc_cardPath (fold (scan_reader sub managed) obs d))"
proof (induction obs arbitrary: d)
  case (Cons ob obs)
  have "dc_cardPath (scan_reader sub managed ob d) \<noteq> [] \<Longrightarrow>
      offers_card sub managed (dc_cardPath (scan_reader sub managed ob d))"
    using scan_reader_offers [of ob managed d sub] Cons.prems(1,2) by auto
  with Cons show ?case by simp
qed simp

lemma discover_asks: "\<exists>n. snd (discover sub ps asked) = asked @ replicate n AskManaged"
proof (induction ps arbitrary: asked)
  case Nil
  have "asked = asked @ replicate 0 AskManaged" by simp
  then show ?case by (simp only: discover.simps snd_conv) blast
next
  case (Cons p ps)
  have stop: "\<exists>n. asked @ [AskManaged] = asked @ replicate n AskManaged"
    by (rule exI [of _ 1]) simp
  from Cons.IH [of "asked @ [AskManaged]"] obtain n where
    "snd (discover sub ps (asked @ [AskManaged])) = asked @ [AskManaged] @ replicate n AskManaged" by auto
  also have "\<dots> = asked @ replicate (Suc n) AskManaged" by simp
  finally have go: "\<exists>n. snd (discover sub ps (asked @ [AskManaged])) = asked @ replicate n AskManaged" by blast
  from stop go show ?case
    by (cases "fst p") (auto simp: Let_def split: thrown.splits)
qed

lemma discover_found:
  "fst (discover sub ps asked) = Some (Inr (card1, reader)) \<Longrightarrow> \<exists>managed. Inr managed \<in> fst ` set ps \<and> offers_card sub managed card1"
proof (induction ps arbitrary: asked)
  case (Cons p ps)
  show ?case
  proof (cases "fst p")
    case (Inl t)
    with Cons.prems show ?thesis by (cases t) (simp_all add: Let_def)
  next
    case (Inr managed)
    let ?d = "fold (scan_reader sub managed) managed
      \<lparr>dc_matchReader = [], dc_matchCardObj = [], dc_cardPath = [], dc_cardReaderName = []\<rparr>"
    show ?thesis
    proof (cases "dc_cardPath ?d = []")
      case True
      with Cons.prems Inr have "fst (discover sub ps (asked @ [AskManaged])) = Some (Inr (card1, reader))"
        by (simp add: Let_def split: if_splits)
      from Cons.IH [OF this] show ?thesis by auto
    next
      case False
      with Cons.prems Inr have "card1 = dc_cardPath ?d" by (simp add: Let_def)
      moreover have "offers_card sub managed (dc_cardPath ?d)" by (rule scan_offers) (simp_all add: False)
      moreover have "Inr managed \<in> fst ` set (p # ps)" using Inr by (auto intro: rev_image_eqI)
      ultimately show ?thesis by blast
    qed
  qed
qed simp

definition signing_id :: "cert_result list \<Rightarrow> string \<Rightarrow> bool" where
  "signing_id certs s \<longleftrightarrow> (\<exists>e \<in> set certs. cr_signingCapable e \<and> cr_certId e = s)"

lemma fold_pick_cert:
  "set es \<subseteq> set certs \<Longrightarrow> fst found = [] \<or> signing_id certs (fst found) \<Longrightarrow> snd found = [] \<or> signing_id certs (snd found) \<Longrightarrow>
     (fst (fold (pick_cert p) es found) = [] \<or> signing_id certs (fst (fold (pick_cert p) es found))) \<and>
     (snd (fold (pick_cert p) es found) = [] \<or> signing_id certs (snd (fold (pick_cert p) es found)))"
proof (induction es arbitrary: found)
  case (Cons e es)
  obtain a b where found: "found = (a, b)" by (cases found)
  have e: "cr_signingCapable e \<Longrightarrow> signing_id certs (cr_certId e)" using Cons.prems(1) by (auto simp: signing_id_def)
  have "fst (pick_cert p e found) = [] \<or> signing_id certs (fst (pick_cert p e found))"
    "snd (pick_cert p e found) = [] \<or> signing_id certs (snd (pick_cert p e found))"
    using Cons.prems(2,3) e by (auto simp: pick_cert_def found)
  from Cons.IH [OF _ this] Cons.prems(1) show ?case by simp
qed simp

lemma choose_cert_signs: "choose_cert p certs = [] \<or> signing_id certs (choose_cert p certs)"
  using fold_pick_cert [of certs certs "([], [])" p] by (auto simp: choose_cert_def split: prod.splits)


lemma resolve_cert_asks:
  assumes "resolve_cert forced p reads card1 asked = (r, asked')"
  shows "\<exists>more_asked. asked' = asked @ more_asked \<and> filter is_sign more_asked = []"
  using assms by (auto simp: resolve_cert_def Let_def split: if_splits sum.splits thrown.splits)

text \<open>A certificate of the card that may sign, from a read that ended well.\<close>

definition signing_cert :: "(string \<Rightarrow> read_bus) \<Rightarrow> string \<Rightarrow> string \<Rightarrow> bool" where
  "signing_cert reads card1 certId \<longleftrightarrow>
     (\<exists>read. fst (readCertificates (reads card1)) = Inr read \<and> read_ok read \<and> signing_id (rd_certificates read) certId)"

lemma resolve_cert_found:
  assumes "resolve_cert forced p reads card1 asked = (Inr certId, asked')"
  shows "certId \<noteq> [] \<and> (if forced \<noteq> [] then certId = forced else signing_cert reads card1 certId)"
proof (cases "forced = []")
  case True
  with assms obtain read where "fst (readCertificates (reads card1)) = Inr read" "read_ok read"
    "certId = choose_cert p (rd_certificates read)" "certId \<noteq> []"
    by (auto simp: resolve_cert_def Let_def split: sum.splits thrown.splits if_splits)
  with True choose_cert_signs [of p "rd_certificates read"] show ?thesis by (auto simp: signing_cert_def)
next
  case False
  with assms show ?thesis by (auto simp: resolve_cert_def)
qed

lemma retrieve_asks: "retrieve_artifact P signOp h asked = (r, asked') \<Longrightarrow> filter is_sign asked' = filter is_sign asked"
  by (auto simp: retrieve_artifact_def Let_def split: option.splits sum.splits thrown.splits)

lemma ended_simps [simp]: "pz_requests (ended e asked fs) = asked" "pz_ending (ended e asked fs) = e" "pz_files (ended e asked fs) = fs"
  by (simp_all add: ended_def)

lemma store_asks: "pz_requests (store_artifact P artifact meta asked fs) = asked"
  by (simp add: store_artifact_def split: option.splits prod.splits bool.splits)

lemma await_asks: "filter is_sign (pz_requests (await_sign P signOp asked fs)) = filter is_sign asked"
  by (simp add: await_sign_def store_asks retrieve_asks split: option.splits prod.splits sum.splits)

lemma sign_once_asks:
  assumes "filter is_sign asked = []"
  shows "filter is_sign (pz_requests (sign_once P card1 certId asked fs)) \<in> {[], [AskSign card1 certId (sign_options (pf_env P))]}"
  using assms by (auto simp: sign_once_def await_asks Let_def split: option.splits prod.splits bool.splits sum.splits thrown.splits)



subsection \<open>What a success means\<close>

lemma write_file_loop_content: "write_file_loop ws bs off = Some (True, w) \<Longrightarrow> w = bs"
  by (induction ws arbitrary: off) (auto split: if_splits io.splits)

lemma writeFile_content: "writeFile opened ws path bs fs = Some (True, fs') \<Longrightarrow> fs' = fs(path \<mapsto> bs)"
  by (auto simp: writeFile_def split: if_splits option.splits dest: write_file_loop_content)

lemma hear_finished:
  "hear_signals ss h = Some h' \<Longrightarrow> finishedByPath h' path = Some (st, code, key, fb) \<Longrightarrow>
     finishedByPath h path = Some (st, code, key, fb) \<or> FinishedSignal path st code key fb \<in> set ss"
  by (induction ss h rule: hear_signals.induct) (auto split: option.splits if_splits)

lemma hear_result:
  "hear_signals ss h = Some h' \<Longrightarrow> resultByPath h' path = Some (artifact, meta) \<Longrightarrow>
     resultByPath h path = Some (artifact, meta) \<or>
     (\<exists>rs data. ResultSignal path rs data meta \<in> set ss \<and> fd_readAll rs data [] = Some artifact)"
  by (induction ss h rule: hear_signals.induct) (auto split: option.splits if_splits)

text \<open>Where the bytes of an artifact came from: the result signal of the operation, or its \<^verbatim>\<open>GetResult\<close>.\<close>

definition sent_artifact :: "proof_env \<Rightarrow> string \<Rightarrow> bytes \<Rightarrow> bool" where
  "sent_artifact P signOp artifact \<longleftrightarrow>
     (\<exists>rs data meta. fd_readAll rs data [] = Some artifact \<and>
        (ResultSignal signOp rs data meta \<in> set (pf_signals P @ pf_late P) \<or> pf_getResult P = Inr (rs, data, meta)))"

lemma fd_readAll_prefix: "fd_readAll rs data out = Some got \<Longrightarrow> out = take (length out) data \<Longrightarrow> got = take (length got) data"
proof (induction rs arbitrary: out)
  case (Cons r rs)
  show ?case
  proof (cases r)
    case (Transferred n)
    let ?k = "min n (min 65536 (length data - length out))"
    have "out @ take ?k (drop (length out) data) = take (length out + ?k) data" using Cons.prems(2) by (metis take_add)
    moreover have "length out \<le> length data" using Cons.prems(2) by (metis length_take min.cobounded1)
    ultimately have "out @ take ?k (drop (length out) data) = take (length (out @ take ?k (drop (length out) data))) data"
      by simp
    from Cons.IH [OF _ this] Cons.prems Transferred show ?thesis by (auto simp: Let_def split: if_splits)
  qed (use Cons in auto)
qed simp

lemma store_success:
  assumes "pz_ending (store_artifact P artifact meta asked fs) = Some (ExitWith 0)"
  shows "artifact \<noteq> [] \<and> pz_files (store_artifact P artifact meta asked fs) = fs(artPath P \<mapsto> artifact)"
  using assms by (auto simp: store_artifact_def dest: writeFile_content split: if_splits option.splits bool.splits)

lemma retrieved:
  assumes "retrieve_artifact P signOp h asked = (Some (Inr (artifact, meta)), asked')"
    and "\<And>a m. resultByPath h signOp = Some (a, m) \<Longrightarrow>
      \<exists>rs data. ResultSignal signOp rs data m \<in> set (pf_signals P @ pf_late P) \<and> fd_readAll rs data [] = Some a"
  shows "sent_artifact P signOp artifact"
proof (cases "resultByPath h signOp")
  case None
  with assms(1) obtain rs data where "pf_getResult P = Inr (rs, data, meta)" "fd_readAll rs data [] = Some artifact"
    by (auto simp: retrieve_artifact_def Let_def split: sum.splits thrown.splits option.splits)
  then show ?thesis unfolding sent_artifact_def by blast
next
  case (Some r)
  with assms show ?thesis by (fastforce simp: retrieve_artifact_def sent_artifact_def)
qed

lemma await_success:
  assumes "pz_ending (await_sign P signOp asked fs) = Some (ExitWith 0)"
  shows "\<exists>artifact code key fb.
    FinishedSignal signOp 0 code key fb \<in> set (pf_signals P) \<and> artifact \<noteq> [] \<and> sent_artifact P signOp artifact \<and>
    pz_files (await_sign P signOp asked fs) = fs(artPath P \<mapsto> artifact)"
proof -
  let ?h = "\<lparr>finishedByPath = Map.empty, resultByPath = Map.empty\<rparr>"
  have "retrieve_artifact P signOp h2 asked \<noteq> (Some (Inl (ExitWith 0)), asked')" for h2 asked'
    by (auto simp: retrieve_artifact_def Let_def split: option.splits sum.splits thrown.splits)
  with assms obtain h1 code key fb h2 artifact meta asked' where
    h: "hear_signals (pf_signals P) ?h = Some h1" "finishedByPath h1 signOp = Some (0, code, key, fb)"
      "hear_signals (pf_late P) h1 = Some h2" "retrieve_artifact P signOp h2 asked = (Some (Inr (artifact, meta)), asked')"
    and run: "await_sign P signOp asked fs = store_artifact P artifact meta asked' fs"
    by (auto simp: await_sign_def split: option.splits prod.splits sum.splits if_splits)
  have "FinishedSignal signOp 0 code key fb \<in> set (pf_signals P)" using hear_finished [OF h(1,2)] by simp
  moreover have "sent_artifact P signOp artifact"
  proof (rule retrieved [OF h(4)])
    fix a m
    assume "resultByPath h2 signOp = Some (a, m)"
    from hear_result [OF h(3) this] hear_result [OF h(1)]
    show "\<exists>rs data. ResultSignal signOp rs data m \<in> set (pf_signals P @ pf_late P) \<and> fd_readAll rs data [] = Some a"
      by fastforce
  qed
  moreover have "artifact \<noteq> [] \<and> pz_files (await_sign P signOp asked fs) = fs(artPath P \<mapsto> artifact)"
    using store_success assms unfolding run by blast
  ultimately show ?thesis by blast
qed

lemma sign_once_success:
  assumes "pz_ending (sign_once P card1 certId asked fs) = Some (ExitWith 0)"
  shows "\<exists>signOp. pf_sign P = Inr signOp \<and>
    sign_once P card1 certId asked fs =
      await_sign P signOp (asked @ [AskSign card1 certId (sign_options (pf_env P))]) (fs(docPath P \<mapsto> docBody))"
  using assms
  by (auto simp: sign_once_def Let_def dest!: writeFile_content split: option.splits prod.splits bool.splits sum.splits thrown.splits if_splits)

lemma main_success:
  assumes "pz_ending (sign_proof_main P fs) = Some (ExitWith 0)" "\<not> discoverOnly P"
  shows "\<exists>card1 certId asked. sign_proof_main P fs = sign_once P card1 certId asked fs"
proof -
  let ?sub = "envOr (pf_env P) ''LIBRESCRS_READER_SUBSTR'' []"
  have quit: "fst (discover sub ps asked) = Some (Inl (ExitWith n)) \<Longrightarrow> n \<noteq> 0" for sub ps asked n
    by (induction ps arbitrary: asked) (auto simp: Let_def split: sum.splits thrown.splits if_splits)
  have quit': "fst (resolve_cert f p r c asked) = Inl (ExitWith n) \<Longrightarrow> n \<noteq> 0" for f p r c asked n
    by (auto simp: resolve_cert_def Let_def split: sum.splits thrown.splits if_splits)
  have "resolve_cert f p r c asked \<noteq> (Inl (ExitWith 0), asked')" for f p r c asked asked'
    using quit' [of f p r c asked 0] by auto
  with assms quit [of ?sub "pf_polls P" "[]" 0] show ?thesis
    by (auto simp: sign_proof_main_def split: sum.splits bool.splits option.splits prod.splits)
qed


text \<open>
  A reported success is a signature on disk. When the run exits with success, not as a
  discovery run, the agent accepted the one request, its operation finished with status 0, the
  artifact written is not empty and is what that operation sent, by its signal or on request, and
  the document beside it is the one that was signed; nothing else on disk has changed.
\<close>

theorem reported_success_is_signed:
  assumes "pz_ending (sign_proof_main P fs) = Some (ExitWith 0)" and "\<not> discoverOnly P"
  shows "\<exists>signOp artifact code key fb.
    pf_sign P = Inr signOp \<and> FinishedSignal signOp 0 code key fb \<in> set (pf_signals P) \<and>
    artifact \<noteq> [] \<and> sent_artifact P signOp artifact \<and>
    pz_files (sign_proof_main P fs) = fs(docPath P \<mapsto> docBody, artPath P \<mapsto> artifact) \<and> docPath P \<noteq> artPath P"
proof -
  from main_success [OF assms] obtain card1 certId asked where main: "sign_proof_main P fs = sign_once P card1 certId asked fs"
    by blast
  from sign_once_success assms(1) obtain signOp asked' where "pf_sign P = Inr signOp"
    and await: "sign_proof_main P fs = await_sign P signOp asked' (fs(docPath P \<mapsto> docBody))"
    unfolding main by blast
  moreover have "docPath P \<noteq> artPath P" by (simp add: docPath_def artPath_def)
  ultimately show ?thesis using await_success [of P signOp asked' "fs(docPath P \<mapsto> docBody)"] assms(1) unfolding await by blast
qed

definition sample_proof_run :: proof_env where
  "sample_proof_run =
     \<lparr>pf_env = Map.empty, pf_argv1 = None, pf_conn = Inr True, pf_polls = [(Inr [], False), (Inr (sample_managed (VBool True)), False)],
      pf_reads = (\<lambda>_. sample_read), pf_docOpened = True, pf_docWrites = [Transferred 9, Interrupted, Transferred 99],
      pf_docReopened = True, pf_sign = Inr ''/op'',
      pf_signals = [ResultSignal ''/op'' [Transferred 1, Interrupted, Transferred 5, Transferred 5] [48, 49] [], FinishedSignal ''/op'' 0 0 [] []],
      pf_late = [], pf_getResult = Inl OtherException, pf_artOpened = True, pf_artWrites = [Transferred 9]\<rparr>"

lemma sample_discover: "discover [] (pf_polls sample_proof_run) [] = (Some (Inr (''/c'', [])), [AskManaged, AskManaged])"
  by (simp add: sample_proof_run_def sample_managed_def scan_reader_def smap_find_def kReaderIface_def kCardIface_def Let_def)

lemma sample_certificate: "resolve_cert [] [] (\<lambda>_. sample_read) ''/c'' asked = (Inr ''c1'', asked @ [AskCertificates ''/c''])"
  by (simp add: resolve_cert_def readCertificates_def sample_read_def choose_cert_def pick_cert_def sample_cert_def read_ok_def Let_def)

lemma sample_runs_env: "envOr Map.empty k d = d"
  by (simp add: envOr_def)

lemma docBody_length: "length docBody = 35" "docBody \<noteq> []"
  by (simp_all add: docBody_def)

lemma sample_proof_ends: "pz_ending (sign_proof_main sample_proof_run fs) = Some (ExitWith 0)"
  using sample_discover sample_certificate
  by (simp add: sign_proof_main_def sample_proof_run_def sample_runs_env forcedCertId_def discoverOnly_def sign_once_def writeFile_def
      await_sign_def retrieve_artifact_def store_artifact_def docBody_length Let_def)

theorem reported_success_is_signed_witness:
  "\<exists>artifact. artifact \<noteq> [] \<and> pz_files (sign_proof_main sample_proof_run Map.empty) (artPath sample_proof_run) = Some artifact \<and>
     sent_artifact sample_proof_run ''/op'' artifact"
proof -
  have "\<not> discoverOnly sample_proof_run" by (simp add: discoverOnly_def envOr_def sample_proof_run_def)
  moreover have "pf_sign sample_proof_run = Inr ''/op''" by (simp add: sample_proof_run_def)
  ultimately show ?thesis
    using reported_success_is_signed [OF sample_proof_ends, of Map.empty] by fastforce
qed

text \<open>
  A read of the artifact that fails half way is not noticed: what was read so far is written down
  and reported as the artifact.
\<close>

lemma truncated_artifact_reported:
  "pz_ending (sign_proof_main (sample_proof_run\<lparr>pf_signals :=
      [ResultSignal ''/op'' [Transferred 1, IoError] [48, 49] [], FinishedSignal ''/op'' 0 0 [] []]\<rparr>) fs) = Some (ExitWith 0) \<and>
   pz_files (sign_proof_main (sample_proof_run\<lparr>pf_signals :=
      [ResultSignal ''/op'' [Transferred 1, IoError] [48, 49] [], FinishedSignal ''/op'' 0 0 [] []]\<rparr>) fs)
      (artPath sample_proof_run) = Some [48]"
  using sample_discover sample_certificate
  by (simp add: sign_proof_main_def sample_proof_run_def sample_runs_env forcedCertId_def discoverOnly_def sign_once_def writeFile_def
      await_sign_def retrieve_artifact_def store_artifact_def docBody_length artPath_def outDir_def Let_def)

subsection \<open>What the agent makes of the request\<close>

lemma sign_options_find:
  "smap_find (sign_options env) ''format'' = Some (VString ''cades'')"
  "smap_find (sign_options env) ''packaging'' = Some (VString ''detached'')"
  "smap_find (sign_options env) ''level'' =
     (if envOr env ''LIBRESCRS_PROOF_LEVEL'' [] = [] then None else Some (VString (envOr env ''LIBRESCRS_PROOF_LEVEL'' [])))"
  "smap_find (sign_options env) ''tsaUrl'' = None" "smap_find (sign_options env) ''visualSignature'' = None"
  by (simp_all add: sign_options_def Let_def smap_find_def)

text \<open>
  The level is the agent's to choose. When the operator pins no level, the agent resolves the
  request of this client to the level its own configuration gives a request without one; the format
  and the packaging are the ones asked for, with no time stamp authority and nothing drawn.
\<close>

theorem proof_level_deferred:
  assumes "resolveSignOptions L cfg (sign_options env) doc = Inr opts"
    and "requestedFormatFrom L ''cades'' = Some ''cades''" "requestedPackagingFrom L ''detached'' = Some ''detached''"
  shows "ro_format opts = ''cades'' \<and> ro_packaging opts = ''detached'' \<and> ro_tsaUrl opts = [] \<and> ro_visual opts = None \<and>
    ro_level opts =
      resolveSignLevel L
        (if envOr env ''LIBRESCRS_PROOF_LEVEL'' [] = [] then None else requestedLevelFrom L (envOr env ''LIBRESCRS_PROOF_LEVEL'' []))
        (defaultLevel cfg) (tsaUrls cfg \<noteq> [])"
  using assms
  by (auto simp: resolveSignOptions_def resolve_defs optString_def optNestedMap_def sign_options_find Let_def
      split: sum.splits if_splits)

theorem proof_level_deferred_witness:
  "\<exists>opts. resolveSignOptions (sample_sign_lib\<lparr>isKnownFormat := (\<lambda>f. f = ''cades''), requestedPackagingFrom := Some\<rparr>) sample_config
      (sign_options Map.empty) [] = Inr opts \<and> ro_level opts = ''b-b''"
proof -
  let ?L = "sample_sign_lib\<lparr>isKnownFormat := (\<lambda>f. f = ''cades''), requestedPackagingFrom := Some\<rparr>"
  let ?o = "sign_options Map.empty"
  have "resolveFormat ?L ?o [] = Inr ''cades''" "resolveTsaUrl ?L ?o = Inr []" "resolveLevel ?L sample_config ?o [] = Inr ''b-b''"
    "resolvePackaging ?L ?o ''cades'' = Inr ''detached''" "resolveVisual ?L ?o ''cades'' = Inr None"
    by (simp_all add: resolve_defs optString_def optNestedMap_def sign_options_find sample_runs_env Let_def)
       (simp_all add: sample_sign_lib_def sample_config_def)
  then obtain opts where r: "resolveSignOptions ?L sample_config ?o [] = Inr opts" by (simp add: resolveSignOptions_def)
  from proof_level_deferred [OF r] show ?thesis using r
    by (simp add: sample_sign_lib_def sample_config_def envOr_def)
qed

end
