(* ===== verification/Spec2Isabelle.thy ===== *)
theory Spec2Isabelle
  imports Object_Paths Prompter_Service Prompter_Client Authorization Result_Store Pkcs11_Client Agent_Frontend
    Card_Object Event_Loop Operation_Channels Manager_Object Raw_Crypto Startup_Paths Agent_Wiring
    Tree_Signals Certificate_Wait Prompter_Main E2e_Prompter Sign_Proof
begin

text \<open>
  LibreLinux is the Linux side of the LibreSCRS smart-card middleware: three processes and the
  glue between them. The \<^emph>\<open>agent\<close> (\<^verbatim>\<open>src/agent\<close>) owns the readers and the cards and exports them
  on the session bus; the \<^emph>\<open>prompter\<close> (\<^verbatim>\<open>src/prompter\<close>) is a separate Qt process that shows the
  credential windows and hands each secret to the agent in a sealed memfd; the \<^emph>\<open>PKCS#11 module\<close>
  (\<^verbatim>\<open>src/pkcs11-module\<close>) is loaded into applications and reaches the cards through the agent.
  \<^verbatim>\<open>src/common\<close> holds what two of them share. The card protocols, the signing engine and the
  agent's presence model are the agent library's (a submodule); its functions are arguments of
  the definitions that call them, as are Qt, sd-bus and polkit.

  \<^bold>\<open>How the parts meet.\<close> A client calls a method of a card object; the agent asks polkit
  about the caller, and on a grant launches the operation; the operation needs a PIN, so the
  agent's prompter client raises a window in the prompter, which checks that its caller is the
  agent; the user's entry is sealed in a memfd and travels back as a descriptor; the result of the
  operation is published to subscribers and kept for late ones as sealed descriptors; hot-plug
  events from the readers become exported objects through the frontend, and the module's
  cached snapshot follows the same tree from the outside.

  \<^bold>\<open>Shared theories.\<close>
  \<^item> \<^verbatim>\<open>LL_Prelude\<close>: machine types, decimal rendering and \<^verbatim>\<open>std::stoull\<close>, string search, option
    dictionaries and the lemma collections the component proofs use.
  \<^item> \<^verbatim>\<open>Std_Map\<close>: \<^verbatim>\<open>std::map\<close> as a strictly ascending association list. The locale \<open>std_map\<close> is its
    contract (what a lookup answers after an insertion, an erasure, an assignment; order kept),
    interpreted on the list operations.
  \<^item> \<^verbatim>\<open>Error_Names\<close>: \<^verbatim>\<open>common/AgentErrorNames.h\<close>.

  \<^bold>\<open>Components.\<close>
  \<^item> \<^verbatim>\<open>Object_Paths\<close>: \<^verbatim>\<open>AgentObjectPath.h\<close>, \<^verbatim>\<open>OperationPath.h\<close>; path composition and its inverse.
  \<^item> \<^verbatim>\<open>Sealed_Memfd\<close>: \<^verbatim>\<open>SealedMemfdCreator.h\<close>, \<^verbatim>\<open>SecretMemfd.cpp\<close>, \<^verbatim>\<open>SealedMemfd.cpp\<close> and
    \<^verbatim>\<open>SecretMemfdReader.cpp\<close>. Each system call takes its outcome from a script (bytes moved,
    \<^verbatim>\<open>EINTR\<close>, a failure), so short writes, short reads and interruptions are all runs of the
    model; a loop that exhausts its script answers \<open>None\<close>, and the theorems state which scripts
    are enough. Shown: all or nothing creation, the round trip, the reader's refusal of
    anything unsealed or too large, and the wiped buffer.
  \<^item> \<^verbatim>\<open>Proc_Pin\<close>: \<^verbatim>\<open>ProcPidPin.h\<close>, \<^verbatim>\<open>CallerAuthorizer.cpp\<close>, \<^verbatim>\<open>CallerIdentity.cpp\<close> over a process
    table that may change between any two system calls.
  \<^item> \<^verbatim>\<open>Input_Widgets\<close>, \<^verbatim>\<open>Prompt_Dialog\<close>: the entry fields with their validity rules (PIN length,
    CAN, MRZ lines and check digits, the PIN change), and the window with its wording, layout,
    entry clock and form switch. Qt's text measures and encodings are parameters.
  \<^item> \<^verbatim>\<open>Prompt_Registry\<close>: the two-index table of windows. The locale \<open>prompt_windows\<close> is what the
    service relies on; the interpretation discharges it for the class under its invariant.
  \<^item> \<^verbatim>\<open>Prompter_Wire\<close>, \<^verbatim>\<open>Prompter_Service\<close>: the request handlers on the bus thread, the windows on
    the GUI thread, and an \<^theory_text>\<open>inductive\<close> step relation that interleaves them. Shown by rule
    induction: every call is answered at most once and never forgotten, no byte leaves without
    success, dismissal needs the owner.
  \<^item> \<^verbatim>\<open>Prompter_Client\<close>: \<^verbatim>\<open>PrompterClient.cpp\<close> and \<^verbatim>\<open>PrompterCapability.h\<close>, the agent's end of
    the same wire.
  \<^item> \<^verbatim>\<open>Authorization\<close>: \<^verbatim>\<open>PolkitAuthorizer.cpp\<close>, \<^verbatim>\<open>AuthorizedReply.h\<close>, \<^verbatim>\<open>GrantGate.h\<close>. The locale
    \<open>authority\<close> states what a deferred call relies on, interpreted on the model of the polkit
    authorizer; a deferred call is a script of what happens to it (an answer, a drop).
  \<^item> \<^verbatim>\<open>Result_Store\<close>: \<^verbatim>\<open>TypedResultStore.h\<close> and \<^verbatim>\<open>.cpp\<close>. Descriptors are counted: each seal
    attempt and each allocation takes its outcome from a script, so that what is open after a
    failure is part of the statement. The locale \<open>seal_primitive\<close> is the contract of the sealing
    function, interpreted on \<^verbatim>\<open>Sealed_Memfd\<close>.
  \<^item> \<^verbatim>\<open>Sign_Options\<close>, \<^verbatim>\<open>Card_Object\<close>: \<^verbatim>\<open>dbus/CardObject.cpp\<close>; the signing options and every
    method of the card with its guards in the order of the code.
  \<^item> \<^verbatim>\<open>Bus_Exporter\<close>, \<^verbatim>\<open>Agent_Frontend\<close>: \<^verbatim>\<open>BusExporter.cpp\<close>, \<^verbatim>\<open>AgentFrontend.cpp\<close>,
    \<^verbatim>\<open>ReaderObject.h\<close>; publication of readers and cards over the monitor, worker and loop
    threads as a step relation, with the exported tree as its observable.
  \<^item> \<^verbatim>\<open>Pkcs11_Client\<close>: \<^verbatim>\<open>DBusAgentClient.cpp\<close>, \<^verbatim>\<open>CertificateRead.h\<close>, \<^verbatim>\<open>CertResultWire.h\<close>. Signals may
    be handled between any two calls of an enumeration: each handler step is an element of a
    script. The locale \<open>generation_guard\<close> is the rule that a read is recorded only when no
    change was signalled meanwhile; its generation counter is 64 bits wide, and the statements
    bound the number of changes by its range.

  \<^item> \<^verbatim>\<open>Event_Loop\<close>: \<^verbatim>\<open>EventLoopPoster.cpp\<close>. Any number of threads post while the loop reads its
    eventfd, swaps the queue and runs the batch; an \<^theory_text>\<open>inductive\<close> relation interleaves them at
    the granularity of the mutex and the counter. Shown: no lost wake-up, nothing lost, repeated
    or overtaken, and a drain ends after what was pending when it began.
  \<^item> \<^verbatim>\<open>Operation_Wire\<close>, \<^verbatim>\<open>Operation_Channels\<close>: \<^verbatim>\<open>Operation1Adaptor.cpp\<close>,
    \<^verbatim>\<open>OperationAdaptorFactory.cpp\<close>, \<^verbatim>\<open>CredentialOutcomeNames.cpp\<close>; the wire shapes and the six
    channels, each with the signal it emits and the late fetch that answers the same result from
    the store, through every failing seal and allocation.
  \<^item> \<^verbatim>\<open>Manager_Object\<close>: \<^verbatim>\<open>ManagerObject.cpp\<close>; configuration by tier and grant, the import of
    country-signing certificates, and the forwarders of raw card operations.
  \<^item> \<^verbatim>\<open>Raw_Crypto\<close>: the module's raw operations answered by the root object, end to end.
  \<^item> \<^verbatim>\<open>Startup_Paths\<close>: \<^verbatim>\<open>ConfigPaths.cpp\<close>, \<^verbatim>\<open>PluginDirectory.cpp\<close>; what is decided and logged before
    the agent serves anything.
  \<^item> \<^verbatim>\<open>Session_Watch\<close>: \<^verbatim>\<open>SessionLifecycleWatch.cpp\<close>; logind's signals and what the core is told.
  \<^item> \<^verbatim>\<open>Agent_Service\<close>, \<^verbatim>\<open>Agent_Shutdown\<close>, \<^verbatim>\<open>Agent_Wiring\<close>: \<^verbatim>\<open>AgentService.cpp\<close>, \<^verbatim>\<open>AgentCoreSeams.h\<close>
    and \<^verbatim>\<open>main.cpp\<close>. The start is a list of calls, any of which may fail; the members record what
    stands, the trace what was tried. Shown: ready exactly when complete, the order the comments
    ask for, a teardown that severs every edge, waits for prompts at most forty rounds (the
    source's own bound) and never destroys a member before its borrowers, and callbacks that mean
    the same card and the same client as the transport does.
  \<^item> \<^verbatim>\<open>Tree_Signals\<close>: \<^verbatim>\<open>ObjectManagerSignals.h\<close> and the constructors and destructors of the exported
    objects; the steps of the frontend labelled with what they do on the bus, and the module that
    follows the announcements. The locale \<open>tree_follower\<close> is what a follower promises (whatever it
    hears makes its copy stale), interpreted on the module's handlers. Shown: announcements,
    registrations and tree agree at every moment, and what the module answers, once it has heard
    everything, is the tree, with agent steps and signals inside its calls.
  \<^item> \<^verbatim>\<open>Certificate_Wait\<close>: the end of a certificate read in the agent against the module that waits for it,
    step by step. Of the agent library's worker only the order is used that \<^verbatim>\<open>CertificateRead.h\<close> relies
    on. Shown: the module never waits for a signal that has gone by and never misreads the outcome.
  \<^item> \<^verbatim>\<open>Prompter_Main\<close>: \<^verbatim>\<open>prompter/src/main.cpp\<close>; every state the process passes through. Shown: calls
    are dispatched only to a process that can be neither dumped nor traced and that outlives its
    dialogs.
  \<^item> \<^verbatim>\<open>E2e_Prompter\<close>: \<^verbatim>\<open>e2e/auto-prompter.cpp\<close> and \<^verbatim>\<open>e2e/validate-prompter.cpp\<close>, a second provider of
    the prompter's interface and its check, against the agent's own client and reader. Shown: nothing
    is released without the gate, and the validator accepts exactly the expected PIN.
  \<^item> \<^verbatim>\<open>Sign_Proof\<close>: \<^verbatim>\<open>e2e/sign-proof.cpp\<close>, the acceptance client, with the module's certificate read and
    the agent's own resolution of the options it sends. Shown: one signature at most, what a
    reported success means, and that an omitted level is the agent's to choose.

  \<^bold>\<open>This theory\<close> holds the properties that span two processes: the prompter and the agent agree
  on what was offered, and what the user typed is what the agent reads.

  \<^bold>\<open>Not modelled.\<close> \<^verbatim>\<open>DBusAgentClientFactory.cpp\<close> constructs one object; rendering, fonts and window
  stacking are Qt's. C++ object lifetime and memory safety are outside a shallow embedding, except
  where the code itself keeps them by a token, a guard or an order of members, which the step
  relations and the host's trace contain; threads inside the agent library, its caches, leases,
  signing engine and card protocols are behind the parameters named above. Of properties that
  change without an object coming or going (a reader's presence flag, a card's type) the module is
  not told, and the model says nothing of what it shows for them between two enumerations. What the
  programs write to their logs is kept only where it is an answer. Tests, packaging and
  translations are not program logic.
\<close>

subsection \<open>The two ends of a prompt\<close>

text \<open>
  The agent and the prompter agree on whether the MRZ alternative is on offer. For a
  request the agent marshals, the prompter offers the switch exactly when the agent itself
  counts the request as one that offered it, so the MRZ success word is never minted for
  an agent that would read it as an error, nor withheld from one that asked.
\<close>

theorem offer_agrees:
  assumes "wire_ok W"
  shows "(parseKind W knd = Some Can \<and>
      kKindMrz W \<in> set (altKinds (buildOptions (buildOptionsDict W o1)))) =
    offeredMrzAlternative W knd o1"
proof -
  have "altKinds (buildOptions (buildOptionsDict W o1)) = po_altKinds o1"
    by (simp add: buildOptions_def option_lifts find_dict Let_def)
  moreover have "parseKind W knd = Some Can \<longleftrightarrow> knd = kKindCan W"
    using wire_okD(1,3) [OF assms] by (auto simp: parseKind_def)
  moreover have "index_of (\<lambda>k. k = kKindMrz W) (po_altKinds o1) \<noteq> None \<longleftrightarrow> kKindMrz W \<in> set (po_altKinds o1)"
    unfolding index_of_None_iff by auto
  ultimately show ?thesis by (simp add: offeredMrzAlternative_def)
qed

theorem offer_agrees_witness:
  "parseKind sample_wire ''can'' = Some Can \<and>
   kKindMrz sample_wire \<in> set (altKinds (buildOptions (buildOptionsDict sample_wire sample_prompt_options)))"
  unfolding offer_agrees [OF sample_wire_ok]
  by (simp add: offeredMrzAlternative_def sample_wire_def sample_prompt_options_def)

text \<open>What an accepted PIN window answers.\<close>

lemma accepted_pin_answer:
  assumes reach: "reach W cs s" and wire: "e_wire E = W" "e_alive E"
    and win: "ps_windows s w = Some info" "\<not> w_change info" "m_widget (w_dialog info) = WPin e"
      "registry_find (ps_registry s) (w_handle info) \<noteq> None"
    and secret: "secret = qs_toUtf8 (dl_qt (e_dialog E)) (le_text e)"
    and creation: "env_memfd_create (e_capture E) = Inr n" "env_add_seals (e_capture E) = None"
      "progressing (env_writes (e_capture E))" "length secret \<le> moves (env_writes (e_capture E))"
  shows "\<exists>s' a f. finished E w Accepted s = Some s' \<and> ps_answers s' = ps_answers s @ [a] \<and>
    a_call a = w_call info \<and> a_word a = replyStatusToken W RsOk \<and> a_sent a \<and> a_files a = [Some f] \<and>
    mf_data f = secret \<and> mf_seals f = F_SEAL_SHRINK OR F_SEAL_GROW OR F_SEAL_WRITE"
proof -
  have ok: "reg_ok (ps_registry s)" using reach_inv [OF reach] by (simp add: svc_inv_def)
  obtain en r where tk: "registry_take (ps_registry s) (w_handle info) = (Some en, r)"
    using windows.take_fst [OF ok, of "w_handle info"] win(4)
    by (cases "registry_take (ps_registry s) (w_handle info)") auto
  have "form_ok info" using reach_forms_ok [OF reach] win(1) by (simp add: forms_ok_def)
  then have kd: "\<not> mrzChosen (w_dialog info)" using win(3) by (simp add: form_ok_def mrzChosen_def)
  obtain res where "write_loop (env_writes (e_capture E)) secret 0 [] = Some (Inr res)"
    using write_loop_enough [of "env_writes (e_capture E)" secret 0 "[]"] creation(3,4) by auto
  moreover from this have "res = secret" using write_loop_content by fastforce
  ultimately have mk: "makeSealedSecretFd (e_capture E) secret (ps_fds s) =
      Some ((int n, None), (ps_fds s)(n \<mapsto> \<lparr>mf_name = ''librescrs-secret'', mf_data = secret,
        mf_seals = F_SEAL_SHRINK OR F_SEAL_GROW OR F_SEAL_WRITE\<rparr>))"
    using creation(1,2) by (simp add: makeSealedSecretFd_def makeSealedMemfd_def)
  show ?thesis
    using win tk kd mk wire secret
    by (simp add: finished_def finish_single_def dialog_captureSecretFd_def pin_captureSecretFd_def seal_staged_def
          answerSecret_def deleteLater_def fd_file_def Let_def)
qed

text \<open>
  C2: a PIN typed into an accepted window reaches the agent unchanged. The window's answer
  carries the success word and one sealed descriptor, and the agent's request that receives
  this very reply returns success with exactly the bytes that were typed, for every pattern
  of short writes and reads that keeps making progress.
\<close>

theorem accepted_pin_reaches_agent:
  assumes libs: "wire_ok W" "reader_lib_ok (ce_reader CE)" "ce_wire CE = W"
    and reach: "reach W cs s" and wire: "e_wire E = W" "e_alive E"
    and win: "ps_windows s w = Some info" "\<not> w_change info" "m_widget (w_dialog info) = WPin e"
      "registry_find (ps_registry s) (w_handle info) \<noteq> None"
    and secret: "secret = qs_toUtf8 (dl_qt (e_dialog E)) (le_text e)"
    and creation: "env_memfd_create (e_capture E) = Inr n" "env_add_seals (e_capture E) = None"
      "progressing (env_writes (e_capture E))" "length secret \<le> moves (env_writes (e_capture E))"
    and client: "m_capability c = Some True" "length secret \<le> kMaxSecretBytes (ce_reader CE)"
      "env_resize_ok (ce_read1 CE)" "progressing (env_preads (ce_read1 CE))"
      "length secret \<le> moves (env_preads (ce_read1 CE))" "secureString (ce_reader CE) secret \<noteq> None"
  shows "\<exists>s' a f r c'. finished E w Accepted s = Some s' \<and> ps_answers s' = ps_answers s @ [a] \<and>
    a_sent a \<and> a_files a = [Some f] \<and>
    request CE (Returned (a_word a, view_of f, [])) (kKindPin W) o1 c = Some (r, c') \<and>
    pr_status r = PsOk \<and> pr_secret r = Some secret"
proof -
  from accepted_pin_answer [OF reach wire win secret creation] obtain s' a f where
    a: "finished E w Accepted s = Some s'" "ps_answers s' = ps_answers s @ [a]"
      "a_word a = replyStatusToken W RsOk" "a_sent a" "a_files a = [Some f]"
      "mf_data f = secret" "mf_seals f = F_SEAL_SHRINK OR F_SEAL_GROW OR F_SEAL_WRITE" by blast
  have "mf_seals f AND kRequiredSeals = kRequiredSeals"
    using a(7) required_seals_of_creator by simp
  then obtain rr where rr: "SecretMemfdReader_read (ce_reader CE) (ce_read1 CE) (view_of f) = Some rr"
      "rr_secret rr = Some secret"
    using read_view_of_sealed [OF libs(2), of f "ce_read1 CE"] client a(6) by auto
  have st: "parseRequestSecretStatus W (a_word a) b = (PsOk, None)" for b
    by (simp add: parseRequestSecretStatus_def replyStatusOf_def a(3) wire_okD [OF libs(1)] Let_def)
  have ref: "refuseUnlessUsable (ce_probe CE) c = (None, c)"
    using client(1) by (simp add: refuseUnlessUsable_def prompterUsability_def)
  have "\<exists>r c'. request CE (Returned (a_word a, view_of f, [])) (kKindPin W) o1 c = Some (r, c') \<and>
      pr_status r = PsOk \<and> pr_secret r = Some secret"
    unfolding request_def libs(3) ref Let_def by (simp add: st rr empty_result_def)
  with a show ?thesis by blast
qed

definition pin_opts :: options where
  "pin_opts = (buildOptions [])\<lparr>offerMrzSwitch := False\<rparr>"

definition pin_win :: win where
  "pin_win = \<lparr>w_dialog = announce (PromptDialog sample_dialog_lib 2460000 Pin pin_opts), w_handle = 1,
     w_offer = False, w_change = False, w_call = 9\<rparr>"

definition pin_service :: service where
  "pin_service = raiseWindow refusing_env Pin pin_opts 42 [] False 0 0 9 init_service"

definition typed_edit :: line_edit where
  "typed_edit = setText (qs ''1234'') (makePinEdit 4 8)"

definition typed_dialog :: dialog where
  "typed_dialog = edit_widget sample_dialog_lib 2460000 (WPin typed_edit) (w_dialog pin_win)"

definition typed_service :: service where
  "typed_service = put_dialog 0 typed_dialog pin_service"

lemma pin_facts:
  "ps_windows pin_service = [0 \<mapsto> pin_win]" "ps_fds pin_service = Map.empty"
  "ps_registry pin_service = \<lparr>m_entries = [\<lparr>window = 0, ownerPid = 42, promptId = []\<rparr>], m_handles = [1], m_nextHandle = 2\<rparr>"
  by (simp_all add: pin_service_def raiseWindow_def init_service_def empty_registry_def registry_add_def
        show_window_def pin_win_def Let_def setEntryDeadline_def refusing_env_def
        showEvent_def PromptDialog_def wireValidity_def)

lemma reach_typed: "reach sample_wire [9] typed_service"
proof -
  have "RequestSecret refusing_env Main 9 (Some 42) (\<lambda>_. True) ''pin'' [] init_service = Some pin_service"
    by (simp add: RequestSecret_def authorizeCaller_def pin_service_def parseKind_def pin_opts_def option_lifts
          smap_find_def Let_def) (simp add: refusing_env_def sample_wire_def)
  then have "reach sample_wire [9] pin_service"
    by (rule reach.Secret [OF reach.Init, rotated -1]) (simp_all add: refusing_env_def init_service_def)
  moreover have "win_step sample_dialog_lib (w_dialog pin_win) typed_dialog"
    unfolding typed_dialog_def
    by (rule Edit) (simp add: pin_win_def announce_def PromptDialog_def wireValidity_def)
  ultimately show ?thesis
    unfolding typed_service_def by (intro reach.Window [of _ _ _ 0 pin_win]) (simp_all add: pin_facts)
qed

definition byte_env :: svc_env where
  "byte_env = refusing_env\<lparr>e_capture := \<lparr>env_memfd_create = Inr 5, env_writes = [Moved 1, Moved 1, Moved 1, Moved 1], env_add_seals = None\<rparr>\<rparr>"

definition byte_client_env :: client_env where
  "byte_client_env = sample_client_env\<lparr>ce_read1 := \<lparr>env_resize_ok = True, env_preads = [Moved 1, Moved 1, Moved 1, Moved 1]\<rparr>\<rparr>"

lemma typed_facts:
  "ps_windows typed_service 0 = Some (pin_win\<lparr>w_dialog := typed_dialog\<rparr>)"
  "ps_registry typed_service = ps_registry pin_service" "m_widget typed_dialog = WPin typed_edit"
  "qs_toUtf8 (dl_qt (e_dialog byte_env)) (le_text typed_edit) = [49, 50, 51, 52]"
  by (simp_all add: typed_service_def typed_dialog_def edit_widget_def wireValidity_def pin_facts)
     (simp_all add: put_dialog_def pin_facts byte_env_def refusing_env_def sample_dialog_lib_def sample_qt_def
        typed_edit_def setText_def makePinEdit_def qs_def)

theorem accepted_pin_reaches_agent_witness:
  "\<exists>s' a f r c'. finished byte_env 0 Accepted typed_service = Some s' \<and>
    ps_answers s' = ps_answers typed_service @ [a] \<and> a_sent a \<and> a_files a = [Some f] \<and>
    request byte_client_env (Returned (a_word a, view_of f, [])) (kKindPin sample_wire) sample_prompt_options
      (new_client\<lparr>m_capability := Some True\<rparr>) = Some (r, c') \<and>
    pr_status r = PsOk \<and> pr_secret r = Some [49, 50, 51, 52]"
  by (rule accepted_pin_reaches_agent [OF sample_wire_ok _ _ reach_typed _ _ typed_facts(1), where e = typed_edit and n = 5])
     (simp_all add: typed_facts pin_facts registry_find_def pin_win_def byte_env_def refusing_env_def
        byte_client_env_def sample_client_env_def sample_reader_lib_def reader_lib_ok_def
        sample_dialog_lib_def sample_qt_def typed_edit_def setText_def makePinEdit_def qs_def)

end
